(* ===== verification/Prelude.thy ===== *)
theory Prelude
  imports Main "HOL-Library.Sublist" "HOL-Library.Char_ord" "HOL-Library.List_Lexorder"
    "HOL-Library.Word" "HOL-Library.Multiset"
begin

section \<open>Shared vocabulary of the development\<close>

text \<open>
  What every component uses: Rust's \<open>Ordering\<close> with its lexicographic chaining and the
  interface (locale \<open>rust_ord\<close>) of a lawful \<open>Ord::cmp\<close>; the operations of Rust's
  \<open>str\<close> the sources call; the numeric parsing and the saturating and checked arithmetic
  of \<open>u64\<close>; and the collections of simplification rules the components extend.

  A Rust string is modelled as a list of ASCII characters. The sources run these operations on
  git tag names, version strings, target triples, environment references and configuration
  tokens; on ASCII input a byte, a \<open>char\<close> and an element of the list are the same thing.
  \<open>Result\<close> is a sum with the error on the left.
\<close>

named_theorems str_simps "evaluation rules for the string operations"
named_theorems ord_simps "rules for Rust orderings"

type_synonym ('e, 'a) result = "'e + 'a"

definition is_ok :: "('e, 'a) result \<Rightarrow> bool" where
  "is_ok r = (case r of Inl _ \<Rightarrow> False | Inr _ \<Rightarrow> True)"

lemma is_ok_simps [simp]: "is_ok (Inl e) = False" "is_ok (Inr x) = True"
  by (simp_all add: is_ok_def)

definition ok_opt :: "('e, 'a) result \<Rightarrow> 'a option" where
  "ok_opt r = (case r of Inl _ \<Rightarrow> None | Inr x \<Rightarrow> Some x)"

lemma ok_opt_simps [simp]: "ok_opt (Inl e) = None" "ok_opt (Inr x) = Some x"
  by (simp_all add: ok_opt_def)

lemma ok_opt_eq_Some [simp]: "ok_opt r = Some x \<longleftrightarrow> r = Inr x"
  by (cases r) simp_all

subsection \<open>Orderings\<close>

datatype ordering = Less | Equal | Greater

fun then_cmp :: "ordering \<Rightarrow> ordering \<Rightarrow> ordering" where
  "then_cmp Equal o2 = o2"
| "then_cmp o1 o2 = o1"

fun reverse_ord :: "ordering \<Rightarrow> ordering" where
  "reverse_ord Less = Greater"
| "reverse_ord Equal = Equal"
| "reverse_ord Greater = Less"

definition cmp_of :: "'a::linorder \<Rightarrow> 'a \<Rightarrow> ordering" where
  "cmp_of x y = (if x < y then Less else if y < x then Greater else Equal)"

lemma reverse_reverse [simp]: "reverse_ord (reverse_ord r) = r"
  by (cases r) simp_all

lemma reverse_eq_iff [simp]:
  "reverse_ord r = Less \<longleftrightarrow> r = Greater"
  "reverse_ord r = Greater \<longleftrightarrow> r = Less"
  "reverse_ord r = Equal \<longleftrightarrow> r = Equal"
  by (cases r; simp)+

lemma then_cmp_eq_iff [ord_simps]:
  "then_cmp a b = Equal \<longleftrightarrow> a = Equal \<and> b = Equal"
  "then_cmp a b = Less \<longleftrightarrow> a = Less \<or> (a = Equal \<and> b = Less)"
  "then_cmp a b = Greater \<longleftrightarrow> a = Greater \<or> (a = Equal \<and> b = Greater)"
  by (cases a; simp)+

lemma reverse_then [ord_simps]: "reverse_ord (then_cmp a b) = then_cmp (reverse_ord a) (reverse_ord b)"
  by (cases a) simp_all

lemma cmp_of_eq_iff [simp]:
  "cmp_of x y = Less \<longleftrightarrow> x < y"
  "cmp_of x y = Greater \<longleftrightarrow> y < x"
  "cmp_of x y = Equal \<longleftrightarrow> x = y"
  by (auto simp: cmp_of_def)

text \<open>
  The contract of \<open>Ord::cmp\<close> the sorting code relies on: swapping the arguments reverses the
  answer, and "not greater" is transitive. Antisymmetry with respect to \<open>==\<close> is a separate
  law (locale \<open>rust_ord_eq\<close>), because not every comparison of the program has it.
\<close>

locale rust_ord =
  fixes cmp :: "'a \<Rightarrow> 'a \<Rightarrow> ordering"
  assumes swap: "cmp y x = reverse_ord (cmp x y)"
    and trans_le: "cmp x y \<noteq> Greater \<Longrightarrow> cmp y z \<noteq> Greater \<Longrightarrow> cmp x z \<noteq> Greater"
begin

lemma refl: "cmp x x = Equal"
  using swap [of x x] by (cases "cmp x x") simp_all

lemma le_total: "cmp x y \<noteq> Greater \<or> cmp y x \<noteq> Greater"
  using swap [of y x] by (cases "cmp x y") simp_all

lemma eq_sym: "cmp x y = Equal \<Longrightarrow> cmp y x = Equal"
  using swap [of y x] by simp

lemma eq_cong: "cmp x y = Equal \<Longrightarrow> cmp x z = cmp y z"
proof -
  assume e: "cmp x y = Equal"
  then have e': "cmp y x = Equal" by (rule eq_sym)
  have le: "cmp x z \<noteq> Greater \<longleftrightarrow> cmp y z \<noteq> Greater"
    using e e' trans_le [of x y z] trans_le [of y x z] by auto
  have "cmp z x \<noteq> Greater \<longleftrightarrow> cmp z y \<noteq> Greater"
    using e e' trans_le [of z x y] trans_le [of z y x] by auto
  then have "cmp x z \<noteq> Less \<longleftrightarrow> cmp y z \<noteq> Less"
    using swap [of x z] swap [of y z] by simp
  with le show ?thesis by (cases "cmp x z"; cases "cmp y z") auto
qed

lemma eq_trans: "cmp x y = Equal \<Longrightarrow> cmp y z = Equal \<Longrightarrow> cmp x z = Equal"
  using eq_cong by metis

lemma eq_cong_right: "cmp x y = Equal \<Longrightarrow> cmp z x = cmp z y"
  using eq_cong [of x y z] swap [of z x] swap [of z y] by simp

lemma less_trans: "cmp x y = Less \<Longrightarrow> cmp y z = Less \<Longrightarrow> cmp x z = Less"
proof -
  assume a: "cmp x y = Less" and b: "cmp y z = Less"
  then have le: "cmp x z \<noteq> Greater" using trans_le [of x y z] by simp
  have "cmp x z \<noteq> Equal"
  proof
    assume "cmp x z = Equal"
    then have "cmp y x = cmp y z" by (rule eq_cong_right)
    with a b swap [of y x] show False by simp
  qed
  with le show ?thesis by (cases "cmp x z") simp_all
qed

lemma then_le_trans:
  assumes xy: "then_cmp (cmp x y) a \<noteq> Greater" and yz: "then_cmp (cmp y z) b \<noteq> Greater"
    and tail: "a \<noteq> Greater \<Longrightarrow> b \<noteq> Greater \<Longrightarrow> c \<noteq> Greater"
  shows "then_cmp (cmp x z) c \<noteq> Greater"
proof (cases "cmp x y")
  case Equal
  then have "cmp x z = cmp y z" by (rule eq_cong)
  with Equal xy yz tail show ?thesis by (cases "cmp y z") simp_all
next
  case Less
  show ?thesis
  proof (cases "cmp y z")
    case Equal
    then have "cmp x y = cmp x z" by (rule eq_cong_right)
    with Less show ?thesis by (cases "cmp x z") simp_all
  next
    case Less
    with \<open>cmp x y = Less\<close> have "cmp x z = Less" by (rule less_trans)
    then show ?thesis by simp
  next
    case Greater
    with yz show ?thesis by simp
  qed
next
  case Greater
  with xy show ?thesis by simp
qed

end

locale rust_ord_eq = rust_ord +
  assumes eq_iff: "cmp x y = Equal \<longleftrightarrow> x = y"

interpretation linorder_ord: rust_ord_eq "cmp_of :: 'a::linorder \<Rightarrow> 'a \<Rightarrow> ordering"
  by unfold_locales (auto simp: cmp_of_def split: if_splits)

text \<open>Chaining two comparisons through \<open>Ordering::then\<close> keeps the contract.\<close>

lemma rust_ord_then:
  assumes "rust_ord f" and "rust_ord g"
  shows "rust_ord (\<lambda>x y. then_cmp (f x y) (g x y))"
proof (rule rust_ord.intro)
  fix x y
  show "then_cmp (f y x) (g y x) = reverse_ord (then_cmp (f x y) (g x y))"
    using rust_ord.swap [OF assms(1), of y x] rust_ord.swap [OF assms(2), of y x]
    by (simp add: reverse_then)
next
  fix x y z
  assume "then_cmp (f x y) (g x y) \<noteq> Greater" and "then_cmp (f y z) (g y z) \<noteq> Greater"
  then show "then_cmp (f x z) (g x z) \<noteq> Greater"
    by (rule rust_ord.then_le_trans [OF assms(1)]) (rule rust_ord.trans_le [OF assms(2)])
qed

lemma rust_ord_on:
  assumes "rust_ord f"
  shows "rust_ord (\<lambda>x y. f (k x) (k y))"
  by (rule rust_ord.intro) (rule rust_ord.swap [OF assms] rust_ord.trans_le [OF assms]; assumption)+

lemma rust_ord_flip:
  assumes "rust_ord f"
  shows "rust_ord (\<lambda>x y. f y x)"
  by (rule rust_ord.intro) (rule rust_ord.swap [OF assms], erule (1) rust_ord.trans_le [OF assms, rotated])


text \<open>
  The loop over two zipped sequences that returns at the first difference, and compares the
  lengths when one is a prefix of the other.
\<close>

fun lex_cmp :: "('a \<Rightarrow> 'a \<Rightarrow> ordering) \<Rightarrow> 'a list \<Rightarrow> 'a list \<Rightarrow> ordering" where
  "lex_cmp f (x # xs) (y # ys) = then_cmp (f x y) (lex_cmp f xs ys)"
| "lex_cmp f [] [] = Equal"
| "lex_cmp f [] (y # ys) = Less"
| "lex_cmp f (x # xs) [] = Greater"

lemma lex_cmp_Nil_left [simp]: "lex_cmp f [] ys = (if ys = [] then Equal else Less)"
  by (cases ys) simp_all

lemma lex_cmp_Nil_right [simp]: "lex_cmp f xs [] = (if xs = [] then Equal else Greater)"
  by (cases xs) simp_all

context rust_ord
begin

lemma lex_swap: "lex_cmp cmp ys xs = reverse_ord (lex_cmp cmp xs ys)"
proof (induction xs arbitrary: ys)
  case Nil
  then show ?case by simp
next
  case (Cons x xs)
  note IH = this
  show ?case
  proof (cases ys)
    case Nil
    then show ?thesis by simp
  next
    case (Cons y ys')
    have "lex_cmp cmp ys (x # xs) = then_cmp (cmp y x) (lex_cmp cmp ys' xs)"
      using Cons by simp
    also have "\<dots> = then_cmp (reverse_ord (cmp x y)) (reverse_ord (lex_cmp cmp xs ys'))"
      by (simp only: IH [of ys'] swap [of y x])
    also have "\<dots> = reverse_ord (lex_cmp cmp (x # xs) ys)"
      using Cons by (simp add: reverse_then)
    finally show ?thesis .
  qed
qed

lemma lex_trans:
  "lex_cmp cmp xs ys \<noteq> Greater \<Longrightarrow> lex_cmp cmp ys zs \<noteq> Greater \<Longrightarrow> lex_cmp cmp xs zs \<noteq> Greater"
proof (induction xs arbitrary: ys zs)
  case Nil
  then show ?case by simp
next
  case (Cons x xs)
  then obtain y ys' where ys: "ys = y # ys'" by (cases ys) simp_all
  with Cons.prems obtain z zs' where zs: "zs = z # zs'" by (cases zs) simp_all
  from Cons.prems(1) ys have "then_cmp (cmp x y) (lex_cmp cmp xs ys') \<noteq> Greater" by simp
  moreover from Cons.prems(2) ys zs
  have "then_cmp (cmp y z) (lex_cmp cmp ys' zs') \<noteq> Greater" by simp
  ultimately have "then_cmp (cmp x z) (lex_cmp cmp xs zs') \<noteq> Greater"
    by (rule then_le_trans) (rule Cons.IH)
  with zs show ?case by simp
qed

lemma rust_ord_lex: "rust_ord (lex_cmp cmp)"
  by (rule rust_ord.intro) (rule lex_swap, rule lex_trans)

lemma lex_eq_iff: "lex_cmp cmp xs ys = Equal \<longleftrightarrow> list_all2 (\<lambda>x y. cmp x y = Equal) xs ys"
proof (induction xs arbitrary: ys)
  case Nil
  then show ?case by (cases ys) simp_all
next
  case (Cons x xs)
  then show ?case by (cases ys) (simp_all add: ord_simps)
qed

lemma lex_less_iff:
  "lex_cmp cmp xs ys = Less \<longleftrightarrow>
   (\<exists>i < length ys. (\<forall>j < i. cmp (xs ! j) (ys ! j) = Equal)
      \<and> (i = length xs \<or> i < length xs \<and> cmp (xs ! i) (ys ! i) = Less))"
proof (induction xs arbitrary: ys)
  case Nil
  then show ?case by (cases ys) auto
next
  case (Cons x xs)
  note IH = this
  show ?case
  proof (cases ys)
    case Nil
    then show ?thesis by simp
  next
    case (Cons y ys')
    let ?P = "\<lambda>xs ys i. (\<forall>j < i. cmp (xs ! j) (ys ! j) = Equal)
      \<and> (i = length xs \<or> i < length xs \<and> cmp (xs ! i) (ys ! i) = Less)"
    have "(\<exists>i < length (y # ys'). ?P (x # xs) (y # ys') i) \<longleftrightarrow>
        cmp x y = Less \<or> (\<exists>i < length ys'. cmp x y = Equal \<and> ?P xs ys' i)"
      by (auto simp: All_less_Suc2 Ex_less_Suc2)
    with Cons IH [of ys'] show ?thesis by (auto simp: ord_simps)
  qed
qed

end

subsection \<open>Stable sorting: \<open>slice::sort_by\<close>\<close>

fun insert_by :: "('a \<Rightarrow> 'a \<Rightarrow> ordering) \<Rightarrow> 'a \<Rightarrow> 'a list \<Rightarrow> 'a list" where
  "insert_by f x [] = [x]"
| "insert_by f x (y # ys) = (if f x y = Greater then y # insert_by f x ys else x # y # ys)"

fun sort_by :: "('a \<Rightarrow> 'a \<Rightarrow> ordering) \<Rightarrow> 'a list \<Rightarrow> 'a list" where
  "sort_by f [] = []"
| "sort_by f (x # xs) = insert_by f x (sort_by f xs)"

lemma mset_insert_by [simp]: "mset (insert_by f x xs) = add_mset x (mset xs)"
  by (induction xs) auto

lemma mset_sort_by [simp]: "mset (sort_by f xs) = mset xs"
  by (induction xs) simp_all

lemma set_insert_by [simp]: "set (insert_by f x xs) = insert x (set xs)"
  by (induction xs) auto

lemma set_sort_by [simp]: "set (sort_by f xs) = set xs"
  by (induction xs) simp_all

lemma length_sort_by [simp]: "length (sort_by f xs) = length xs"
  by (metis mset_sort_by size_mset)

lemma distinct_sort_by [simp]: "distinct (sort_by f xs) = distinct xs"
  by (metis mset_eq_imp_distinct_iff mset_sort_by)

lemma sort_by_eq_Nil [simp]: "sort_by f xs = [] \<longleftrightarrow> xs = []"
  by (metis length_0_conv length_sort_by)

lemma filter_insert_by_neg: "\<not> P x \<Longrightarrow> filter P (insert_by f x xs) = filter P xs"
  by (induction xs) auto

context rust_ord
begin

lemma sorted_insert_by:
  "sorted_wrt (\<lambda>a b. cmp a b \<noteq> Greater) xs \<Longrightarrow>
   sorted_wrt (\<lambda>a b. cmp a b \<noteq> Greater) (insert_by cmp x xs)"
proof (induction xs)
  case Nil
  then show ?case by simp
next
  case (Cons y ys)
  then have IH: "sorted_wrt (\<lambda>a b. cmp a b \<noteq> Greater) (insert_by cmp x ys)" by simp
  show ?case
  proof (cases "cmp x y = Greater")
    case True
    then have "cmp y x \<noteq> Greater" using swap [of y x] by simp
    with True IH Cons.prems show ?thesis by auto
  next
    case False
    with Cons.prems show ?thesis using trans_le [of x y] by auto
  qed
qed

lemma sorted_sort_by: "sorted_wrt (\<lambda>a b. cmp a b \<noteq> Greater) (sort_by cmp xs)"
  by (induction xs) (simp_all add: sorted_insert_by)

lemma insert_by_le: "\<forall>y \<in> set xs. cmp x y \<noteq> Greater \<Longrightarrow> insert_by cmp x xs = x # xs"
  by (cases xs) auto

lemma filter_insert_by_eq:
  "sorted_wrt (\<lambda>a b. cmp a b \<noteq> Greater) xs \<Longrightarrow> cmp k x = Equal \<Longrightarrow>
   filter (\<lambda>y. cmp k y = Equal) (insert_by cmp x xs) = x # filter (\<lambda>y. cmp k y = Equal) xs"
proof (induction xs)
  case Nil
  then show ?case by simp
next
  case (Cons y ys)
  show ?case
  proof (cases "cmp x y = Greater")
    case True
    then have "cmp k y \<noteq> Equal"
      using eq_cong [OF Cons.prems(2), of y] by simp
    with True Cons show ?thesis by simp
  next
    case False
    with Cons.prems show ?thesis by simp
  qed
qed

text \<open>Stability: elements that compare equal keep their relative order.\<close>

lemma sort_by_stable:
  "filter (\<lambda>y. cmp k y = Equal) (sort_by cmp xs) = filter (\<lambda>y. cmp k y = Equal) xs"
proof (induction xs)
  case Nil
  then show ?case by simp
next
  case (Cons x xs)
  then show ?case
    by (cases "cmp k x = Equal")
      (simp_all add: filter_insert_by_eq sorted_sort_by filter_insert_by_neg)
qed

text \<open>Two sorted arrangements of the same elements are equal when no two elements tie.\<close>

lemma sorted_arrangement_unique:
  "sorted_wrt (\<lambda>a b. cmp a b \<noteq> Greater) xs \<Longrightarrow> sorted_wrt (\<lambda>a b. cmp a b \<noteq> Greater) ys \<Longrightarrow>
   mset xs = mset ys \<Longrightarrow> (\<And>x y. x \<in> set xs \<Longrightarrow> y \<in> set xs \<Longrightarrow> cmp x y = Equal \<Longrightarrow> x = y) \<Longrightarrow> xs = ys"
proof (induction xs arbitrary: ys)
  case Nil
  then show ?case by simp
next
  case (Cons x xs)
  from Cons.prems(3) obtain y ys' where ys: "ys = y # ys'" by (cases ys) auto
  have members: "set (x # xs) = set ys" using Cons.prems(3) by (rule mset_eq_setD)
  have "y = x \<or> y \<in> set xs" "x = y \<or> x \<in> set ys'" using members ys by auto
  then have "cmp x y \<noteq> Greater" "cmp y x \<noteq> Greater"
    using Cons.prems(1,2) ys refl by auto
  then have "cmp x y = Equal" using swap [of y x] by (cases "cmp x y") auto
  then have "x = y" using Cons.prems(4) members ys by auto
  with Cons ys show ?case by auto
qed

lemma sort_by_unique:
  assumes "mset xs = mset ys" and "\<And>x y. x \<in> set xs \<Longrightarrow> y \<in> set xs \<Longrightarrow> cmp x y = Equal \<Longrightarrow> x = y"
  shows "sort_by cmp xs = sort_by cmp ys"
  using assms by (intro sorted_arrangement_unique) (simp_all add: sorted_sort_by)

lemma sort_by_last_max:
  assumes "x \<in> set xs"
  shows "cmp x (last (sort_by cmp xs)) \<noteq> Greater"
proof -
  from assms have ne: "sort_by cmp xs \<noteq> []" by auto
  have s: "sorted_wrt (\<lambda>a b. cmp a b \<noteq> Greater) (butlast (sort_by cmp xs) @ [last (sort_by cmp xs)])"
    using sorted_sort_by [of xs] ne by simp
  have "x \<in> set (butlast (sort_by cmp xs) @ [last (sort_by cmp xs)])"
    using assms ne by simp
  with s refl show ?thesis by (auto simp: sorted_wrt_append simp del: append_butlast_last_id)
qed

end

subsection \<open>Operations of \<open>str\<close>\<close>

text \<open>\<open>starts_with\<close>, \<open>ends_with\<close>, \<open>contains\<close>, \<open>strip_prefix\<close>, \<open>strip_suffix\<close> and \<open>find\<close>.\<close>

text \<open>The one non-ASCII character of the program's messages, as its UTF-8 bytes.\<close>

definition em_dash :: string where
  "em_dash = [CHR 0xE2, CHR 0x80, CHR 0x94]"

definition starts_with :: "string \<Rightarrow> string \<Rightarrow> bool" where
  "starts_with s p = prefix p s"

definition ends_with :: "string \<Rightarrow> string \<Rightarrow> bool" where
  "ends_with s p = suffix p s"

definition contains :: "string \<Rightarrow> string \<Rightarrow> bool" where
  "contains s p = sublist p s"

definition strip_prefix :: "string \<Rightarrow> string \<Rightarrow> string option" where
  "strip_prefix s p = (if prefix p s then Some (drop (length p) s) else None)"

definition strip_suffix :: "string \<Rightarrow> string \<Rightarrow> string option" where
  "strip_suffix s p = (if suffix p s then Some (take (length s - length p) s) else None)"

fun find_sub :: "string \<Rightarrow> string \<Rightarrow> nat option" where
  "find_sub [] p = (if p = [] then Some 0 else None)"
| "find_sub (c # cs) p = (if prefix p (c # cs) then Some 0 else map_option Suc (find_sub cs p))"

lemma starts_with_append [simp]: "starts_with (p @ s) p"
  by (simp add: starts_with_def)

lemma starts_with_refl [simp]: "starts_with s s"
  by (simp add: starts_with_def)

lemma starts_with_Nil [simp]: "starts_with s []"
  by (simp add: starts_with_def)

lemma starts_withE: "starts_with s p \<Longrightarrow> (\<And>r. s = p @ r \<Longrightarrow> thesis) \<Longrightarrow> thesis"
  by (auto simp: starts_with_def prefix_def)

lemma starts_with_trans: "starts_with s p \<Longrightarrow> starts_with p q \<Longrightarrow> starts_with s q"
  by (auto simp: starts_with_def)

lemma strip_prefix_Some [simp]: "strip_prefix s p = Some r \<longleftrightarrow> s = p @ r"
  by (auto simp: strip_prefix_def prefix_def)

lemma strip_prefix_append [simp]: "strip_prefix (p @ r) p = Some r"
  by simp

lemma strip_prefix_None: "strip_prefix s p = None \<longleftrightarrow> \<not> starts_with s p"
  by (simp add: strip_prefix_def starts_with_def)

lemma find_sub_Some: "find_sub s p = Some i \<Longrightarrow> \<exists>r. s = take i s @ p @ r \<and> i \<le> length s"
proof (induction s arbitrary: i)
  case Nil
  then show ?case by (auto split: if_splits)
next
  case (Cons c cs)
  show ?case
  proof (cases "prefix p (c # cs)")
    case True
    with Cons.prems show ?thesis by (auto simp: prefix_def)
  next
    case False
    with Cons.prems obtain j where j: "find_sub cs p = Some j" and i: "i = Suc j" by auto
    from Cons.IH [OF j] i show ?thesis by auto
  qed
qed

lemma find_sub_None: "find_sub s p = None \<longleftrightarrow> \<not> contains s p"
  by (induction s) (auto simp: contains_def sublist_Cons_right)

text \<open>The first occurrence: nothing before it matches.\<close>

lemma find_sub_first: "find_sub s p = Some i \<Longrightarrow> j < i \<Longrightarrow> \<not> prefix p (drop j s)"
proof (induction s arbitrary: i j)
  case Nil
  then show ?case by (auto split: if_splits)
next
  case (Cons c cs)
  then obtain i' where i': "find_sub cs p = Some i'" "i = Suc i'" and np: "\<not> prefix p (c # cs)"
    by (auto split: if_splits)
  show ?case
  proof (cases j)
    case 0
    with np show ?thesis by simp
  next
    case (Suc k)
    with Cons.prems(2) i' Cons.IH [OF i'(1), of k] show ?thesis by simp
  qed
qed

text \<open>\<open>str::split(char)\<close>: always at least one piece.\<close>

fun split_char :: "char \<Rightarrow> string \<Rightarrow> string list" where
  "split_char d [] = [[]]"
| "split_char d (c # cs) =
     (if c = d then [] # split_char d cs
      else (case split_char d cs of [] \<Rightarrow> [[c]] | p # ps \<Rightarrow> (c # p) # ps))"

fun join_with :: "string \<Rightarrow> string list \<Rightarrow> string" where
  "join_with d [] = []"
| "join_with d [p] = p"
| "join_with d (p # q # ps) = p @ d @ join_with d (q # ps)"

lemma split_char_ne [simp]: "split_char d s \<noteq> []"
  by (induction s) (auto split: list.splits)

lemma join_split_char: "join_with [d] (split_char d s) = s"
proof (induction s)
  case Nil
  then show ?case by simp
next
  case (Cons c cs)
  obtain p ps where sp: "split_char d cs = p # ps" by (metis list.exhaust split_char_ne)
  with Cons.IH show ?case by (cases ps) auto
qed

lemma split_char_no_delim: "p \<in> set (split_char d s) \<Longrightarrow> d \<notin> set p"
proof (induction s arbitrary: p)
  case Nil
  then show ?case by simp
next
  case (Cons c cs)
  obtain q ps where sp: "split_char d cs = q # ps" by (metis list.exhaust split_char_ne)
  from Cons sp show ?case by (auto split: if_splits)
qed

lemma split_char_single: "d \<notin> set s \<Longrightarrow> split_char d s = [s]"
  by (induction s) auto

lemma split_char_inj: "split_char d s = split_char d t \<Longrightarrow> s = t"
  by (metis join_split_char)

text \<open>\<open>str::lines\<close>: pieces ended by a line feed, with one carriage return before it dropped.\<close>

definition strip_cr :: "string \<Rightarrow> string" where
  "strip_cr l = (case strip_suffix l [CHR 0x0D] of None \<Rightarrow> l | Some r \<Rightarrow> r)"

definition lines_str :: "string \<Rightarrow> string list" where
  "lines_str s =
     (let ps = split_char (CHR 0x0A) s
      in map strip_cr (butlast ps) @ (if last ps = [] then [] else [last ps]))"

subsection \<open>ASCII classes\<close>

abbreviation code_of :: "char \<Rightarrow> nat" where
  "code_of c \<equiv> of_char c"

definition is_ascii_digit :: "char \<Rightarrow> bool" where
  "is_ascii_digit c \<longleftrightarrow> 48 \<le> code_of c \<and> code_of c \<le> 57"

definition is_ascii_alphabetic :: "char \<Rightarrow> bool" where
  "is_ascii_alphabetic c \<longleftrightarrow>
     (65 \<le> code_of c \<and> code_of c \<le> 90) \<or> (97 \<le> code_of c \<and> code_of c \<le> 122)"

definition is_ascii_alphanumeric :: "char \<Rightarrow> bool" where
  "is_ascii_alphanumeric c \<longleftrightarrow> is_ascii_alphabetic c \<or> is_ascii_digit c"

definition is_whitespace :: "char \<Rightarrow> bool" where
  "is_whitespace c \<longleftrightarrow> code_of c = 32 \<or> (9 \<le> code_of c \<and> code_of c \<le> 13)"

definition to_ascii_lower :: "char \<Rightarrow> char" where
  "to_ascii_lower c = (if 65 \<le> code_of c \<and> code_of c \<le> 90 then char_of (code_of c + 32) else c)"

definition to_ascii_lowercase :: "string \<Rightarrow> string" where
  "to_ascii_lowercase s = map to_ascii_lower s"

definition trim :: "string \<Rightarrow> string" where
  "trim s = rev (dropWhile is_whitespace (rev (dropWhile is_whitespace s)))"

text \<open>The classes by the bits of the character, for evaluation.\<close>

lemma ascii_class_Char [simp, code]:
  "is_ascii_digit (Char b0 b1 b2 b3 b4 b5 b6 b7) =
     (b4 \<and> b5 \<and> \<not> b6 \<and> \<not> b7 \<and> (\<not> b3 \<or> (\<not> b1 \<and> \<not> b2)))"
  "is_ascii_alphabetic (Char b0 b1 b2 b3 b4 b5 b6 b7) =
     (b6 \<and> \<not> b7 \<and> (b0 \<or> b1 \<or> b2 \<or> b3 \<or> b4) \<and> \<not> (b4 \<and> b3 \<and> (b2 \<or> (b1 \<and> b0))))"
  "is_whitespace (Char b0 b1 b2 b3 b4 b5 b6 b7) =
     ((b5 \<and> \<not> (b0 \<or> b1 \<or> b2 \<or> b3 \<or> b4 \<or> b6 \<or> b7)) \<or>
      (b3 \<and> \<not> (b4 \<or> b5 \<or> b6 \<or> b7) \<and> (b0 \<or> b1 \<or> b2) \<and> \<not> (b2 \<and> b1)))"
  by (cases b0; cases b1; cases b2; cases b3; cases b4; cases b5; cases b6; cases b7;
      simp add: is_ascii_digit_def is_ascii_alphabetic_def is_whitespace_def)+

subsection \<open>Decimal numbers\<close>

definition digit_val :: "char \<Rightarrow> nat" where
  "digit_val c = code_of c - 48"

definition digits_val :: "string \<Rightarrow> nat" where
  "digits_val ds = foldl (\<lambda>acc c. 10 * acc + digit_val c) 0 ds"

text \<open>
  \<open>str::parse::<u64>\<close>: an optional leading plus sign, at least one digit, and a value that fits
  in 64 bits; anything else is an error.
\<close>

definition parse_u64 :: "string \<Rightarrow> nat option" where
  "parse_u64 s =
     (let ds = (case s of [] \<Rightarrow> [] | c # r \<Rightarrow> if c = CHR ''+'' then r else s)
      in if ds \<noteq> [] \<and> list_all is_ascii_digit ds \<and> digits_val ds < 2 ^ 64
         then Some (digits_val ds) else None)"

fun show_nat :: "nat \<Rightarrow> string" where
  "show_nat n = (if n < 10 then [char_of (48 + n)] else show_nat (n div 10) @ [char_of (48 + n mod 10)])"

declare show_nat.simps [simp del]

lemmas show_nat_eval = show_nat.simps char_of_def bit_0

lemma code_of_digit [simp]: "d < 10 \<Longrightarrow> code_of (char_of (48 + d :: nat)) = 48 + d"
  by simp

lemma digit_of_nat [simp]: "d < 10 \<Longrightarrow> is_ascii_digit (char_of (48 + d :: nat))"
  by (simp add: is_ascii_digit_def)

lemma digits_val_snoc: "digits_val (ds @ [c]) = 10 * digits_val ds + digit_val c"
  by (simp add: digits_val_def)

lemma show_nat_digits: "list_all is_ascii_digit (show_nat n)"
proof (induction n rule: show_nat.induct)
  case (1 n)
  show ?case
    using 1 by (subst show_nat.simps) (simp add: list_all_append)
qed

lemma show_nat_ne [simp]: "show_nat n \<noteq> []"
  by (subst show_nat.simps) simp

lemma digits_val_show_nat [simp]: "digits_val (show_nat n) = n"
proof (induction n rule: show_nat.induct)
  case (1 n)
  show ?case
    using 1 by (subst show_nat.simps) (auto simp: digits_val_snoc digit_val_def digits_val_def)
qed

lemma is_digit_not_plus: "is_ascii_digit c \<Longrightarrow> c \<noteq> CHR ''+''"
  by (auto simp: is_ascii_digit_def)

lemma parse_u64_digits:
  assumes "ds \<noteq> []" and "list_all is_ascii_digit ds"
  shows "parse_u64 ds = (if digits_val ds < 2 ^ 64 then Some (digits_val ds) else None)"
proof (cases ds)
  case Nil
  with assms(1) show ?thesis by simp
next
  case (Cons c r)
  with assms(2) have "c \<noteq> CHR ''+''" by (simp add: is_digit_not_plus)
  with Cons assms show ?thesis by (simp add: parse_u64_def)
qed

lemma parse_u64_show: "n < 2 ^ 64 \<Longrightarrow> parse_u64 (show_nat n) = Some n"
  by (simp add: parse_u64_digits show_nat_digits)

lemma parse_u64_bound: "parse_u64 s = Some n \<Longrightarrow> n < 2 ^ 64"
  by (auto simp: parse_u64_def Let_def split: if_splits list.splits)

text \<open>A text in single quotes, and \<open>text::count_noun\<close>.\<close>

definition quoted :: "string \<Rightarrow> string" where
  "quoted s = [CHR 0x27] @ s @ [CHR 0x27]"

definition count_noun :: "nat \<Rightarrow> string \<Rightarrow> string \<Rightarrow> string" where
  "count_noun n singular plural = show_nat n @ '' '' @ (if n = 1 then singular else plural)"

subsection \<open>\<open>BTreeMap\<close> and vectors used as sets\<close>

text \<open>A \<open>BTreeMap<String, V>\<close> is the list of its entries in ascending key order.\<close>

type_synonym 'v btree_map = "(string \<times> 'v) list"

fun btree_insert :: "string \<Rightarrow> 'v \<Rightarrow> 'v btree_map \<Rightarrow> 'v btree_map" where
  "btree_insert k v [] = [(k, v)]"
| "btree_insert k v ((k', v') # m) =
     (if k < k' then (k, v) # (k', v') # m
      else if k = k' then (k, v) # m
      else (k', v') # btree_insert k v m)"

definition btree_collect :: "(string \<times> 'v) list \<Rightarrow> 'v btree_map" where
  "btree_collect kvs = foldl (\<lambda>m (k, v). btree_insert k v m) [] kvs"

lemma map_of_btree_insert: "map_of (btree_insert k v m) = (map_of m)(k \<mapsto> v)"
  by (induction m) (auto simp: fun_eq_iff)

lemma dom_btree_insert [simp]: "fst ` set (btree_insert k v m) = insert k (fst ` set m)"
  by (induction m) force+

lemma sorted_btree_insert:
  "sorted_wrt (<) (map fst m) \<Longrightarrow> sorted_wrt (<) (map fst (btree_insert k v m))"
proof (induction m)
  case Nil
  then show ?case by simp
next
  case (Cons kv m)
  obtain k' v' where kv: "kv = (k', v')" by (cases kv)
  have "\<forall>x \<in> fst ` set (btree_insert k v m). k' < x" if "\<not> k < k'" "k \<noteq> k'"
    using that Cons.prems kv by auto
  with Cons kv show ?case by (auto simp: image_iff)
qed

text \<open>Entries in ascending key order are determined by the lookups.\<close>

lemma btree_canonical:
  assumes "sorted_wrt (<) (map fst m)" and "sorted_wrt (<) (map fst m')" and "map_of m = map_of m'"
  shows "m = (m' :: 'v btree_map)"
proof -
  have d: "distinct (map fst m)" "distinct (map fst m')"
    using assms(1,2) strict_sorted_iff by blast+
  have "set m = set m'"
    using map_of_eq_Some_iff [OF d(1)] map_of_eq_Some_iff [OF d(2)] assms(3) by auto
  then show ?thesis
    using d assms(1,2) by (intro map_sorted_distinct_set_unique [of fst])
      (auto simp: strict_sorted_iff inj_on_def distinct_map)
qed

text \<open>Append the elements that are not held yet.\<close>

definition union_into :: "'a list \<Rightarrow> 'a list \<Rightarrow> 'a list" where
  "union_into into from = foldl (\<lambda>acc x. if x \<in> set acc then acc else acc @ [x]) into from"

lemma set_union_into [simp]: "set (union_into xs ys) = set xs \<union> set ys"
  unfolding union_into_def by (induction ys arbitrary: xs) auto

lemma distinct_union_into: "distinct xs \<Longrightarrow> distinct (union_into xs ys)"
  unfolding union_into_def by (induction ys arbitrary: xs) auto

lemma union_into_subset: "set ys \<subseteq> set xs \<Longrightarrow> union_into xs ys = xs"
  unfolding union_into_def by (induction ys) auto

lemma prefix_union_into: "prefix xs (union_into xs ys)"
  unfolding union_into_def
proof (induction ys arbitrary: xs)
  case Nil
  then show ?case by simp
next
  case (Cons y ys)
  show ?case using Cons.IH [of xs] Cons.IH [of "xs @ [y]"] by (auto dest: append_prefixD)
qed

subsection \<open>Fixed-width arithmetic\<close>

type_synonym u16 = "16 word"
type_synonym u32 = "32 word"
type_synonym u64 = "64 word"

definition saturating_add :: "'a::len word \<Rightarrow> 'a word \<Rightarrow> 'a word" where
  "saturating_add a b = (if unat a + unat b < 2 ^ LENGTH('a) then a + b else - 1)"

definition saturating_sub :: "'a::len word \<Rightarrow> 'a word \<Rightarrow> 'a word" where
  "saturating_sub a b = (if b \<le> a then a - b else 0)"

definition saturating_mul :: "'a::len word \<Rightarrow> 'a word \<Rightarrow> 'a word" where
  "saturating_mul a b = (if unat a * unat b < 2 ^ LENGTH('a) then a * b else - 1)"

lemma unat_minus_one_eq: "unat (- 1 :: 'a::len word) = 2 ^ LENGTH('a) - 1"
  by (simp add: unsigned_minus_1_eq_mask mask_eq_exp_minus_1)

lemma unat_saturating_add:
  "unat (saturating_add (a :: 'a::len word) b) = min (unat a + unat b) (2 ^ LENGTH('a) - 1)"
  by (auto simp: saturating_add_def unat_word_ariths unat_minus_one_eq)

lemma unat_saturating_mul:
  "unat (saturating_mul (a :: 'a::len word) b) = min (unat a * unat b) (2 ^ LENGTH('a) - 1)"
  by (auto simp: saturating_mul_def unat_word_ariths unat_minus_one_eq)

lemma unat_saturating_sub: "unat (saturating_sub a b) = unat a - unat b"
  by (auto simp: saturating_sub_def unat_sub word_le_nat_alt)

subsection \<open>Latches\<close>

text \<open>
  A latch is a condition on a state that no step undoes. The release gates, the retry budget and
  the fail-fast stop are latches; what a client needs of one is that it survives any sequence of
  steps, in either folding direction.
\<close>

locale latch =
  fixes step :: "'a \<Rightarrow> 's \<Rightarrow> 's" and closed :: "'s \<Rightarrow> bool"
  assumes keeps: "closed s \<Longrightarrow> closed (step x s)"
begin

lemma stays_closed: "closed s \<Longrightarrow> closed (fold step xs s)"
  by (induction xs arbitrary: s) (simp_all add: keeps)

lemma opened_before: "\<not> closed (fold step (xs @ ys) s) \<Longrightarrow> \<not> closed (fold step xs s)"
  using stays_closed by fastforce

end

subsection \<open>Loops with a labelled break\<close>

text \<open>
  A Rust \<open>for\<close> loop whose body may break out of an enclosing label: the body returns whether to
  break and the new state. Nested loops under one label compose, since a break of the inner loop
  is passed on by the outer one.
\<close>

fun for_loop :: "('p \<Rightarrow> 's \<Rightarrow> bool \<times> 's) \<Rightarrow> 'p list \<Rightarrow> 's \<Rightarrow> bool \<times> 's" where
  "for_loop body [] s = (False, s)"
| "for_loop body (p # ps) s =
     (case body p s of (True, s') \<Rightarrow> (True, s') | (False, s') \<Rightarrow> for_loop body ps s')"

lemma for_loop_append:
  "for_loop body (xs @ ys) s =
     (case for_loop body xs s of (True, s') \<Rightarrow> (True, s') | (False, s') \<Rightarrow> for_loop body ys s')"
  by (induction xs arbitrary: s) (auto split: prod.splits bool.splits)

lemma for_loop_nested:
  "for_loop (\<lambda>g. for_loop body (f g)) gs s = for_loop body (concat (map f gs)) s"
  by (induction gs arbitrary: s) (auto simp: for_loop_append split: prod.split bool.split)

lemma for_loop_invariant:
  assumes "I s" and "\<And>p s. p \<in> set ps \<Longrightarrow> I s \<Longrightarrow> I (snd (body p s))"
  shows "I (snd (for_loop body ps s))"
  using assms
proof (induction ps arbitrary: s)
  case (Cons p ps)
  obtain b s' where body: "body p s = (b, s')" by (cases "body p s")
  have "I s'" using Cons.prems(2) [of p s] Cons.prems(1) body by simp
  with Cons.IH [of s'] Cons.prems(2) body show ?case by (cases b) auto
qed simp

text \<open>An invariant that also speaks of the elements still to come.\<close>

lemma for_loop_rest_invariant:
  assumes "I ps s"
    and "\<And>p ps s. I (p # ps) s \<Longrightarrow> (if fst (body p s) then Q (snd (body p s)) else I ps (snd (body p s)))"
    and "\<And>s. I [] s \<Longrightarrow> Q s"
  shows "Q (snd (for_loop body ps s))"
  using assms(1)
proof (induction ps arbitrary: s)
  case Nil
  with assms(3) show ?case by simp
next
  case (Cons p ps)
  obtain b s' where body: "body p s = (b, s')" by (cases "body p s")
  with assms(2) [OF Cons.prems] Cons.IH [of s'] show ?case by (cases b) auto
qed

subsection \<open>Guarded histories\<close>

text \<open>A history is guarded when every event was allowed by what came before it.\<close>

definition guarded :: "('e list \<Rightarrow> 'e \<Rightarrow> bool) \<Rightarrow> 'e list \<Rightarrow> bool" where
  "guarded allowed history \<longleftrightarrow> (\<forall>pre e post. history = pre @ e # post \<longrightarrow> allowed pre e)"

lemma guarded_Nil [simp]: "guarded allowed []"
  by (simp add: guarded_def)

lemma guarded_snoc [simp]: "guarded allowed (h @ [e]) \<longleftrightarrow> guarded allowed h \<and> allowed h e"
proof
  assume g: "guarded allowed (h @ [e])"
  have "allowed pre x" if "h = pre @ x # post" for pre x post
  proof -
    have "h @ [e] = pre @ x # (post @ [e])" by (simp add: that)
    with g show ?thesis unfolding guarded_def by blast
  qed
  moreover have "h @ [e] = h @ e # []" by simp
  ultimately show "guarded allowed h \<and> allowed h e" using g unfolding guarded_def by blast
next
  assume g: "guarded allowed h \<and> allowed h e"
  show "guarded allowed (h @ [e])"
    unfolding guarded_def
  proof (intro allI impI)
    fix pre x post
    assume eq: "h @ [e] = pre @ x # post"
    show "allowed pre x"
      using eq g by (cases post rule: rev_cases) (auto simp: guarded_def)
  qed
qed

lemma guarded_snoc2 [simp]: "guarded allowed (h @ [e, e']) \<longleftrightarrow> guarded allowed (h @ [e]) \<and> allowed (h @ [e]) e'"
  using guarded_snoc [of allowed "h @ [e]" e'] by simp

lemma guarded_snoc3 [simp]:
  "guarded allowed (h @ [e, e', e'']) \<longleftrightarrow> guarded allowed (h @ [e, e']) \<and> allowed (h @ [e, e']) e''"
  using guarded_snoc [of allowed "h @ [e, e']" e''] by simp

lemma guarded_snoc4 [simp]:
  "guarded allowed (h @ [e, e', e'', x]) \<longleftrightarrow> guarded allowed (h @ [e, e', e'']) \<and> allowed (h @ [e, e', e'']) x"
  using guarded_snoc [of allowed "h @ [e, e', e'']" x] by simp

text \<open>Events that no guard looks at may be interleaved.\<close>

lemma guarded_filter:
  assumes "guarded allowed (filter keep h)"
    and "\<And>pre e. keep e \<Longrightarrow> allowed (filter keep pre) e \<Longrightarrow> allowed pre e"
    and "\<And>pre e. \<not> keep e \<Longrightarrow> allowed pre e"
  shows "guarded allowed h"
  unfolding guarded_def
proof (intro allI impI)
  fix pre e post
  assume h: "h = pre @ e # post"
  show "allowed pre e"
  proof (cases "keep e")
    case True
    with h have "filter keep h = filter keep pre @ e # filter keep post" by simp
    with assms(1) have "allowed (filter keep pre) e" unfolding guarded_def by blast
    with True show ?thesis by (rule assms(2))
  qed (rule assms(3))
qed

end
