(* ===== verification/Evidence.thy ===== *)
theory Evidence
  imports Prelude
begin

section \<open>Publish evidence (\<open>crates/core/src/publish_evidence.rs\<close>)\<close>

text \<open>
  What a publisher recorded about the work it committed: one record per kind of target, the
  \<open>PublishEvidenceExtra\<close> enum over them (a variant carries the list its Rust struct wraps), the
  \<open>PublishEvidence\<close> struct, and the two operations a rollback depends on:
  \<open>records_published_work\<close> and \<open>absorb_prior\<close>. Fields carry a two-letter prefix of their
  record, since several records use the same field names. JSON (de)serialization is serde's and is
  not modelled, except the spelling of a token source, which the file computes itself.

  The abstract specification is the set of work items a record names (\<open>work_items\<close>):
  \<open>absorb_prior\<close> is refined to set union, and it never drops an item of either side.
\<close>

subsection \<open>Token sources and their wire spelling\<close>

datatype token_source = PullRequestField | RepositoryField | EnvVar string | RunToken

definition token_source_spellings :: "(string \<times> token_source) list" where
  "token_source_spellings =
     [(''pull_request.token'', PullRequestField), (''repository.token'', RepositoryField),
      (''--token'', RunToken)]"

definition token_source_from_wire :: "string \<Rightarrow> token_source" where
  "token_source_from_wire name =
     (case find (\<lambda>(spelling, _). spelling = name) token_source_spellings of
        None \<Rightarrow> EnvVar name | Some (_, source) \<Rightarrow> source)"

definition token_source_to_wire :: "token_source \<Rightarrow> string" where
  "token_source_to_wire source =
     (case source of
        EnvVar name \<Rightarrow> name
      | other \<Rightarrow> (case find (\<lambda>(_, source). source = other) token_source_spellings of
                    None \<Rightarrow> [] | Some (spelling, _) \<Rightarrow> spelling))"

definition token_source_display :: "token_source \<Rightarrow> string" where
  "token_source_display s =
     (case s of
        PullRequestField \<Rightarrow> ''`repository.pull_request.token`''
      | RepositoryField \<Rightarrow> ''`repository.token`''
      | EnvVar name \<Rightarrow> ''$'' @ name
      | RunToken \<Rightarrow> ''the run's GitHub token'')"

subsection \<open>Targets\<close>

datatype mcp_auth_method = AuthNone | AuthGithub | AuthGithubOidc

record homebrew_target =
  hb_target :: string
  hb_repo_url :: string
  hb_branch :: "string option"
  hb_token_env_var :: "string option"
  hb_commit :: "string option"
  hb_pr_url :: "string option"

record scoop_target =
  sc_target :: string
  sc_repo_url :: string
  sc_branch :: "string option"
  sc_token_env_var :: "string option"
  sc_commit :: "string option"
  sc_pr_url :: "string option"

record nix_target =
  nx_target :: string
  nx_repo_url :: string
  nx_branch :: "string option"
  nx_token_env_var :: "string option"
  nx_commit :: "string option"
  nx_pr_url :: "string option"

record winget_target =
  wg_target :: string
  wg_crate_name :: string
  wg_package_id :: string
  wg_version :: string
  wg_upstream_owner :: string
  wg_upstream_repo :: string
  wg_fork_owner :: string
  wg_branch :: string
  wg_pr_url :: "string option"

record chocolatey_target =
  ch_target :: string
  ch_crate_name :: string
  ch_package_id :: string
  ch_version :: string

record krew_target =
  kr_target :: string
  kr_upstream_owner :: string
  kr_upstream_repo :: string
  kr_fork_owner :: string
  kr_branch :: string
  kr_token_env_var :: "string option"
  kr_pr_url :: "string option"

record aur_target =
  au_target :: string
  au_git_url :: string
  au_commit :: "string option"

record aur_source_target =
  as_target :: string
  as_package :: string
  as_tag :: string
  as_git_url :: string

record mcp_target =
  mc_target :: string
  mc_server_name :: string
  mc_registry_url :: string
  mc_version :: string
  mc_auth_method :: mcp_auth_method

record dockerhub_target =
  dh_target :: string
  dh_repo_url :: string
  dh_namespace :: string
  dh_name :: string
  dh_username :: string
  dh_secret_env_var :: string
  dh_snapshot_description :: "string option"
  dh_snapshot_full_description :: "string option"

record cargo_yank_target =
  cy_name :: string
  cy_version :: string
  cy_registry :: "string option"
  cy_index :: "string option"

record artifactory_target =
  af_entry :: string
  af_url :: string

record cloudsmith_target =
  cs_org :: string
  cs_repo :: string
  cs_filename :: string
  cs_slug :: "string option"

record blob_target =
  bl_provider :: string
  bl_bucket :: string
  bl_key :: string
  bl_region :: "string option"
  bl_endpoint :: "string option"
  bl_overwrote :: bool

record snapcraft_target =
  sn_crate_name :: string
  sn_package_name :: string
  sn_channel :: "string option"
  sn_arch :: "string option"
  sn_revision :: "string option"
  sn_version :: "string option"
  sn_held_for_review :: bool

record github_release_target =
  gr_crate_name :: string
  gr_owner :: string
  gr_repo :: string
  gr_tag :: string
  gr_release_id :: "u64 option"

record npm_target =
  np_target :: string
  np_package :: string
  np_version :: string
  np_registry :: string
  np_dist_tag :: string
  np_token_env_var :: string

record gemfury_target =
  gf_target :: string
  gf_account :: string
  gf_package :: string
  gf_version :: string
  gf_format :: string
  gf_push_token_env_var :: string
  gf_api_token_env_var :: string

record pypi_file =
  pf_filename :: string
  pf_platform_tag :: string
  pf_sha256 :: string
  pf_repository :: string
  pf_skipped_existing :: bool

record schemastore_target =
  ss_upstream_owner :: string
  ss_upstream_repo :: string
  ss_fork_owner :: string
  ss_branch :: string
  ss_token_env_var :: "string option"
  ss_pr_url :: "string option"

record homebrew_core_target =
  hc_formula :: string
  hc_version :: string
  hc_upstream_owner :: string
  hc_upstream_repo :: string
  hc_head_owner :: string
  hc_branch :: string
  hc_direct_commit :: bool
  hc_pr_url :: "string option"
  hc_token_source :: "token_source option"

subsection \<open>The evidence record\<close>

datatype publish_evidence_extra =
    Homebrew "homebrew_target list"
  | Scoop "scoop_target list"
  | Nix "nix_target list"
  | Winget "winget_target list"
  | Chocolatey "chocolatey_target list"
  | Krew "krew_target list"
  | Aur "aur_target list"
  | AurSource "aur_source_target list"
  | Mcp "mcp_target list"
  | Dockerhub "dockerhub_target list"
  | Cargo "cargo_yank_target list"
  | Artifactory "artifactory_target list"
  | Cloudsmith "cloudsmith_target list"
  | Blob "blob_target list"
  | Snapcraft "snapcraft_target list"
  | GithubRelease "github_release_target list"
  | Npm "npm_target list"
  | GemFury "gemfury_target list"
  | Pypi "pypi_file list"
  | Schemastore "schemastore_target list"
  | HomebrewCore "homebrew_core_target list"
  | Empty

record publish_evidence =
  schema_version :: u32
  ev_publisher :: string
  primary_ref :: "string option"
  artifact_paths :: "string list"
  artifact_digests :: "string btree_map"
  nondeterministic :: "string option"
  extra :: publish_evidence_extra

definition current_schema_version :: u32 where
  "current_schema_version = 2"

definition new_evidence :: "string \<Rightarrow> publish_evidence" where
  "new_evidence publisher =
     \<lparr>schema_version = current_schema_version, ev_publisher = publisher, primary_ref = None,
      artifact_paths = [], artifact_digests = [], nondeterministic = None, extra = Empty\<rparr>"

fun extra_records_work :: "publish_evidence \<Rightarrow> publish_evidence_extra \<Rightarrow> bool" where
  "extra_records_work e Empty = (primary_ref e \<noteq> None \<or> artifact_paths e \<noteq> [])"
| "extra_records_work e (Homebrew x) = (x \<noteq> [])"
| "extra_records_work e (Scoop x) = (x \<noteq> [])"
| "extra_records_work e (Nix x) = (x \<noteq> [])"
| "extra_records_work e (Winget x) = (x \<noteq> [])"
| "extra_records_work e (Chocolatey x) = (x \<noteq> [])"
| "extra_records_work e (Krew x) = (x \<noteq> [])"
| "extra_records_work e (Aur x) = (x \<noteq> [])"
| "extra_records_work e (AurSource x) = (x \<noteq> [])"
| "extra_records_work e (Mcp x) = (x \<noteq> [])"
| "extra_records_work e (Dockerhub x) = (x \<noteq> [])"
| "extra_records_work e (Cargo x) = (x \<noteq> [])"
| "extra_records_work e (Artifactory x) = (x \<noteq> [])"
| "extra_records_work e (Cloudsmith x) = (x \<noteq> [])"
| "extra_records_work e (Blob x) = (x \<noteq> [])"
| "extra_records_work e (Snapcraft x) = (\<exists>t \<in> set x. sn_revision t \<noteq> None)"
| "extra_records_work e (GithubRelease x) = (x \<noteq> [])"
| "extra_records_work e (Npm x) = (x \<noteq> [])"
| "extra_records_work e (GemFury x) = (x \<noteq> [])"
| "extra_records_work e (Pypi x) = (\<exists>f \<in> set x. \<not> pf_skipped_existing f)"
| "extra_records_work e (Schemastore x) = (x \<noteq> [])"
| "extra_records_work e (HomebrewCore x) = (x \<noteq> [])"

definition records_published_work :: "publish_evidence \<Rightarrow> bool" where
  "records_published_work e = extra_records_work e (extra e)"

subsection \<open>Joining the record of an earlier run\<close>

definition same_object :: "blob_target \<Rightarrow> blob_target \<Rightarrow> bool" where
  "same_object t earlier \<longleftrightarrow>
     bl_provider t = bl_provider earlier \<and> bl_bucket t = bl_bucket earlier
     \<and> bl_key t = bl_key earlier \<and> bl_region t = bl_region earlier
     \<and> bl_endpoint t = bl_endpoint earlier"

fun absorb_blob_one :: "blob_target list \<Rightarrow> blob_target \<Rightarrow> blob_target list" where
  "absorb_blob_one [] earlier = [earlier]"
| "absorb_blob_one (t # ts) earlier =
     (if same_object t earlier then t\<lparr>bl_overwrote := bl_overwrote earlier\<rparr> # ts
      else t # absorb_blob_one ts earlier)"

definition absorb_blob :: "blob_target list \<Rightarrow> blob_target list \<Rightarrow> blob_target list" where
  "absorb_blob mine theirs = foldl absorb_blob_one mine theirs"

text \<open>The \<open>match\<close> over the two typed lists; \<open>None\<close> is its \<open>_ => return false\<close> arm.\<close>

fun absorb_extra ::
  "publish_evidence_extra \<Rightarrow> publish_evidence_extra \<Rightarrow> publish_evidence_extra option" where
  "absorb_extra (Blob m) e = (case e of Blob t \<Rightarrow> Some (Blob (absorb_blob m t)) | _ \<Rightarrow> None)"
| "absorb_extra (Homebrew m) e = (case e of Homebrew t \<Rightarrow> Some (Homebrew (union_into m t)) | _ \<Rightarrow> None)"
| "absorb_extra (Scoop m) e = (case e of Scoop t \<Rightarrow> Some (Scoop (union_into m t)) | _ \<Rightarrow> None)"
| "absorb_extra (Nix m) e = (case e of Nix t \<Rightarrow> Some (Nix (union_into m t)) | _ \<Rightarrow> None)"
| "absorb_extra (Winget m) e = (case e of Winget t \<Rightarrow> Some (Winget (union_into m t)) | _ \<Rightarrow> None)"
| "absorb_extra (Chocolatey m) e = (case e of Chocolatey t \<Rightarrow> Some (Chocolatey (union_into m t)) | _ \<Rightarrow> None)"
| "absorb_extra (Krew m) e = (case e of Krew t \<Rightarrow> Some (Krew (union_into m t)) | _ \<Rightarrow> None)"
| "absorb_extra (Aur m) e = (case e of Aur t \<Rightarrow> Some (Aur (union_into m t)) | _ \<Rightarrow> None)"
| "absorb_extra (AurSource m) e = (case e of AurSource t \<Rightarrow> Some (AurSource (union_into m t)) | _ \<Rightarrow> None)"
| "absorb_extra (Mcp m) e = (case e of Mcp t \<Rightarrow> Some (Mcp (union_into m t)) | _ \<Rightarrow> None)"
| "absorb_extra (Dockerhub m) e = (case e of Dockerhub t \<Rightarrow> Some (Dockerhub (union_into m t)) | _ \<Rightarrow> None)"
| "absorb_extra (Cargo m) e = (case e of Cargo t \<Rightarrow> Some (Cargo (union_into m t)) | _ \<Rightarrow> None)"
| "absorb_extra (Artifactory m) e = (case e of Artifactory t \<Rightarrow> Some (Artifactory (union_into m t)) | _ \<Rightarrow> None)"
| "absorb_extra (Cloudsmith m) e = (case e of Cloudsmith t \<Rightarrow> Some (Cloudsmith (union_into m t)) | _ \<Rightarrow> None)"
| "absorb_extra (Snapcraft m) e = (case e of Snapcraft t \<Rightarrow> Some (Snapcraft (union_into m t)) | _ \<Rightarrow> None)"
| "absorb_extra (GithubRelease m) e = (case e of GithubRelease t \<Rightarrow> Some (GithubRelease (union_into m t)) | _ \<Rightarrow> None)"
| "absorb_extra (Npm m) e = (case e of Npm t \<Rightarrow> Some (Npm (union_into m t)) | _ \<Rightarrow> None)"
| "absorb_extra (GemFury m) e = (case e of GemFury t \<Rightarrow> Some (GemFury (union_into m t)) | _ \<Rightarrow> None)"
| "absorb_extra (Pypi m) e = (case e of Pypi t \<Rightarrow> Some (Pypi (union_into m t)) | _ \<Rightarrow> None)"
| "absorb_extra (Schemastore m) e = (case e of Schemastore t \<Rightarrow> Some (Schemastore (union_into m t)) | _ \<Rightarrow> None)"
| "absorb_extra (HomebrewCore m) e = (case e of HomebrewCore t \<Rightarrow> Some (HomebrewCore (union_into m t)) | _ \<Rightarrow> None)"
| "absorb_extra Empty e = None"

definition absorb_prior :: "publish_evidence \<Rightarrow> publish_evidence \<Rightarrow> publish_evidence \<times> bool" where
  "absorb_prior self prior =
     (if self = prior then (self, True)
      else (case absorb_extra (extra self) (extra prior) of
              None \<Rightarrow> (self, False)
            | Some x \<Rightarrow>
                (self\<lparr>extra := x,
                      artifact_paths := union_into (artifact_paths self) (artifact_paths prior),
                      primary_ref := (case primary_ref self of None \<Rightarrow> primary_ref prior
                                      | Some r \<Rightarrow> Some r)\<rparr>, True)))"

subsection \<open>The work a record names\<close>

text \<open>
  Each item is the one-element evidence of its kind. A blob item is the object it names, so the
  flag that says whether the object existed before is not part of it.
\<close>

definition blob_object :: "blob_target \<Rightarrow> blob_target" where
  "blob_object t = t\<lparr>bl_overwrote := False\<rparr>"

fun items_list :: "publish_evidence_extra \<Rightarrow> publish_evidence_extra list" where
  "items_list Empty = []"
| "items_list (Blob x) = map (\<lambda>t. Blob [blob_object t]) x"
| "items_list (Homebrew x) = map (\<lambda>t. Homebrew [t]) x"
| "items_list (Scoop x) = map (\<lambda>t. Scoop [t]) x"
| "items_list (Nix x) = map (\<lambda>t. Nix [t]) x"
| "items_list (Winget x) = map (\<lambda>t. Winget [t]) x"
| "items_list (Chocolatey x) = map (\<lambda>t. Chocolatey [t]) x"
| "items_list (Krew x) = map (\<lambda>t. Krew [t]) x"
| "items_list (Aur x) = map (\<lambda>t. Aur [t]) x"
| "items_list (AurSource x) = map (\<lambda>t. AurSource [t]) x"
| "items_list (Mcp x) = map (\<lambda>t. Mcp [t]) x"
| "items_list (Dockerhub x) = map (\<lambda>t. Dockerhub [t]) x"
| "items_list (Cargo x) = map (\<lambda>t. Cargo [t]) x"
| "items_list (Artifactory x) = map (\<lambda>t. Artifactory [t]) x"
| "items_list (Cloudsmith x) = map (\<lambda>t. Cloudsmith [t]) x"
| "items_list (Snapcraft x) = map (\<lambda>t. Snapcraft [t]) x"
| "items_list (GithubRelease x) = map (\<lambda>t. GithubRelease [t]) x"
| "items_list (Npm x) = map (\<lambda>t. Npm [t]) x"
| "items_list (GemFury x) = map (\<lambda>t. GemFury [t]) x"
| "items_list (Pypi x) = map (\<lambda>t. Pypi [t]) x"
| "items_list (Schemastore x) = map (\<lambda>t. Schemastore [t]) x"
| "items_list (HomebrewCore x) = map (\<lambda>t. HomebrewCore [t]) x"

definition work_items :: "publish_evidence_extra \<Rightarrow> publish_evidence_extra set" where
  "work_items x = set (items_list x)"

lemma same_object_iff: "same_object t e \<longleftrightarrow> blob_object t = blob_object e"
  by (cases t; cases e) (auto simp: same_object_def blob_object_def)

lemma blob_object_flag [simp]: "blob_object (t\<lparr>bl_overwrote := b\<rparr>) = blob_object t"
  by (simp add: blob_object_def)

lemma objects_absorb_blob_one:
  "map blob_object (absorb_blob_one ts e) =
     map blob_object ts @ (if blob_object e \<in> blob_object ` set ts then [] else [blob_object e])"
  by (induction ts) (auto simp: same_object_iff)

lemma objects_absorb_blob:
  "map blob_object (absorb_blob mine theirs) = union_into (map blob_object mine) (map blob_object theirs)"
proof (induction theirs arbitrary: mine)
  case Nil
  then show ?case by (simp add: absorb_blob_def union_into_def)
next
  case (Cons e es)
  have "map blob_object (absorb_blob mine (e # es)) = map blob_object (absorb_blob (absorb_blob_one mine e) es)"
    by (simp add: absorb_blob_def)
  also have "\<dots> = union_into (map blob_object (absorb_blob_one mine e)) (map blob_object es)"
    by (rule Cons.IH)
  also have "\<dots> = union_into (map blob_object mine) (map blob_object (e # es))"
    by (simp add: objects_absorb_blob_one union_into_def)
  finally show ?case .
qed

lemma map_union_into:
  assumes "inj f"
  shows "map f (union_into xs ys) = union_into (map f xs) (map f ys)"
  unfolding union_into_def
  by (induction ys arbitrary: xs) (auto simp: inj_image_mem_iff [OF assms])

lemma items_list_Blob: "items_list (Blob x) = map (\<lambda>o1. Blob [o1]) (map blob_object x)"
  by simp

text \<open>Joining two records is the order-preserving union of their items.\<close>

lemma items_absorb_extra:
  assumes "absorb_extra m e = Some x"
  shows "items_list x = union_into (items_list m) (items_list e)"
proof (cases "\<exists>b. m = Blob b")
  case True
  then obtain b where m: "m = Blob b" by blast
  with assms obtain t where e: "e = Blob t" and x: "x = Blob (absorb_blob b t)"
    by (cases e) simp_all
  have inj: "inj (\<lambda>o1 :: blob_target. Blob [o1])" by (simp add: inj_def)
  show ?thesis unfolding m e x items_list_Blob objects_absorb_blob by (rule map_union_into [OF inj])
next
  case False
  with assms show ?thesis
    by (cases m; cases e) (auto simp: map_union_into inj_def)
qed

lemma absorb_extra_records:
  assumes "absorb_extra m e = Some x" and "extra_records_work a m \<or> extra_records_work b e"
  shows "extra_records_work c x"
proof (cases "\<exists>b. m = Blob b")
  case True
  then obtain bs where m: "m = Blob bs" by blast
  with assms(1) obtain t where e: "e = Blob t" and x: "x = Blob (absorb_blob bs t)"
    by (cases e) simp_all
  have "set (map blob_object (absorb_blob bs t)) = blob_object ` set bs \<union> blob_object ` set t"
    by (simp add: objects_absorb_blob)
  with assms(2) m e x show ?thesis by (auto simp del: set_map)
next
  case False
  have ne: "union_into xs ys \<noteq> [] \<longleftrightarrow> xs \<noteq> [] \<or> ys \<noteq> []" for xs ys :: "'z list"
    by (metis Un_empty set_empty set_union_into)
  from False assms show ?thesis
    by (cases m; cases e) (auto simp: ne, blast+)
qed

lemma absorb_prior_items:
  assumes "absorb_prior self prior = (self', True)"
  shows "items_list (extra self') = union_into (items_list (extra self)) (items_list (extra prior))"
  using assms
  by (auto simp: absorb_prior_def items_absorb_extra union_into_subset split: if_splits option.splits)

lemma absorb_prior_records:
  assumes "absorb_prior self prior = (self', True)"
    and "records_published_work self \<or> records_published_work prior"
  shows "records_published_work self'"
  using assms
  by (auto simp: absorb_prior_def records_published_work_def split: if_splits option.splits
      intro: absorb_extra_records)

lemma absorb_prior_fails:
  assumes "absorb_prior self prior = (self', False)"
  shows "self' = self" "self \<noteq> prior" "absorb_extra (extra self) (extra prior) = None"
  using assms by (auto simp: absorb_prior_def split: if_splits option.splits)

text \<open>Records of one kind stay of that kind: what could join before can join after.\<close>

lemma absorb_extra_kind:
  assumes "absorb_extra m e = Some x"
  shows "absorb_extra x f = None \<longleftrightarrow> absorb_extra m f = None"
  using assms by (cases m) (auto split: publish_evidence_extra.splits)

lemma absorb_extra_trans:
  assumes "absorb_extra m e \<noteq> None" and "absorb_extra e f \<noteq> None"
  shows "absorb_extra m f \<noteq> None"
  using assms by (cases m) (auto split: publish_evidence_extra.splits)

lemma absorb_prior_kind:
  assumes "absorb_prior self prior = (self', True)" and "absorb_extra (extra self) f \<noteq> None"
  shows "absorb_extra (extra self') f \<noteq> None"
  using assms absorb_extra_kind [of "extra self" "extra prior" _ f]
  by (force simp: absorb_prior_def split: if_splits option.splits)

lemma absorb_prior_kind_of_prior:
  assumes "absorb_prior self prior = (self', True)" and "absorb_extra (extra prior) f \<noteq> None"
  shows "absorb_extra (extra self') f \<noteq> None"
proof (cases "self = prior")
  case True
  with assms show ?thesis by (simp add: absorb_prior_def)
next
  case False
  with assms(1) have "absorb_extra (extra self) (extra prior) \<noteq> None"
    by (auto simp: absorb_prior_def split: option.splits)
  from absorb_extra_trans [OF this assms(2)] show ?thesis by (rule absorb_prior_kind [OF assms(1)])
qed

text \<open>
  C38. \<open>absorb_prior\<close> refines set union: when it reports success, the items named afterwards are
  exactly those either record named, each once if each was named once before, this record's own
  items keep their places at the front, and the joined record still counts as published work if
  either did. When it reports failure, this record is unchanged.
\<close>
theorem absorb_prior_union:
  assumes "absorb_prior self prior = (self', joined)"
  shows "(joined \<longrightarrow>
            work_items (extra self') = work_items (extra self) \<union> work_items (extra prior)
          \<and> (distinct (items_list (extra self)) \<longrightarrow> distinct (items_list (extra self')))
          \<and> prefix (items_list (extra self)) (items_list (extra self'))
          \<and> (records_published_work self \<or> records_published_work prior \<longrightarrow> records_published_work self'))
       \<and> (\<not> joined \<longrightarrow> self' = self)"
proof (cases joined)
  case True
  with assms have joined: "absorb_prior self prior = (self', True)" by simp
  show ?thesis
    using True absorb_prior_items [OF joined] absorb_prior_records [OF joined]
    by (simp add: work_items_def distinct_union_into prefix_union_into)
next
  case False
  with assms show ?thesis by (auto dest: absorb_prior_fails)
qed

theorem absorb_prior_union_witness:
  "let a = (new_evidence ''blob'')\<lparr>extra := Blob [\<lparr>bl_provider = ''s3'', bl_bucket = ''b'', bl_key = ''k2'',
              bl_region = None, bl_endpoint = None, bl_overwrote = False\<rparr>]\<rparr>;
       b = (new_evidence ''blob'')\<lparr>extra := Blob [\<lparr>bl_provider = ''s3'', bl_bucket = ''b'', bl_key = ''k1'',
              bl_region = None, bl_endpoint = None, bl_overwrote = True\<rparr>]\<rparr>
   in work_items (extra (fst (absorb_prior a b))) = work_items (extra a) \<union> work_items (extra b)"
proof -
  let ?ev = "\<lambda>k ow. (new_evidence ''blob'')\<lparr>extra := Blob [\<lparr>bl_provider = ''s3'', bl_bucket = ''b'',
      bl_key = k, bl_region = None, bl_endpoint = None, bl_overwrote = ow\<rparr>]\<rparr>"
  have "absorb_prior (?ev ''k2'' False) (?ev ''k1'' True)
      = (fst (absorb_prior (?ev ''k2'' False) (?ev ''k1'' True)), True)"
    by (simp add: absorb_prior_def new_evidence_def absorb_blob_def same_object_def)
  from absorb_prior_union [OF this] show ?thesis unfolding Let_def by blast
qed

text \<open>
  A token source written to the wire and read back is itself, except an environment variable
  named like one of the three reserved spellings; and reading never yields such a variable, so
  writing what was read is the identity on the wire.
\<close>
theorem token_source_roundtrip:
  "(source \<notin> EnvVar ` fst ` set token_source_spellings \<longrightarrow>
      token_source_from_wire (token_source_to_wire source) = source)
   \<and> token_source_to_wire (token_source_from_wire name) = name"
  by (cases source)
    (auto simp: token_source_from_wire_def token_source_to_wire_def token_source_spellings_def)

theorem token_source_roundtrip_witness:
  "token_source_from_wire (token_source_to_wire (EnvVar ''COMMITTER_TOKEN'')) = EnvVar ''COMMITTER_TOKEN''"
  using token_source_roundtrip [of "EnvVar ''COMMITTER_TOKEN''" "''x''"]
  by (auto simp: token_source_spellings_def)

end
