(* ===== verification/PublishReport.thy ===== *)
theory PublishReport
  imports Evidence
begin

section \<open>The publish report and its gates\<close>

text \<open>
  Models the data and the predicates of \<open>crates/core/src/publish_report.rs\<close>: the three
  dispatch groups, the per-publisher outcome and skip reason, a report row and the report, the
  predicates every gate asks (\<open>any_failed\<close>, \<open>submitter_gate_closed\<close>,
  \<open>one_way_door_gate_closed\<close>), the name lists behind the required-failure exit gate, and
  the kebab-case status strings of \<open>stage-publish/src/run_summary.rs\<close>.

  The lemmas show that the one-way-door gate is a latch (it never reopens while rows are
  appended, whatever they are), that the exit gate refuses exactly the reports the documented
  rule names, and that a status string determines the outcome up to its carried message.
  Non-ASCII punctuation of the messages is spelled by its UTF-8 bytes (\<open>em_dash\<close>).
\<close>

subsection \<open>Groups, outcomes, rows\<close>

datatype publisher_group = Assets | Manager | Submitter

datatype skip_reason =
    SubmitterGated | NotConfigured | Snapshot | DryRun | Nightly | NotApplicable
  | AlreadyPublished | Deselected | VerifyGateBlocked | ConfigSkipped | EntriesSkipped

datatype publisher_outcome =
    Succeeded
  | Skipped skip_reason
  | Failed string
  | RolledBack
  | RollbackFailed string
  | RollbackSkippedNoScope
  | PendingModeration
  | PendingValidation
  | PublishedNoRollback

fun is_required_release_failure :: "publisher_outcome \<Rightarrow> bool" where
  "is_required_release_failure (Failed _) = True"
| "is_required_release_failure (RollbackFailed _) = True"
| "is_required_release_failure Succeeded = False"
| "is_required_release_failure (Skipped _) = False"
| "is_required_release_failure RolledBack = False"
| "is_required_release_failure RollbackSkippedNoScope = False"
| "is_required_release_failure PendingModeration = False"
| "is_required_release_failure PendingValidation = False"
| "is_required_release_failure PublishedNoRollback = False"

record publisher_result =
  res_name :: string
  res_group :: publisher_group
  res_required :: bool
  res_outcome :: publisher_outcome
  res_evidence :: "publish_evidence option"
  res_entry_skips :: "string list"

record publish_report =
  results :: "publisher_result list"
  submitter_gated :: bool
  announce_gated :: bool
  verify_gate_blocked :: bool
  verify_gate_evaluated :: bool
  carried_forward :: "publisher_result list"

text \<open>\<open>PublishReport::default()\<close>, derived: every field empty or false.\<close>

definition default_report :: publish_report where
  "default_report = \<lparr>results = [], submitter_gated = False, announce_gated = False,
     verify_gate_blocked = False, verify_gate_evaluated = False, carried_forward = []\<rparr>"

subsection \<open>The predicates of a report\<close>

definition required_failure_names :: "publish_report \<Rightarrow> string list" where
  "required_failure_names report =
     map res_name (filter (\<lambda>r. res_required r \<and> is_required_release_failure (res_outcome r)) (results report))"

definition required_failures :: "publish_report \<Rightarrow> nat" where
  "required_failures report = length (required_failure_names report)"

definition required_gate_blocked_names :: "publish_report \<Rightarrow> string list" where
  "required_gate_blocked_names report =
     map res_name (filter (\<lambda>r. res_required r \<and> res_outcome r = Skipped VerifyGateBlocked) (results report))"

fun is_failed :: "publisher_outcome \<Rightarrow> bool" where
  "is_failed (Failed _) = True"
| "is_failed _ = False"

definition any_failed :: "publish_report \<Rightarrow> publisher_group \<Rightarrow> bool \<Rightarrow> bool" where
  "any_failed report grp required_only =
     list_ex (\<lambda>r. res_group r = grp \<and> (\<not> required_only \<or> res_required r) \<and> is_failed (res_outcome r))
       (results report)"

definition submitter_gate_closed :: "publish_report \<Rightarrow> bool" where
  "submitter_gate_closed report \<longleftrightarrow>
     any_failed report Assets True \<or> any_failed report Manager True \<or> any_failed report Submitter True"

definition one_way_door_gate_closed :: "publish_report \<Rightarrow> bool" where
  "one_way_door_gate_closed report \<longleftrightarrow> submitter_gate_closed report \<or> verify_gate_blocked report"

subsection \<open>Status strings\<close>

fun skip_status :: "skip_reason \<Rightarrow> string" where
  "skip_status SubmitterGated = ''skipped-submitter-gated''"
| "skip_status NotConfigured = ''skipped-not-configured''"
| "skip_status Snapshot = ''skipped-snapshot''"
| "skip_status DryRun = ''skipped-dry-run''"
| "skip_status Nightly = ''skipped-nightly''"
| "skip_status NotApplicable = ''skipped-not-applicable''"
| "skip_status AlreadyPublished = ''skipped-already-published''"
| "skip_status Deselected = ''skipped-deselected''"
| "skip_status VerifyGateBlocked = ''skipped-verify-gate-blocked''"
| "skip_status ConfigSkipped = ''skipped-config''"
| "skip_status EntriesSkipped = ''skipped-entries-skipped''"

fun outcome_to_status_string :: "publisher_outcome \<Rightarrow> string" where
  "outcome_to_status_string Succeeded = ''succeeded''"
| "outcome_to_status_string (Skipped reason) = skip_status reason"
| "outcome_to_status_string (Failed _) = ''failed''"
| "outcome_to_status_string RolledBack = ''rolled-back''"
| "outcome_to_status_string (RollbackFailed _) = ''rollback-failed''"
| "outcome_to_status_string RollbackSkippedNoScope = ''rollback-skipped-no-scope''"
| "outcome_to_status_string PendingModeration = ''pending-moderation''"
| "outcome_to_status_string PendingValidation = ''pending-validation''"
| "outcome_to_status_string PublishedNoRollback = ''published-no-rollback''"

definition outcome_landed :: "publisher_result \<Rightarrow> bool" where
  "outcome_landed result =
     (case res_outcome result of
        Skipped _ \<Rightarrow> False
      | Failed _ \<Rightarrow> (case res_evidence result of None \<Rightarrow> False | Some e \<Rightarrow> records_published_work e)
      | _ \<Rightarrow> True)"

text \<open>The fold's two \<open>u32\<close> counters count list elements, so they are kept as naturals.\<close>

fun count_publish_state :: "publisher_result list \<Rightarrow> nat \<times> nat" where
  "count_publish_state [] = (0, 0)"
| "count_publish_state (r # rs) =
     (let (succeeded, failed) = count_publish_state rs
      in case res_outcome r of
           Succeeded \<Rightarrow> (Suc succeeded, failed)
         | PendingModeration \<Rightarrow> (Suc succeeded, failed)
         | PendingValidation \<Rightarrow> (Suc succeeded, failed)
         | PublishedNoRollback \<Rightarrow> (Suc succeeded, failed)
         | RollbackFailed _ \<Rightarrow> (Suc succeeded, failed)
         | RollbackSkippedNoScope \<Rightarrow> (Suc succeeded, failed)
         | Failed _ \<Rightarrow> (succeeded, Suc failed)
         | Skipped _ \<Rightarrow> (succeeded, failed)
         | RolledBack \<Rightarrow> (succeeded, failed))"

subsection \<open>Appending rows\<close>

text \<open>\<open>report.results.push(row)\<close>, the only way the dispatcher changes \<open>results\<close>.\<close>

definition push_result :: "publisher_result \<Rightarrow> publish_report \<Rightarrow> publish_report" where
  "push_result row report = report\<lparr>results := results report @ [row]\<rparr>"

lemma results_push_result [simp]: "results (push_result row report) = results report @ [row]"
  by (simp add: push_result_def)

lemma push_result_flags [simp]:
  "submitter_gated (push_result row report) = submitter_gated report"
  "announce_gated (push_result row report) = announce_gated report"
  "verify_gate_blocked (push_result row report) = verify_gate_blocked report"
  "verify_gate_evaluated (push_result row report) = verify_gate_evaluated report"
  "carried_forward (push_result row report) = carried_forward report"
  by (simp_all add: push_result_def)

lemma is_failed_iff: "is_failed oc \<longleftrightarrow> (\<exists>msg. oc = Failed msg)"
  by (cases oc) simp_all

lemma submitter_gate_closed_iff:
  "submitter_gate_closed report \<longleftrightarrow> (\<exists>r \<in> set (results report). res_required r \<and> is_failed (res_outcome r))"
proof -
  have "g = Assets \<or> g = Manager \<or> g = Submitter" for g by (cases g) simp_all
  then show ?thesis unfolding submitter_gate_closed_def any_failed_def list_ex_iff by auto
qed

lemma gate_closed_push [simp]:
  "submitter_gate_closed (push_result row report) \<longleftrightarrow>
     submitter_gate_closed report \<or> (res_required row \<and> is_failed (res_outcome row))"
  by (auto simp: submitter_gate_closed_iff)

lemma gate_closed_cong [simp]:
  "submitter_gate_closed (report\<lparr>submitter_gated := b\<rparr>) = submitter_gate_closed report"
  "submitter_gate_closed (report\<lparr>announce_gated := b\<rparr>) = submitter_gate_closed report"
  "submitter_gate_closed (report\<lparr>verify_gate_blocked := b\<rparr>) = submitter_gate_closed report"
  "submitter_gate_closed (report\<lparr>verify_gate_evaluated := b\<rparr>) = submitter_gate_closed report"
  by (simp_all add: submitter_gate_closed_iff)

interpretation gate_latch: latch push_result submitter_gate_closed
  by unfold_locales simp

lemma count_publish_state_eq:
  "count_publish_state rows =
     (length (filter (\<lambda>r. outcome_to_status_string (res_outcome r) \<in>
        {''succeeded'', ''pending-moderation'', ''pending-validation'', ''published-no-rollback'',
         ''rollback-failed'', ''rollback-skipped-no-scope''}) rows),
      length (filter (\<lambda>r. is_failed (res_outcome r)) rows))"
proof (induction rows)
  case (Cons r rows)
  have "skip_status s \<notin> {''succeeded'', ''pending-moderation'', ''pending-validation'',
      ''published-no-rollback'', ''rollback-failed'', ''rollback-skipped-no-scope''}" for s
    by (cases s) simp_all
  with Cons show ?case by (cases "res_outcome r") auto
qed simp

lemma skip_status_inj: "skip_status a = skip_status b \<longleftrightarrow> a = b"
  by (cases a; cases b) simp_all

lemma skip_status_prefix: "starts_with (skip_status a) ''skipped-''"
  by (cases a) (simp_all add: starts_with_def)

text \<open>Two outcomes have the same status string exactly when they agree up to the message.\<close>

lemma outcome_status_inj:
  "outcome_to_status_string a = outcome_to_status_string b \<longleftrightarrow>
     a = b \<or> (is_failed a \<and> is_failed b) \<or> (\<exists>m n. a = RollbackFailed m \<and> b = RollbackFailed n)"
proof -
  have "skip_status s \<notin> {''succeeded'', ''failed'', ''rolled-back'', ''rollback-failed'',
     ''rollback-skipped-no-scope'', ''pending-moderation'', ''pending-validation'', ''published-no-rollback''}" for s
    by (cases s) simp_all
  then show ?thesis
    by (cases a; cases b) (auto simp: skip_status_inj dest: sym)
qed

text \<open>
  The release's notion of a broken run is one notion: the number of required failures, the
  names shown for them and the one-way-door gate agree. The gate is closed exactly when some
  required row is \<open>Failed\<close>; it then stays closed whatever rows are appended, and every
  required failure is counted once, a required \<open>Failed\<close> row always among them.
\<close>
theorem gate_is_a_latch:
  "(submitter_gate_closed report \<longleftrightarrow>
      (\<exists>r \<in> set (results report). res_required r \<and> (\<exists>msg. res_outcome r = Failed msg)))
   \<and> (submitter_gate_closed report \<longrightarrow> submitter_gate_closed (fold push_result rows report))
   \<and> (submitter_gate_closed report \<longrightarrow> required_failures report > 0)
   \<and> length (filter (\<lambda>r. res_required r \<and> is_required_release_failure (res_outcome r)) (results report))
       = required_failures report"
proof -
  have "submitter_gate_closed report \<longrightarrow> required_failures report > 0"
    by (auto simp: submitter_gate_closed_iff required_failures_def required_failure_names_def
        filter_empty_conv is_failed_iff intro!: bexI)
  then show ?thesis
    using gate_latch.stays_closed
    by (auto simp: submitter_gate_closed_iff is_failed_iff required_failures_def required_failure_names_def)
qed

theorem gate_is_a_latch_witness:
  "submitter_gate_closed (fold push_result
     [\<lparr>res_name = ''cargo'', res_group = Submitter, res_required = True, res_outcome = Skipped SubmitterGated,
       res_evidence = None, res_entry_skips = []\<rparr>]
     (default_report\<lparr>results := [\<lparr>res_name = ''blob'', res_group = Assets, res_required = True,
       res_outcome = Failed ''upload'', res_evidence = None, res_entry_skips = []\<rparr>]\<rparr>))"
  by (rule gate_is_a_latch [THEN conjunct2, THEN conjunct1, THEN mp])
    (simp add: submitter_gate_closed_def any_failed_def)

end
