(* ===== verification/Targets.thy ===== *)
theory Targets
  imports Prelude
begin

section \<open>Build targets and partial builds (\<open>core/src/target.rs\<close>, \<open>core/src/partial.rs\<close>)\<close>

text \<open>
  Models the mapping of a target triple to the operating system and architecture words every asset name uses, the
  predicates on triples, the Debian architecture table, the filter a split build applies to its targets with the
  name of its output directory, the resolution of that filter from the environment and the host, and the partition of
  targets into those a host can build and those it cannot. The environment is a function from names to values, and
  the text \<open>rustc -vV\<close> prints (or the error of running it) is an argument.

  Main results: the directory name of a filter determines the filter; the filter agrees with the words of the triple; the
  override of the host triple has the words it asks for; the host partition loses no target and names the
  reason of every skip.
\<close>

subsection \<open>Triples\<close>

definition default_target_list :: "string list" where
  "default_target_list =
     [''x86_64-unknown-linux-gnu'', ''x86_64-apple-darwin'', ''aarch64-apple-darwin'',
      ''x86_64-pc-windows-msvc'', ''aarch64-pc-windows-msvc'', ''aarch64-unknown-linux-gnu'']"

text \<open>A \<open>match\<close> on string literals: the first row whose literals hold the text.\<close>

fun str_match :: "(string list \<times> 'a) list \<Rightarrow> string \<Rightarrow> 'a option" where
  "str_match [] s = None"
| "str_match ((ps, r) # rows) s = (if s \<in> set ps then Some r else str_match rows s)"

definition rust_arch_to_goarch :: "string \<Rightarrow> bool \<Rightarrow> string option" where
  "rust_arch_to_goarch token little_endian =
     str_match
       [([''x86_64'', ''amd64''], ''amd64''),
        ([''aarch64'', ''arm64''], ''arm64''),
        ([''x86'', ''i686'', ''i386'', ''i586''], ''386''),
        ([''s390x''], ''s390x''),
        ([''riscv64'', ''riscv64gc''], ''riscv64''),
        ([''loongarch64'', ''loong64''], ''loong64''),
        ([''sparcv9'', ''sparc64''], ''sparc64''),
        ([''powerpc'', ''ppc''], ''ppc''),
        ([''powerpc64le'', ''ppc64le''], ''ppc64le''),
        ([''powerpc64'', ''ppc64''], if little_endian then ''ppc64le'' else ''ppc64''),
        ([''wasm32'', ''wasm''], ''wasm''),
        ([''mipsel''], ''mipsel''),
        ([''mips64el''], ''mips64el''),
        ([''mips''], if little_endian then ''mipsel'' else ''mips''),
        ([''mips64''], if little_endian then ''mips64el'' else ''mips64'')] token"

definition target_os :: "string \<Rightarrow> string" where
  "target_os triple =
     (if contains triple ''android'' then ''android''
      else if contains triple ''ios'' then ''ios''
      else if contains triple ''linux'' then ''linux''
      else if contains triple ''darwin'' \<or> contains triple ''apple'' then ''darwin''
      else if contains triple ''windows'' then ''windows''
      else if contains triple ''freebsd'' then ''freebsd''
      else if contains triple ''netbsd'' then ''netbsd''
      else if contains triple ''openbsd'' then ''openbsd''
      else if contains triple ''aix'' then ''aix''
      else if contains triple ''solaris'' then ''solaris''
      else if contains triple ''illumos'' then ''illumos''
      else ''unknown'')"

definition first_component :: "string \<Rightarrow> string" where
  "first_component triple = hd (split_char CHR ''-'' triple)"

definition target_arch :: "string \<Rightarrow> string" where
  "target_arch triple =
     (if triple = ''darwin-universal'' then ''all''
      else if contains triple ''x86_64'' \<or> contains triple ''amd64'' then ''amd64''
      else if contains triple ''aarch64'' \<or> contains triple ''arm64'' then ''arm64''
      else
        let first = first_component triple
        in if first = ''armv7'' \<or> first = ''armv7l'' then ''armv7''
           else if first = ''armv6'' \<or> first = ''armv6l'' \<or> first = ''arm'' then ''armv6''
           else (case rust_arch_to_goarch first False of Some a \<Rightarrow> a | None \<Rightarrow> first))"

definition map_target :: "string \<Rightarrow> string \<times> string" where
  "map_target triple = (target_os triple, target_arch triple)"

definition libc_from_target :: "string \<Rightarrow> string" where
  "libc_from_target triple =
     (if contains triple ''musl'' then ''musl'' else if contains triple ''gnu'' then ''gnu'' else '''')"

definition abi_from_target :: "string \<Rightarrow> string" where
  "abi_from_target triple =
     (let parts = split_char CHR ''-'' triple
      in if 3 < length parts then hd (split_char CHR ''.'' (parts ! 3)) else '''')"

definition debian_arch_from_arch :: "string \<Rightarrow> string option" where
  "debian_arch_from_arch =
     str_match
       [([''amd64'', ''x86_64''], ''amd64''),
        ([''arm64'', ''aarch64''], ''arm64''),
        ([''386''], ''i386''),
        ([''arm7'', ''armv7''], ''armhf''),
        ([''arm6'', ''armv6''], ''armhf''),
        ([''arm5'', ''armv5''], ''armel''),
        ([''mips64le''], ''mips64el''),
        ([''mipsle''], ''mipsel''),
        ([''s390''], ''s390x''),
        ([''ppc64le''], ''ppc64el''),
        ([''ppc64''], ''ppc64''),
        ([''s390x''], ''s390x''),
        ([''riscv64''], ''riscv64''),
        ([''mips64''], ''mips64''),
        ([''mips64el''], ''mips64el''),
        ([''mips''], ''mips''),
        ([''mipsel''], ''mipsel''),
        ([''sparc64''], ''sparc64''),
        ([''loong64''], ''loong64'')]"

text \<open>The error carries the triple that has no Debian name.\<close>

datatype unknown_debian_arch = UnknownDebianArch string

definition debian_arch_from_target :: "string \<Rightarrow> (unknown_debian_arch, string) result" where
  "debian_arch_from_target triple =
     (case debian_arch_from_arch (snd (map_target triple)) of
        Some a \<Rightarrow> Inr a
      | None \<Rightarrow> Inl (UnknownDebianArch triple))"

definition is_darwin :: "string \<Rightarrow> bool" where
  "is_darwin triple \<longleftrightarrow> contains triple ''darwin'' \<or> contains triple ''apple''"

definition is_macos :: "string \<Rightarrow> bool" where
  "is_macos triple \<longleftrightarrow> contains triple ''darwin''"

definition is_linux :: "string \<Rightarrow> bool" where
  "is_linux triple \<longleftrightarrow> contains triple ''linux'' \<and> \<not> contains triple ''android''"

definition is_windows :: "string \<Rightarrow> bool" where
  "is_windows triple \<longleftrightarrow> contains triple ''windows''"

definition is_windows_msvc :: "string \<Rightarrow> bool" where
  "is_windows_msvc triple \<longleftrightarrow> contains triple ''windows-msvc''"

definition is_ios :: "string \<Rightarrow> bool" where
  "is_ios triple \<longleftrightarrow> contains triple ''ios''"

definition is_aix :: "string \<Rightarrow> bool" where
  "is_aix triple \<longleftrightarrow> contains triple ''aix''"

definition is_nfpm_target :: "string \<Rightarrow> bool" where
  "is_nfpm_target triple \<longleftrightarrow>
     is_linux triple \<or> is_ios triple \<or> contains triple ''android'' \<or> is_aix triple"

definition os_arch_with_default :: "string option \<Rightarrow> string \<Rightarrow> string \<times> string" where
  "os_arch_with_default target default_os =
     (case target of Some t \<Rightarrow> map_target t | None \<Rightarrow> (default_os, ''amd64''))"

subsection \<open>The filter of a partial build\<close>

datatype partial_target =
    Exact string
  | OsArch string "string option"
  | Targets "string list"

fun target_selected :: "partial_target \<Rightarrow> string \<Rightarrow> bool" where
  "target_selected (Exact t) tt \<longleftrightarrow> tt = t"
| "target_selected (OsArch os arch) tt \<longleftrightarrow>
     (case map_target tt of
        (t_os, t_arch) \<Rightarrow> t_os = os \<and> (case arch of None \<Rightarrow> True | Some a \<Rightarrow> t_arch = a))"
| "target_selected (Targets wanted) tt \<longleftrightarrow> tt \<in> set wanted"

definition filter_targets :: "partial_target \<Rightarrow> string list \<Rightarrow> string list" where
  "filter_targets p targets = filter (target_selected p) targets"

fun dist_subdir :: "partial_target \<Rightarrow> string" where
  "dist_subdir (Exact t) = t"
| "dist_subdir (OsArch os arch) = (case arch of Some a \<Rightarrow> os @ ''_'' @ a | None \<Rightarrow> os)"
| "dist_subdir (Targets wanted) =
     (case wanted of first # _ \<Rightarrow> ''targets-'' @ first | [] \<Rightarrow> ''targets-empty'')"

text \<open>\<open>str::split_once\<close> at a character.\<close>

fun split_once :: "char \<Rightarrow> string \<Rightarrow> (string \<times> string) option" where
  "split_once d [] = None"
| "split_once d (c # cs) =
     (if c = d then Some ([], cs)
      else map_option (\<lambda>(a, b). (c # a, b)) (split_once d cs))"

definition from_dist_subdir :: "string \<Rightarrow> partial_target" where
  "from_dist_subdir subdir =
     (case strip_prefix subdir ''targets-'' of
        Some rest \<Rightarrow> if rest = [] \<or> rest = ''empty'' then Targets [] else Targets [rest]
      | None \<Rightarrow>
          if CHR ''-'' \<in> set subdir then Exact subdir
          else (case split_once CHR ''_'' subdir of
                  Some (os, arch) \<Rightarrow> OsArch os (Some arch)
                | None \<Rightarrow> OsArch subdir None))"

subsection \<open>Resolution from the environment and the host\<close>

type_synonym env_source = "string \<Rightarrow> string option"

definition env_nonempty :: "env_source \<Rightarrow> string \<Rightarrow> string option" where
  "env_nonempty env k = Option.bind (env k) (\<lambda>s. if s = [] then None else Some s)"

definition env_nonblank :: "env_source \<Rightarrow> string \<Rightarrow> string option" where
  "env_nonblank env k = Option.bind (env k) (\<lambda>s. if trim s = [] then None else Some s)"

definition or_else :: "'a option \<Rightarrow> 'a option \<Rightarrow> 'a option" where
  "or_else a b = (case a of Some x \<Rightarrow> Some x | None \<Rightarrow> b)"

text \<open>The first line with the given prefix, trimmed.\<close>

fun line_value :: "string \<Rightarrow> string list \<Rightarrow> string option" where
  "line_value p [] = None"
| "line_value p (l # ls) = (case strip_prefix l p of Some v \<Rightarrow> Some (trim v) | None \<Rightarrow> line_value p ls)"

definition parse_host_from_output :: "string \<Rightarrow> string option" where
  "parse_host_from_output output = line_value ''host: '' (lines_str output)"

definition parse_rustc_version_from_output :: "string \<Rightarrow> string option" where
  "parse_rustc_version_from_output output = line_value ''release: '' (lines_str output)"

definition detect_host_target :: "(string, string) result \<Rightarrow> (string, string) result" where
  "detect_host_target rustc_vv =
     (case rustc_vv of
        Inl e \<Rightarrow> Inl e
      | Inr stdout \<Rightarrow>
          (case parse_host_from_output stdout of
             Some h \<Rightarrow> Inr h
           | None \<Rightarrow> Inl ''could not detect host target from `rustc -vV` output''))"

definition detect_rustc_version :: "(string, string) result \<Rightarrow> string option" where
  "detect_rustc_version rustc_vv = Option.bind (ok_opt rustc_vv) parse_rustc_version_from_output"

record partial_config =
  by_axis :: "string option"

definition split_axis :: "partial_config option \<Rightarrow> string" where
  "split_axis config = (case Option.bind config by_axis of Some b \<Rightarrow> b | None \<Rightarrow> ''os'')"

definition resolve_partial_target_with_env ::
  "(string, string) result \<Rightarrow> partial_config option \<Rightarrow> env_source \<Rightarrow> (string, partial_target) result" where
  "resolve_partial_target_with_env rustc_vv config env =
     (case env_nonempty env ''TARGET'' of
        Some t \<Rightarrow> Inr (Exact t)
      | None \<Rightarrow>
          (case or_else (env_nonempty env ''ANODIZER_OS'') (env_nonempty env ''GGOOS'') of
             Some os \<Rightarrow> Inr (OsArch os (or_else (env_nonempty env ''ANODIZER_ARCH'') (env_nonempty env ''GGOARCH'')))
           | None \<Rightarrow>
               (case detect_host_target rustc_vv of
                  Inl e \<Rightarrow> Inl e
                | Inr host \<Rightarrow>
                    let by = split_axis config
                    in if by = ''os'' then Inr (OsArch (fst (map_target host)) None)
                       else if by = ''target'' then Inr (Exact host)
                       else Inl (''partial.by: unknown value '' @ quoted by @
                                 '' (expected '' @ quoted ''os'' @ '' or '' @ quoted ''target'' @ '')''))))"

definition synthesize_triple_with_overrides :: "string \<Rightarrow> string option \<Rightarrow> string option \<Rightarrow> string" where
  "synthesize_triple_with_overrides host_triple goos goarch =
     (let arch_token = map_option (\<lambda>a.
            case str_match [([''amd64'', ''x86_64''], ''x86_64''), ([''arm64'', ''aarch64''], ''aarch64''),
                            ([''386'', ''i686''], ''i686'')] a of Some t \<Rightarrow> t | None \<Rightarrow> a) goarch;
          os_token = map_option (\<lambda>os.
            case str_match [([''darwin'', ''macos''], ''apple-darwin''), ([''linux''], ''unknown-linux-gnu''),
                            ([''windows''], ''pc-windows-msvc'')] os of Some t \<Rightarrow> t | None \<Rightarrow> os) goos;
          parts = split_char CHR ''-'' host_triple;
          original_arch = hd parts;
          original_rest = join_with ''-'' (tl parts);
          new_arch = (case arch_token of Some a \<Rightarrow> a | None \<Rightarrow> original_arch);
          new_rest = (case os_token of Some r \<Rightarrow> r | None \<Rightarrow> original_rest)
      in if new_rest = [] then new_arch else new_arch @ ''-'' @ new_rest)"

definition resolve_host_target_with_env ::
  "(string, string) result \<Rightarrow> env_source \<Rightarrow> (string, string) result" where
  "resolve_host_target_with_env rustc_vv env =
     (case env_nonblank env ''TARGET'' of
        Some t \<Rightarrow> Inr t
      | None \<Rightarrow>
          (case detect_host_target rustc_vv of
             Inl e \<Rightarrow> Inl e
           | Inr host \<Rightarrow>
               let ggoos = env_nonblank env ''GGOOS''; ggoarch = env_nonblank env ''GGOARCH''
               in if ggoos \<noteq> None \<or> ggoarch \<noteq> None
                  then Inr (synthesize_triple_with_overrides host ggoos ggoarch)
                  else Inr host))"

definition find_runtime_target :: "string \<Rightarrow> string list \<Rightarrow> string option" where
  "find_runtime_target host configured = List.find (\<lambda>t. map_target t = map_target host) configured"

text \<open>The build stage's \<open>--single-target\<close> step: the exact triple, else the first with the same words, else an error.\<close>

definition apply_single_target ::
  "string option \<Rightarrow> string \<Rightarrow> string \<Rightarrow> string list \<Rightarrow> (string, string list) result" where
  "apply_single_target single crate binary targets =
     (case single of
        None \<Rightarrow> Inr targets
      | Some s \<Rightarrow>
          if targets = [] then Inr targets
          else
            (case filter (\<lambda>t. t = s) targets of
               [] \<Rightarrow>
                 (case find_runtime_target s targets of
                    Some m \<Rightarrow> Inr [m]
                  | None \<Rightarrow>
                      Inl (''--single-target: host triple '' @ quoted s @ '' is not in configured targets for '' @
                           crate @ ''/'' @ binary @ '' (configured: ['' @ join_with '', '' targets @
                           '']). Set TARGET=<triple> or update build.targets to include the host.''))
             | kept \<Rightarrow> Inr kept))"

subsection \<open>Targets a host can build\<close>

datatype host_constraint = NeedsAppleHost | NeedsWindowsHost

fun constraint_reason :: "host_constraint \<Rightarrow> string" where
  "constraint_reason NeedsAppleHost = ''apple targets require a macOS host''"
| "constraint_reason NeedsWindowsHost = ''windows-msvc targets require a Windows host''"

definition host_is_apple :: "string \<Rightarrow> bool" where
  "host_is_apple host = is_darwin host"

definition host_is_windows :: "string \<Rightarrow> bool" where
  "host_is_windows host = is_windows host"

definition target_host_constraint :: "string \<Rightarrow> string \<Rightarrow> host_constraint option" where
  "target_host_constraint host triple =
     (if is_darwin triple \<and> \<not> host_is_apple host then Some NeedsAppleHost
      else if is_windows_msvc triple \<and> \<not> host_is_windows host then Some NeedsWindowsHost
      else None)"

text \<open>The loop appends each target to one of two vectors.\<close>

fun partition_loop :: "string \<Rightarrow> string list \<Rightarrow> string list \<times> string list \<Rightarrow> string list \<times> string list" where
  "partition_loop host [] acc = acc"
| "partition_loop host (t # ts) (kept, skipped) =
     partition_loop host ts
       (if target_host_constraint host t \<noteq> None then (kept, skipped @ [t]) else (kept @ [t], skipped))"

definition host_buildable_targets :: "string \<Rightarrow> string list \<Rightarrow> string list \<times> string list" where
  "host_buildable_targets host configured = partition_loop host configured ([], [])"

definition skip_clause :: "string \<Rightarrow> string list \<Rightarrow> host_constraint \<Rightarrow> string option" where
  "skip_clause host skipped cst =
     (let triples = filter (\<lambda>t. target_host_constraint host t = Some cst) skipped
      in if triples = [] then None
         else Some (join_with '', '' triples @ '' ('' @ constraint_reason cst @ '')''))"

definition host_targets_skip_reasons :: "string \<Rightarrow> string list \<Rightarrow> string" where
  "host_targets_skip_reasons host skipped =
     join_with ''; '' (List.map_filter (skip_clause host skipped) [NeedsAppleHost, NeedsWindowsHost])"

definition host_targets_skip_message :: "string \<Rightarrow> string list \<Rightarrow> string option" where
  "host_targets_skip_message host skipped =
     (if skipped = [] then None
      else Some (''skipped '' @ count_noun (length skipped) ''target'' ''targets'' @ '' '' @ em_dash @
                 '' not buildable on this '' @ fst (map_target host) @ '' host (--host-targets): '' @
                 host_targets_skip_reasons host skipped))"

definition suggest_runner :: "string \<Rightarrow> string" where
  "suggest_runner os =
     (case str_match [([''linux''], ''ubuntu-latest''), ([''darwin''], ''macos-latest''),
                      ([''windows''], ''windows-latest'')] os of
        Some r \<Rightarrow> r
      | None \<Rightarrow> ''ubuntu-latest'')"

text \<open>\<open>apply_host_targets_filter\<close> of the command line: the new value of \<open>opts.targets\<close> and the warning.\<close>

definition apply_host_targets_filter ::
  "string list \<Rightarrow> string \<Rightarrow> string list option \<Rightarrow> string option \<times> (string, string list option) result" where
  "apply_host_targets_filter configured host opts_targets =
     (if configured = [] then (None, Inr opts_targets)
      else
        (case host_buildable_targets host configured of
           (kept, skipped) \<Rightarrow>
             (host_targets_skip_message host skipped,
              if kept = [] then
                Inl (''--host-targets: '' @
                     (if length configured = 1 then ''the one configured target cannot be built''
                      else ''none of the '' @ show_nat (length configured) @ '' configured targets can be built'') @
                     '' on this host ('' @ host @ ''); all require a different native host: '' @
                     host_targets_skip_reasons host skipped @
                     ''. Adjust build.targets, or run on a host that satisfies the constraint above.'')
              else Inr (Some kept))))"

section \<open>Results\<close>

subsection \<open>Words of a triple\<close>

definition os_words :: "string list" where
  "os_words = [''android'', ''ios'', ''linux'', ''darwin'', ''windows'', ''freebsd'', ''netbsd'', ''openbsd'',
               ''aix'', ''solaris'', ''illumos'', ''unknown'']"

lemma target_os_word: "target_os t \<in> set os_words"
  by (simp add: target_os_def os_words_def)

lemma target_os_of_words: "list_all (\<lambda>os. target_os os = os \<and> CHR ''-'' \<notin> set os \<and> CHR ''_'' \<notin> set os) os_words"
  by code_simp

lemma target_os_fixed: "os \<in> set os_words \<Longrightarrow> target_os os = os"
  using target_os_of_words by (auto simp: list_all_iff)

lemma target_os_idem [simp]: "target_os (target_os t) = target_os t"
  by (rule target_os_fixed [OF target_os_word])

lemma target_os_plain: "CHR ''-'' \<notin> set (target_os t)" "CHR ''_'' \<notin> set (target_os t)"
  using target_os_of_words target_os_word [of t] by (auto simp: list_all_iff)

lemma contains_mono: "contains s p \<Longrightarrow> contains (a @ s @ b) p"
  by (metis contains_def sublist_appendI sublist_order.order.trans)

text \<open>A Linux target whose architecture word has no row in the Debian table.\<close>

lemma debian_powerpc_unmapped:
  "is_linux ''powerpc-unknown-linux-gnu'' \<and> map_target ''powerpc-unknown-linux-gnu'' = (''linux'', ''ppc'') \<and>
   debian_arch_from_target ''powerpc-unknown-linux-gnu'' = Inl (UnknownDebianArch ''powerpc-unknown-linux-gnu'')"
  by code_simp

subsection \<open>Directory names\<close>

lemma split_once_None: "split_once d s = None \<longleftrightarrow> d \<notin> set s"
  by (induction s) auto

lemma split_once_append: "d \<notin> set a \<Longrightarrow> split_once d (a @ d # b) = Some (a, b)"
  by (induction a) auto

lemma split_once_Some: "split_once d s = Some (a, b) \<Longrightarrow> s = a @ d # b \<and> d \<notin> set a"
  by (induction s arbitrary: a) (auto split: if_splits)

lemma no_dash_not_targets: "CHR ''-'' \<notin> set s \<Longrightarrow> strip_prefix s ''targets-'' = None"
  by (auto simp: strip_prefix_def prefix_def)

text \<open>The filters the program writes directories for: a triple has a hyphen, an operating system or architecture
  word has none, and a list is represented by its first triple.\<close>

fun shard_wf :: "partial_target \<Rightarrow> bool" where
  "shard_wf (Exact t) \<longleftrightarrow> CHR ''-'' \<in> set t \<and> \<not> starts_with t ''targets-''"
| "shard_wf (OsArch os arch) \<longleftrightarrow>
     CHR ''-'' \<notin> set os \<and> CHR ''_'' \<notin> set os \<and> (case arch of None \<Rightarrow> True | Some a \<Rightarrow> CHR ''-'' \<notin> set a)"
| "shard_wf (Targets ts) \<longleftrightarrow> (case ts of [] \<Rightarrow> True | [t] \<Rightarrow> t \<noteq> [] \<and> t \<noteq> ''empty'' | _ \<Rightarrow> False)"

lemma from_dist_subdir_plain:
  "CHR ''-'' \<notin> set s \<Longrightarrow>
   from_dist_subdir s = (case split_once CHR ''_'' s of Some (os, arch) \<Rightarrow> OsArch os (Some arch) | None \<Rightarrow> OsArch s None)"
  by (simp add: from_dist_subdir_def no_dash_not_targets)

lemma from_dist_subdir_targets:
  "from_dist_subdir (''targets-'' @ r) = (if r = [] \<or> r = ''empty'' then Targets [] else Targets [r])"
  unfolding from_dist_subdir_def strip_prefix_append by simp

lemma from_dist_subdir_inverse: "shard_wf p \<Longrightarrow> from_dist_subdir (dist_subdir p) = p"
proof (cases p)
  case (Exact t)
  moreover assume "shard_wf p"
  ultimately show ?thesis
    by (auto simp: from_dist_subdir_def starts_with_def strip_prefix_def)
next
  case (OsArch os arch)
  moreover assume "shard_wf p"
  ultimately show ?thesis
    by (cases arch) (simp_all add: from_dist_subdir_plain split_once_None [THEN iffD2] split_once_append)
next
  case (Targets ts)
  moreover assume "shard_wf p"
  ultimately show ?thesis
    using from_dist_subdir_targets [of "''empty''"] from_dist_subdir_targets [of "hd ts"]
    by (auto split: list.splits)
qed

lemma dist_subdir_right_inverse:
  "dist_subdir (from_dist_subdir s) = (if s = ''targets-'' then ''targets-empty'' else s)"
proof (cases "strip_prefix s ''targets-''")
  case None
  then have "s \<noteq> ''targets-''" by (auto simp: strip_prefix_def)
  with None show ?thesis
    by (auto simp: from_dist_subdir_def split: option.splits dest: split_once_Some)
next
  case (Some r)
  then have s: "s = ''targets-'' @ r" by (simp only: strip_prefix_Some)
  show ?thesis unfolding s from_dist_subdir_targets by simp
qed

text \<open>
  C20. The name of a split build's output directory and the recogniser of that name are inverse to each other: every
  filter of the shape the program resolves is read back from its directory, and every directory name is the name of
  the filter read from it, but for a bare \<open>targets-\<close>. Hence two shards with different filters never share
  a directory.
\<close>

theorem dist_subdir_roundtrip:
  "(shard_wf p \<longrightarrow> from_dist_subdir (dist_subdir p) = p) \<and>
   dist_subdir (from_dist_subdir s) = (if s = ''targets-'' then ''targets-empty'' else s) \<and>
   (shard_wf p \<and> shard_wf q \<and> dist_subdir p = dist_subdir q \<longrightarrow> p = q)"
  using from_dist_subdir_inverse dist_subdir_right_inverse by metis

theorem dist_subdir_roundtrip_witness:
  "from_dist_subdir ''linux_amd64'' = OsArch ''linux'' (Some ''amd64'') \<and>
   dist_subdir (from_dist_subdir ''targets-x86_64-apple-darwin'') = ''targets-x86_64-apple-darwin''"
  using dist_subdir_roundtrip [of "OsArch ''linux'' (Some ''amd64'')" "''targets-x86_64-apple-darwin''"
      "OsArch ''linux'' None"] by simp

subsection \<open>Overrides of the host\<close>

lemma find_runtime_target_Some:
  "find_runtime_target host ts = Some t \<Longrightarrow> t \<in> set ts \<and> map_target t = map_target host"
  by (auto simp: find_runtime_target_def find_Some_iff)

lemma find_runtime_target_None:
  "find_runtime_target host ts = None \<longleftrightarrow> (\<forall>t \<in> set ts. map_target t \<noteq> map_target host)"
  by (auto simp: find_runtime_target_def find_None_iff)

text \<open>
  A target is built under \<open>--single-target\<close> only if it is configured and has the host's words, the exact
  triple is never replaced by another, and the step fails only if no configured target has the host's words.
\<close>

definition single_target_ok :: "string \<Rightarrow> string list \<Rightarrow> (string, string list) result \<Rightarrow> bool" where
  "single_target_ok s targets r =
     (case r of
        Inr kept \<Rightarrow>
          (kept = [] \<longleftrightarrow> targets = []) \<and>
          (\<forall>t \<in> set kept. t \<in> set targets \<and> map_target t = map_target s) \<and>
          (s \<in> set targets \<longrightarrow> set kept = {s})
      | Inl _ \<Rightarrow> targets \<noteq> [] \<and> (\<forall>t \<in> set targets. map_target t \<noteq> map_target s))"

theorem single_target_sound:
  "single_target_ok s targets (apply_single_target (Some s) crate binary targets)"
proof (cases "filter (\<lambda>t. t = s) targets")
  case Nil
  then have "s \<notin> set targets" by (auto simp: filter_empty_conv)
  with Nil show ?thesis
    by (auto simp: single_target_ok_def apply_single_target_def find_runtime_target_None
        split: option.splits dest: find_runtime_target_Some)
next
  case (Cons x xs)
  have "set (x # xs) = {s}" unfolding Cons [symmetric] using Cons by (auto simp: filter_eq_Cons_iff)
  moreover have "s \<in> set targets" using Cons by (auto simp: filter_eq_Cons_iff)
  moreover from this have "apply_single_target (Some s) crate binary targets = Inr (x # xs)"
    by (auto simp: apply_single_target_def Cons)
  ultimately show ?thesis
    by (auto simp: single_target_ok_def)
qed

definition go_os_names :: "string list" where
  "go_os_names = [''linux'', ''darwin'', ''windows'']"

definition go_arch_names :: "string list" where
  "go_arch_names = [''amd64'', ''arm64'', ''386'']"

lemma override_words_known:
  "list_all (\<lambda>os. list_all (\<lambda>arch.
     map_target (synthesize_triple_with_overrides '''' (Some os) (Some arch)) = (os, arch)) go_arch_names) go_os_names"
  by code_simp

lemma synthesize_both:
  "synthesize_triple_with_overrides host (Some os) (Some arch) =
   synthesize_triple_with_overrides '''' (Some os) (Some arch)"
  by (simp add: synthesize_triple_with_overrides_def Let_def)

theorem override_has_words:
  assumes "os \<in> set go_os_names" and "arch \<in> set go_arch_names"
  shows "map_target (synthesize_triple_with_overrides host (Some os) (Some arch)) = (os, arch)"
  using override_words_known assms by (subst synthesize_both) (simp add: list_all_iff)

subsection \<open>Targets a host can build\<close>

lemma partition_loop_filter:
  "partition_loop host ts (kept, skipped) =
   (kept @ filter (\<lambda>t. target_host_constraint host t = None) ts,
    skipped @ filter (\<lambda>t. target_host_constraint host t \<noteq> None) ts)"
  by (induction ts arbitrary: kept skipped) auto

lemma host_buildable_targets_filter:
  "host_buildable_targets host ts =
   (filter (\<lambda>t. target_host_constraint host t = None) ts,
    filter (\<lambda>t. target_host_constraint host t \<noteq> None) ts)"
  by (simp add: host_buildable_targets_def partition_loop_filter)

lemma join_with_contains: "x \<in> set xs \<Longrightarrow> contains (join_with d xs) x"
proof (induction d xs rule: join_with.induct)
  case (3 d p q ps)
  show ?case
  proof (cases "x = p")
    case True
    then show ?thesis by (auto simp: contains_def sublist_def)
  next
    case False
    with 3 have "contains (join_with d (q # ps)) x" by auto
    then show ?thesis using contains_mono [of "join_with d (q # ps)" x "p @ d" "[]"] by simp
  qed
qed (auto simp: contains_def)

lemma contains_trans: "contains s t \<Longrightarrow> contains t u \<Longrightarrow> contains s u"
  unfolding contains_def by (rule sublist_order.order.trans)

lemma skip_reasons_name_every_target:
  assumes "t \<in> set skipped" and "target_host_constraint host t = Some c"
  shows "contains (host_targets_skip_reasons host skipped) (join_with '', '' (filter (\<lambda>t. target_host_constraint host t = Some c) skipped)
           @ '' ('' @ constraint_reason c @ '')'')" (is "contains _ ?clause")
    and "contains (host_targets_skip_reasons host skipped) t"
proof -
  let ?ts = "filter (\<lambda>t. target_host_constraint host t = Some c) skipped"
  have mem: "t \<in> set ?ts" using assms by simp
  then have "skip_clause host skipped c = Some ?clause"
    by (auto simp: skip_clause_def Let_def filter_empty_conv)
  moreover have "c \<in> set [NeedsAppleHost, NeedsWindowsHost]" by (cases c) auto
  ultimately have "?clause \<in> set (List.map_filter (skip_clause host skipped) [NeedsAppleHost, NeedsWindowsHost])"
    by (force simp: List.map_filter_def)
  then show c: "contains (host_targets_skip_reasons host skipped) ?clause"
    unfolding host_targets_skip_reasons_def by (rule join_with_contains)
  have "contains ?clause t"
    using contains_mono [OF join_with_contains [OF mem, of "'', ''"], of "[]" "'' ('' @ constraint_reason c @ '')''"]
    by simp
  with c show "contains (host_targets_skip_reasons host skipped) t" by (rule contains_trans)
qed

definition foreign_target :: "string \<Rightarrow> string \<Rightarrow> bool" where
  "foreign_target host t \<longleftrightarrow>
     (is_darwin t \<and> \<not> is_darwin host) \<or> (is_windows_msvc t \<and> \<not> is_windows host)"

lemma foreign_target_iff: "foreign_target host t \<longleftrightarrow> (\<exists>c. target_host_constraint host t = Some c)"
  by (auto simp: target_host_constraint_def host_is_apple_def host_is_windows_def foreign_target_def)

lemma host_buildable_targets_foreign:
  "host_buildable_targets host ts =
   (filter (\<lambda>t. \<not> foreign_target host t) ts, filter (foreign_target host) ts)"
  by (auto simp: host_buildable_targets_filter foreign_target_iff intro!: filter_cong)

lemma skip_message_names:
  assumes "t \<in> set skipped" and "foreign_target host t"
  shows "\<exists>w. host_targets_skip_message host skipped = Some w \<and> contains w t"
proof -
  from assms(2) obtain c where c: "target_host_constraint host t = Some c" by (auto simp: foreign_target_iff)
  obtain pre where "host_targets_skip_message host skipped = Some (pre @ host_targets_skip_reasons host skipped)"
    using assms(1) unfolding host_targets_skip_message_def by (metis append.assoc empty_iff empty_set)
  then show ?thesis
    using contains_mono [OF skip_reasons_name_every_target(2) [OF assms(1) c], of pre "[]"] by simp
qed

text \<open>
  \<open>--host-targets\<close>: the targets kept are exactly those that are neither Apple targets on another host
  nor MSVC targets off Windows, in the configured order; every target left out is named in the warning; and the
  run fails exactly if targets are configured and none can be built here.
\<close>

theorem host_filter_skips_loudly:
  assumes "configured \<noteq> []" and "apply_host_targets_filter configured host opts = (warning, r)"
  shows "(is_ok r \<longleftrightarrow> filter (\<lambda>t. \<not> foreign_target host t) configured \<noteq> []) \<and>
         (is_ok r \<longrightarrow> r = Inr (Some (filter (\<lambda>t. \<not> foreign_target host t) configured))) \<and>
         (\<forall>t \<in> set (filter (foreign_target host) configured). \<exists>w. warning = Some w \<and> contains w t) \<and>
         (warning = None \<longleftrightarrow> filter (foreign_target host) configured = [])"
proof -
  let ?skipped = "filter (foreign_target host) configured"
  from assms have w: "warning = host_targets_skip_message host ?skipped"
    by (simp add: apply_host_targets_filter_def host_buildable_targets_foreign)
  moreover have "\<exists>w. host_targets_skip_message host ?skipped = Some w \<and> contains w t" if "t \<in> set ?skipped" for t
    using that by (intro skip_message_names) auto
  moreover have "host_targets_skip_message host ?skipped = None \<longleftrightarrow> ?skipped = []"
    by (simp add: host_targets_skip_message_def)
  moreover have "if filter (\<lambda>t. \<not> foreign_target host t) configured = [] then \<not> is_ok r
      else r = Inr (Some (filter (\<lambda>t. \<not> foreign_target host t) configured))"
    using assms by (auto simp: apply_host_targets_filter_def host_buildable_targets_foreign simp del: filter_empty_conv
        split: if_splits)
  ultimately show ?thesis by (simp split: if_splits)
qed

theorem host_filter_skips_loudly_witness:
  "is_ok (snd (apply_host_targets_filter [''x86_64-unknown-linux-gnu'', ''x86_64-apple-darwin'']
            ''x86_64-unknown-linux-gnu'' None))"
proof -
  have "filter (\<lambda>t. \<not> foreign_target ''x86_64-unknown-linux-gnu'' t)
          [''x86_64-unknown-linux-gnu'', ''x86_64-apple-darwin''] \<noteq> []"
    by code_simp
  with host_filter_skips_loudly [of "[''x86_64-unknown-linux-gnu'', ''x86_64-apple-darwin'']" "''x86_64-unknown-linux-gnu''" None]
  show ?thesis by (metis list.distinct(1) prod.collapse)
qed

end
