(* ===== verification/Artifacts.thy ===== *)
theory Artifacts
  imports Targets "HOL-Library.Option_ord" "HOL-Library.Product_Lexorder"
begin

section \<open>The artifact registry (\<open>core/src/artifact/\<close>)\<close>

text \<open>
  Models \<open>kind.rs\<close> (the kinds of artifact, their wire names and the kind sets the stages select by),
  \<open>registry.rs\<close> (adding, deduplicating, selecting and serialising artifacts) and \<open>filter.rs\<close> (the \<open>ids\<close> and
  \<open>exclude\<close> filters, upload names). A registry is the list of its artifacts in registration order; an operation that
  changes it returns the new list. A metadata \<open>HashMap\<close> is the list of its entries in key order. Paths are Unix
  paths in normal form (no empty and no \<open>.\<close> component), so that equality of paths is equality of texts. The current
  directory and the compiled glob are parameters; the JSON value of an artifact is the artifact itself with the
  fields the serializer leaves out removed.

  Main results: wire names are read back; the registry keeps one entry per derived sidecar and never swallows a primary
  artifact; the manifest does not depend on the order of registration; a derived artifact has the upload verdict of
  the artifact it was derived from; no checksum or signature is a subject of another.
\<close>

subsection \<open>Kinds\<close>

datatype artifact_kind =
    Binary | UploadableBinary | UniversalBinary | Library | Header | CArchive
  | CShared | Wasm | Archive | SourceArchive | Makeself | AppImage
  | InstallScript | LinuxPackage | Snap | PublishableSnapcraft | Flatpak | SourceRpm
  | DiskImage | Installer | MacOsPackage | DockerImage | DockerImageV2 | PublishableDockerImage
  | DockerManifest | DockerDigest | BrewFormula | BrewCask | Nixpkg | ScoopManifest
  | PublishableChocolatey | WingetInstaller | WingetDefaultLocale | WingetVersion | PkgBuild | SrcInfo
  | SourcePkgBuild | SourceSrcInfo | KrewPluginManifest | Checksum | Signature | Certificate
  | Sbom | Metadata | UploadableFile

fun kind_str :: "artifact_kind \<Rightarrow> string" where
  "kind_str Binary = ''binary''"
| "kind_str UploadableBinary = ''uploadable_binary''"
| "kind_str UniversalBinary = ''universal_binary''"
| "kind_str Library = ''library''"
| "kind_str Header = ''header''"
| "kind_str CArchive = ''c_archive''"
| "kind_str CShared = ''c_shared''"
| "kind_str Wasm = ''wasm''"
| "kind_str Archive = ''archive''"
| "kind_str SourceArchive = ''source_archive''"
| "kind_str Makeself = ''makeself''"
| "kind_str AppImage = ''appimage''"
| "kind_str InstallScript = ''install_script''"
| "kind_str LinuxPackage = ''linux_package''"
| "kind_str Snap = ''snap''"
| "kind_str PublishableSnapcraft = ''publishable_snapcraft''"
| "kind_str Flatpak = ''flatpak''"
| "kind_str SourceRpm = ''source_rpm''"
| "kind_str DiskImage = ''disk_image''"
| "kind_str Installer = ''installer''"
| "kind_str MacOsPackage = ''macos_package''"
| "kind_str DockerImage = ''docker_image''"
| "kind_str DockerImageV2 = ''docker_image_v2''"
| "kind_str PublishableDockerImage = ''publishable_docker_image''"
| "kind_str DockerManifest = ''docker_manifest''"
| "kind_str DockerDigest = ''docker_digest''"
| "kind_str BrewFormula = ''brew_formula''"
| "kind_str BrewCask = ''brew_cask''"
| "kind_str Nixpkg = ''nixpkg''"
| "kind_str ScoopManifest = ''scoop_manifest''"
| "kind_str PublishableChocolatey = ''publishable_chocolatey''"
| "kind_str WingetInstaller = ''winget_installer''"
| "kind_str WingetDefaultLocale = ''winget_default_locale''"
| "kind_str WingetVersion = ''winget_version''"
| "kind_str PkgBuild = ''pkg_build''"
| "kind_str SrcInfo = ''src_info''"
| "kind_str SourcePkgBuild = ''source_pkg_build''"
| "kind_str SourceSrcInfo = ''source_src_info''"
| "kind_str KrewPluginManifest = ''krew_plugin_manifest''"
| "kind_str Checksum = ''checksum''"
| "kind_str Signature = ''signature''"
| "kind_str Certificate = ''certificate''"
| "kind_str Sbom = ''sbom''"
| "kind_str Metadata = ''metadata''"
| "kind_str UploadableFile = ''uploadable_file''"

definition parse_kind :: "string \<Rightarrow> artifact_kind option" where
  "parse_kind =
     str_match
       [([''binary''], Binary), ([''uploadable_binary''], UploadableBinary),
        ([''universal_binary''], UniversalBinary), ([''library''], Library), ([''header''], Header),
        ([''c_archive''], CArchive), ([''c_shared''], CShared), ([''wasm''], Wasm), ([''archive''], Archive),
        ([''source_archive''], SourceArchive), ([''makeself''], Makeself), ([''appimage''], AppImage),
        ([''install_script''], InstallScript), ([''linux_package''], LinuxPackage), ([''snap''], Snap),
        ([''publishable_snapcraft''], PublishableSnapcraft), ([''flatpak''], Flatpak),
        ([''source_rpm''], SourceRpm), ([''disk_image''], DiskImage), ([''installer''], Installer),
        ([''macos_package''], MacOsPackage), ([''docker_image''], DockerImage),
        ([''docker_image_v2''], DockerImageV2), ([''publishable_docker_image''], PublishableDockerImage),
        ([''docker_manifest''], DockerManifest), ([''docker_digest''], DockerDigest),
        ([''brew_formula''], BrewFormula), ([''brew_cask''], BrewCask), ([''nixpkg''], Nixpkg),
        ([''scoop_manifest''], ScoopManifest), ([''publishable_chocolatey''], PublishableChocolatey),
        ([''winget_installer''], WingetInstaller), ([''winget_default_locale''], WingetDefaultLocale),
        ([''winget_version''], WingetVersion), ([''pkg_build''], PkgBuild), ([''src_info''], SrcInfo),
        ([''source_pkg_build''], SourcePkgBuild), ([''source_src_info''], SourceSrcInfo),
        ([''krew_plugin_manifest''], KrewPluginManifest), ([''checksum''], Checksum),
        ([''signature''], Signature), ([''certificate''], Certificate), ([''sbom''], Sbom),
        ([''metadata''], Metadata), ([''uploadable_file''], UploadableFile)]"

definition size_reportable_kinds :: "artifact_kind list" where
  "size_reportable_kinds =
     [Archive, SourceArchive, UploadableFile, Makeself, AppImage, InstallScript, LinuxPackage, Flatpak,
      SourceRpm, Sbom, Checksum, Signature, Certificate, DiskImage, Installer, MacOsPackage, Snap,
      PublishableSnapcraft, Binary, UploadableBinary, UniversalBinary, Library, Header, CArchive, CShared,
      Wasm]"

definition uploadable_kinds :: "artifact_kind list" where
  "uploadable_kinds =
     [Archive, UploadableBinary, SourceArchive, UploadableFile, Makeself, AppImage, InstallScript,
      LinuxPackage, PublishableSnapcraft, Flatpak, SourceRpm, Sbom, Checksum, Signature, Certificate,
      DiskImage, Installer, MacOsPackage]"

definition release_uploadable_kinds :: "artifact_kind list" where
  "release_uploadable_kinds =
     [Archive, UploadableBinary, UploadableFile, SourceArchive, Makeself, AppImage, InstallScript,
      LinuxPackage, Flatpak, SourceRpm, Installer, DiskImage, MacOsPackage, Sbom, Checksum, Signature,
      Certificate]"

definition primary_subject_kinds :: "artifact_kind list" where
  "primary_subject_kinds =
     [Archive, UploadableBinary, SourceArchive, UploadableFile, Makeself, InstallScript, AppImage,
      LinuxPackage, Flatpak, SourceRpm, Installer, DiskImage, MacOsPackage, Sbom]"

definition checksummable_subject_kinds :: "artifact_kind list" where
  "checksummable_subject_kinds = primary_subject_kinds"

definition signable_subject_kinds :: "artifact_kind list" where
  "signable_subject_kinds = primary_subject_kinds"

definition is_derived_sidecar_kind :: "artifact_kind \<Rightarrow> bool" where
  "is_derived_sidecar_kind k \<longleftrightarrow> k \<in> {Checksum, Signature, Certificate, Metadata}"

definition is_uploadable :: "artifact_kind \<Rightarrow> bool" where
  "is_uploadable k \<longleftrightarrow> k \<in> set uploadable_kinds"

subsection \<open>Artifacts\<close>

record artifact =
  art_kind :: artifact_kind
  art_path :: string
  art_name :: string
  art_target :: "string option"
  art_crate_name :: string
  art_metadata :: "string btree_map"
  art_size :: "nat option"

abbreviation meta :: "artifact \<Rightarrow> string \<Rightarrow> string option" where
  "meta a \<equiv> map_of (art_metadata a)"

definition metadata_hash_keys :: "string list" where
  "metadata_hash_keys =
     [''Checksum'', ''sha256'', ''sha512'', ''sha384'', ''sha224'', ''sha1'', ''md5'', ''blake2b'', ''blake3'', ''crc32'']"

definition goos :: "artifact \<Rightarrow> string option" where
  "goos a = map_option (\<lambda>t. fst (map_target t)) (art_target a)"

definition goarch :: "artifact \<Rightarrow> string option" where
  "goarch a = map_option (\<lambda>t. snd (map_target t)) (art_target a)"

definition only_replacing_unibins :: "artifact \<Rightarrow> bool" where
  "only_replacing_unibins a = (case meta a ''replaces'' of None \<Rightarrow> True | Some v \<Rightarrow> v \<noteq> ''false'')"

definition extra_binaries :: "artifact \<Rightarrow> string list" where
  "extra_binaries a =
     (case meta a ''extra_binaries'' of
        Some v \<Rightarrow> filter (\<lambda>s. s \<noteq> []) (split_char CHR '','' v)
      | None \<Rightarrow> [])"

text \<open>\<open>Path::file_name\<close>: the last component, unless it is the root or \<open>..\<close>.\<close>

definition file_name :: "string \<Rightarrow> string option" where
  "file_name path =
     (let c = last (split_char CHR ''/'' path) in if c = [] \<or> c = ''..'' then None else Some c)"

definition is_binary_like :: "artifact_kind \<Rightarrow> bool" where
  "is_binary_like k \<longleftrightarrow> k \<in> {Binary, UploadableBinary, UniversalBinary}"

definition binary_name_of :: "artifact_kind option \<Rightarrow> string btree_map \<Rightarrow> string \<Rightarrow> string option" where
  "binary_name_of kind metadata path =
     (case map_of metadata ''binary'' of
        Some name \<Rightarrow> Some name
      | None \<Rightarrow>
          if \<not> (case kind of Some k \<Rightarrow> is_binary_like k | None \<Rightarrow> False) then None
          else map_option (\<lambda>f. case strip_suffix f ''.exe'' of Some s \<Rightarrow> s | None \<Rightarrow> f) (file_name path))"

definition binary_name :: "artifact \<Rightarrow> string option" where
  "binary_name a = binary_name_of (Some (art_kind a)) (art_metadata a) (art_path a)"

definition tar_compound_suffixes :: "string list" where
  "tar_compound_suffixes = [''.tar.gz'', ''.tar.xz'', ''.tar.zst'', ''.tar.bz2'', ''.tar.lz4'', ''.tar.sz'']"

text \<open>The text from the last dot on, when that dot is not the first character.\<close>

definition last_extension :: "string \<Rightarrow> string" where
  "last_extension f =
     (let tail = takeWhile (\<lambda>c. c \<noteq> CHR ''.'') (rev f)
      in if length tail + 1 < length f then CHR ''.'' # rev tail else [])"

definition extract_artifact_ext :: "string \<Rightarrow> string" where
  "extract_artifact_ext f =
     (case List.find (\<lambda>s. ends_with (to_ascii_lowercase f) s) tar_compound_suffixes of
        Some s \<Rightarrow> drop (length f - length s) f
      | None \<Rightarrow> last_extension f)"

definition ext_of :: "string btree_map \<Rightarrow> string \<Rightarrow> string" where
  "ext_of metadata name =
     (case map_of metadata ''ext'' of
        Some e \<Rightarrow> if e \<noteq> [] then e else extract_artifact_ext name
      | None \<Rightarrow> extract_artifact_ext name)"

subsection \<open>The registry\<close>

definition should_relativize_path :: "artifact_kind \<Rightarrow> bool" where
  "should_relativize_path k \<longleftrightarrow>
     k \<notin> {DockerImage, DockerImageV2, PublishableDockerImage, DockerManifest, DockerDigest}"

definition normalize_path_separators :: "string \<Rightarrow> string" where
  "normalize_path_separators = map (\<lambda>c. if c = CHR 0x5C then CHR ''/'' else c)"

text \<open>\<open>Path::strip_prefix\<close> on normal paths.\<close>

definition path_strip_prefix :: "string \<Rightarrow> string \<Rightarrow> string option" where
  "path_strip_prefix path base = (if path = base then Some [] else strip_prefix path (base @ ''/''))"

definition resolve_stored_path :: "string option \<Rightarrow> string \<Rightarrow> artifact_kind \<Rightarrow> string" where
  "resolve_stored_path cwd path kind =
     normalize_path_separators
       (if should_relativize_path kind \<and> starts_with path ''/'' then
          (case cwd of
             Some d \<Rightarrow>
               if d \<noteq> ''/'' then (case path_strip_prefix path d of Some rel \<Rightarrow> rel | None \<Rightarrow> path) else path
           | None \<Rightarrow> path)
        else path)"

definition canonical_name :: "artifact \<Rightarrow> string" where
  "canonical_name a =
     (if art_name a = [] then trim (case file_name (art_path a) of Some n \<Rightarrow> n | None \<Rightarrow> ''artifact'') else art_name a)"

definition same_entry :: "artifact \<Rightarrow> artifact \<Rightarrow> bool" where
  "same_entry a b \<longleftrightarrow> art_kind a = art_kind b \<and> art_path a = art_path b"

definition merge_metadata :: "string btree_map \<Rightarrow> string btree_map \<Rightarrow> string btree_map" where
  "merge_metadata into new = foldl (\<lambda>m (k, v). btree_insert k v m) into new"

definition absorb :: "artifact \<Rightarrow> artifact \<Rightarrow> artifact" where
  "absorb new existing =
     existing\<lparr>art_metadata := merge_metadata (art_metadata existing) (art_metadata new),
              art_size := (case art_size existing of Some n \<Rightarrow> Some n | None \<Rightarrow> art_size new)\<rparr>"

text \<open>Change the first element with a property: \<open>iter_mut().find\<close> followed by an update.\<close>

fun update_first :: "('a \<Rightarrow> bool) \<Rightarrow> ('a \<Rightarrow> 'a) \<Rightarrow> 'a list \<Rightarrow> 'a list option" where
  "update_first P f [] = None"
| "update_first P f (x # xs) = (if P x then Some (f x # xs) else map_option ((#) x) (update_first P f xs))"

definition stored :: "string option \<Rightarrow> artifact \<Rightarrow> artifact" where
  "stored cwd a = a\<lparr>art_name := canonical_name a, art_path := resolve_stored_path cwd (art_path a) (art_kind a)\<rparr>"

definition add_warning :: "artifact list \<Rightarrow> artifact \<Rightarrow> string option" where
  "add_warning reg a =
     (if is_uploadable (art_kind a) then
        map_option (\<lambda>existing.
          ''artifact '' @ quoted (art_name a) @ '' already registered at '' @ quoted (art_path existing) @
          '' but re-added from '' @ quoted (art_path a) @ ''; the upload keeps the first file and drops the second'')
          (List.find (\<lambda>b. is_uploadable (art_kind b) \<and> art_name b = art_name a \<and> art_path b \<noteq> art_path a) reg)
      else None)"

definition add_artifact :: "string option \<Rightarrow> artifact \<Rightarrow> artifact list \<Rightarrow> artifact list \<times> string option" where
  "add_artifact cwd artifact reg =
     (let a = stored cwd artifact
      in case (if is_derived_sidecar_kind (art_kind a) then update_first (\<lambda>b. same_entry b a) (absorb a) reg else None) of
           Some reg' \<Rightarrow> (reg', None)
         | None \<Rightarrow> (reg @ [a], add_warning reg a))"

fun dedupe_from :: "string list \<Rightarrow> artifact list \<Rightarrow> artifact list" where
  "dedupe_from seen [] = []"
| "dedupe_from seen (a # as) =
     (if art_target a \<noteq> None then a # dedupe_from seen as
      else if art_path a \<in> set seen then dedupe_from seen as
      else a # dedupe_from (art_path a # seen) as)"

definition dedupe_targetless_duplicates :: "artifact list \<Rightarrow> artifact list" where
  "dedupe_targetless_duplicates reg = dedupe_from [] reg"

definition contains_path_kind :: "string option \<Rightarrow> artifact list \<Rightarrow> string \<Rightarrow> artifact_kind \<Rightarrow> bool" where
  "contains_path_kind cwd reg path kind =
     list_ex (\<lambda>a. art_kind a = kind \<and> art_path a = resolve_stored_path cwd path kind) reg"

record pushed_image =
  pi_reference :: string
  pi_digest :: "string option"

text \<open>\<open>filter(|a| seen.insert(key))\<close>: the first element of each key.\<close>

fun first_by :: "('a \<Rightarrow> 'k) \<Rightarrow> 'k list \<Rightarrow> 'a list \<Rightarrow> 'a list" where
  "first_by key seen [] = []"
| "first_by key seen (x # xs) =
     (if key x \<in> set seen then first_by key seen xs else x # first_by key (key x # seen) xs)"

definition is_pushed_image :: "artifact \<Rightarrow> bool" where
  "is_pushed_image a \<longleftrightarrow> art_kind a \<in> {DockerImageV2, DockerManifest} \<and> meta a ''pushed'' = Some ''true''"

definition pushed_images :: "artifact list \<Rightarrow> pushed_image list" where
  "pushed_images reg =
     map (\<lambda>a. \<lparr>pi_reference = art_name a, pi_digest = meta a ''digest''\<rparr>)
       (first_by art_name [] (filter is_pushed_image reg))"

definition mark_image_signed :: "string \<Rightarrow> artifact list \<Rightarrow> artifact list" where
  "mark_image_signed reference reg =
     map (\<lambda>a. if art_kind a \<in> {DockerImage, DockerImageV2, DockerManifest} \<and> art_path a = reference
              then a\<lparr>art_metadata := btree_insert ''signed'' ''true'' (art_metadata a)\<rparr> else a) reg"

definition signed_images :: "artifact list \<Rightarrow> string list" where
  "signed_images reg =
     foldl (\<lambda>out a. if meta a ''signed'' \<noteq> Some ''true'' then out
                    else if art_path a \<in> set out then out else out @ [art_path a]) [] reg"

definition by_kind :: "artifact list \<Rightarrow> artifact_kind \<Rightarrow> artifact list" where
  "by_kind reg kind = filter (\<lambda>a. art_kind a = kind) reg"

definition by_kind_and_crate :: "artifact list \<Rightarrow> artifact_kind \<Rightarrow> string \<Rightarrow> artifact list" where
  "by_kind_and_crate reg kind crate = filter (\<lambda>a. art_kind a = kind \<and> art_crate_name a = crate) reg"

definition by_kinds_and_crate :: "artifact list \<Rightarrow> artifact_kind list \<Rightarrow> string \<Rightarrow> artifact list" where
  "by_kinds_and_crate reg kinds crate = filter (\<lambda>a. art_kind a \<in> set kinds \<and> art_crate_name a = crate) reg"

definition binary_like_dedup :: "artifact list \<Rightarrow> artifact list" where
  "binary_like_dedup reg =
     (let uploadable_paths = map art_path (filter (\<lambda>a. art_kind a = UploadableBinary) reg)
      in filter (\<lambda>a. art_kind a = UploadableBinary \<or> art_path a \<notin> set uploadable_paths)
           (filter (\<lambda>a. is_binary_like (art_kind a)) reg))"

definition remove_by_paths :: "string list \<Rightarrow> artifact list \<Rightarrow> artifact list" where
  "remove_by_paths paths reg = filter (\<lambda>a. art_path a \<notin> set paths) reg"

subsection \<open>The manifest \<open>artifacts.json\<close>\<close>

text \<open>The order of \<open>Path\<close>: component by component, the root and \<open>..\<close> before names.\<close>

definition component_rank :: "string \<Rightarrow> nat" where
  "component_rank c = (if c = [] then 0 else if c = ''.'' then 1 else if c = ''..'' then 2 else 3)"

definition component_cmp :: "string \<Rightarrow> string \<Rightarrow> ordering" where
  "component_cmp a b = then_cmp (cmp_of (component_rank a) (component_rank b)) (cmp_of a b)"

definition path_cmp :: "string \<Rightarrow> string \<Rightarrow> ordering" where
  "path_cmp a b = lex_cmp component_cmp (split_char CHR ''/'' a) (split_char CHR ''/'' b)"

definition target_key :: "artifact \<Rightarrow> string" where
  "target_key a = (case art_target a of Some t \<Rightarrow> t | None \<Rightarrow> [])"

definition manifest_cmp :: "artifact \<Rightarrow> artifact \<Rightarrow> ordering" where
  "manifest_cmp a b =
     then_cmp (cmp_of (kind_str (art_kind a)) (kind_str (art_kind b)))
       (then_cmp (cmp_of (target_key a) (target_key b))
         (then_cmp (cmp_of (art_crate_name a) (art_crate_name b))
           (then_cmp (cmp_of (art_name a) (art_name b))
             (path_cmp (art_path a) (art_path b)))))"

definition serialize_metadata_sorted :: "string btree_map \<Rightarrow> string btree_map" where
  "serialize_metadata_sorted m = btree_collect (filter (\<lambda>(k, v). k \<notin> set metadata_hash_keys) m)"

definition to_json_entry :: "artifact \<Rightarrow> artifact" where
  "to_json_entry a =
     a\<lparr>art_metadata := serialize_metadata_sorted (art_metadata a),
       art_path := normalize_path_separators (art_path a)\<rparr>"

definition to_artifacts_json :: "artifact list \<Rightarrow> artifact list" where
  "to_artifacts_json reg = map to_json_entry (sort_by manifest_cmp reg)"

type_synonym target_variant_key = "string \<times> string option"

fun group_insert :: "'k \<Rightarrow> 'v \<Rightarrow> ('k :: linorder \<times> 'v list) list \<Rightarrow> ('k \<times> 'v list) list" where
  "group_insert k v [] = [(k, [v])]"
| "group_insert k v ((k', vs) # m) =
     (if k < k' then (k, [v]) # (k', vs) # m
      else if k = k' then (k', vs @ [v]) # m
      else (k', vs) # group_insert k v m)"

definition target_variant :: "artifact \<Rightarrow> target_variant_key" where
  "target_variant a = ((case art_target a of Some t \<Rightarrow> t | None \<Rightarrow> ''unknown''), meta a ''amd64_variant'')"

definition group_by_target_variant :: "artifact list \<Rightarrow> (target_variant_key \<times> artifact list) list" where
  "group_by_target_variant binaries = foldl (\<lambda>m b. group_insert (target_variant b) b m) [] binaries"

text \<open>The state change of \<open>print_size_report\<close>: \<open>file_len\<close> is the length of a file that exists.\<close>

definition populate_sizes :: "(string \<Rightarrow> nat option) \<Rightarrow> artifact list \<Rightarrow> artifact list" where
  "populate_sizes file_len reg =
     map (\<lambda>a. if art_kind a \<notin> set size_reportable_kinds then a
              else (case file_len (art_path a) of Some n \<Rightarrow> a\<lparr>art_size := Some n\<rparr> | None \<Rightarrow> a)) reg"

subsection \<open>Upload names and filters\<close>

definition is_binary_sign_output :: "artifact \<Rightarrow> bool" where
  "is_binary_sign_output a \<longleftrightarrow> meta a ''binary_sign'' = Some ''true''"

definition upload_asset_name :: "artifact \<Rightarrow> string" where
  "upload_asset_name a =
     (if art_name a = [] then (case file_name (art_path a) of Some n \<Rightarrow> n | None \<Rightarrow> []) else art_name a)"

definition upload_rename :: "artifact \<Rightarrow> string option" where
  "upload_rename a =
     (let name = upload_asset_name a in if file_name (art_path a) \<noteq> Some name then Some name else None)"

definition is_combined_checksum_artifact :: "artifact \<Rightarrow> bool" where
  "is_combined_checksum_artifact a \<longleftrightarrow> art_kind a = Checksum \<and> meta a ''combined'' = Some ''true''"

definition is_directory_bundle_artifact :: "artifact \<Rightarrow> bool" where
  "is_directory_bundle_artifact a \<longleftrightarrow> art_kind a = Installer \<and> meta a ''format'' = Some ''appbundle''"

definition id_filter_always_pass :: "artifact_kind list" where
  "id_filter_always_pass = [Checksum, SourceArchive, UploadableFile, InstallScript, Metadata, SourceRpm]"

definition is_derived_kind :: "artifact_kind \<Rightarrow> bool" where
  "is_derived_kind k \<longleftrightarrow> k \<in> {Signature, Certificate, Sbom}"

definition subject_verdict_record :: "artifact_kind \<Rightarrow> string btree_map \<Rightarrow> string option \<times> string option" where
  "subject_verdict_record subject_kind subject_metadata =
     (if is_derived_kind subject_kind
      then (map_of subject_metadata ''subject_kind'', map_of subject_metadata ''id'')
      else (Some (kind_str subject_kind), map_of subject_metadata ''id''))"

definition matches_id_filter :: "artifact \<Rightarrow> string list option \<Rightarrow> bool" where
  "matches_id_filter a ids =
     (case ids of
        None \<Rightarrow> True
      | Some id_list \<Rightarrow>
          if id_list = [] then True
          else
            let passes =
              (if is_derived_kind (art_kind a) then
                 (case meta a ''subject_kind'' of
                    None \<Rightarrow> True
                  | Some subject \<Rightarrow>
                      list_ex (\<lambda>k. kind_str k = subject) id_filter_always_pass \<or>
                      list_ex (\<lambda>k. kind_str k = subject) [Signature, Certificate, Sbom])
               else art_kind a \<in> set id_filter_always_pass)
            in if passes then True
               else (case meta a ''id'' of Some i \<Rightarrow> i | None \<Rightarrow> []) \<in> set id_list)"

definition ids_filter_eliminated_all :: "string list option \<Rightarrow> nat \<Rightarrow> nat \<Rightarrow> bool" where
  "ids_filter_eliminated_all ids pre_filter post_filter \<longleftrightarrow>
     post_filter = 0 \<and> pre_filter > 0 \<and> (case ids of Some i \<Rightarrow> i \<noteq> [] | None \<Rightarrow> False)"

text \<open>\<open>glob_of\<close> compiles a pattern to its test, or fails.\<close>

definition name_passes_exclude_filter :: "(string \<Rightarrow> (string \<Rightarrow> bool) option) \<Rightarrow> string \<Rightarrow> string list option \<Rightarrow> bool" where
  "name_passes_exclude_filter glob_of name exclude =
     (case exclude of
        None \<Rightarrow> True
      | Some globs \<Rightarrow>
          if globs = [] then True
          else \<not> list_ex (\<lambda>g. case glob_of g of Some matches \<Rightarrow> matches name | None \<Rightarrow> False) globs)"

definition passes_exclude_filter :: "(string \<Rightarrow> (string \<Rightarrow> bool) option) \<Rightarrow> artifact \<Rightarrow> string list option \<Rightarrow> bool" where
  "passes_exclude_filter glob_of a exclude = name_passes_exclude_filter glob_of (art_name a) exclude"

section \<open>Results\<close>

subsection \<open>Wire names\<close>

lemma parse_kind_str [simp]: "parse_kind (kind_str k) = Some k"
  by (cases k) (simp_all add: parse_kind_def)

lemma kind_str_inj [simp]: "kind_str k = kind_str k' \<longleftrightarrow> k = k'"
  by (metis parse_kind_str option.inject)

lemma str_match_Some: "str_match rows s = Some r \<Longrightarrow> \<exists>ps. (ps, r) \<in> set rows \<and> s \<in> set ps"
  by (induction rows) (auto split: if_splits)

lemma parse_kind_Some: "parse_kind s = Some k \<Longrightarrow> s = kind_str k"
  unfolding parse_kind_def by (drule str_match_Some) auto

text \<open>
  The names of the artifact kinds on the wire: the parser reads back exactly the printed names, so a manifest
  is readable by the program that wrote it and two kinds never share a name.
\<close>

theorem artifact_kind_wire_roundtrip: "parse_kind s = Some k \<longleftrightarrow> s = kind_str k"
  using parse_kind_Some parse_kind_str by blast

subsection \<open>Kind sets\<close>

text \<open>
  No derived sidecar is ever an input of checksumming or signing, everything that is an input is uploaded to a
  release, and what a release uploads beyond the inputs is exactly the sidecars.
\<close>

theorem sidecars_are_never_subjects:
  "list_all (\<lambda>k. \<not> is_derived_sidecar_kind k) checksummable_subject_kinds \<and>
   signable_subject_kinds = checksummable_subject_kinds \<and>
   set release_uploadable_kinds = set primary_subject_kinds \<union> {Checksum, Signature, Certificate} \<and>
   set uploadable_kinds = set release_uploadable_kinds \<union> {PublishableSnapcraft}"
proof -
  have "set release_uploadable_kinds = set primary_subject_kinds \<union> {Checksum, Signature, Certificate}"
    "set uploadable_kinds = set release_uploadable_kinds \<union> {PublishableSnapcraft}"
    unfolding release_uploadable_kinds_def primary_subject_kinds_def uploadable_kinds_def by auto
  then show ?thesis
    by (simp add: checksummable_subject_kinds_def signable_subject_kinds_def primary_subject_kinds_def
        is_derived_sidecar_kind_def)
qed

subsection \<open>Inherited verdicts\<close>

definition derived_from :: "artifact \<Rightarrow> artifact \<Rightarrow> bool" where
  "derived_from d subject \<longleftrightarrow>
     is_derived_kind (art_kind d) \<and>
     (meta d ''subject_kind'', meta d ''id'') = subject_verdict_record (art_kind subject) (art_metadata subject)"

lemma derived_verdict_step:
  assumes "derived_from d s"
  shows "matches_id_filter d ids = matches_id_filter s ids"
proof (cases "is_derived_kind (art_kind s)")
  case True
  with assms show ?thesis
    by (simp add: matches_id_filter_def derived_from_def subject_verdict_record_def split: option.splits)
next
  case False
  then have "art_kind s \<notin> {Signature, Certificate, Sbom}" by (simp add: is_derived_kind_def)
  with False assms show ?thesis
    by (auto simp: matches_id_filter_def derived_from_def subject_verdict_record_def list_ex_iff
        simp del: kind_str.simps split: option.splits)
qed

text \<open>
  C18. A signature, certificate or SBOM uploads exactly if the artifact it was made from uploads, for every
  \<open>ids\<close> filter and through chains of any length (the signature of the SBOM of an archive), when each link carries the
  record the sign and SBOM stages write.
\<close>

theorem derived_artifacts_inherit_verdict:
  assumes "derived_from\<^sup>*\<^sup>* d subject"
  shows "matches_id_filter d ids = matches_id_filter subject ids"
  using assms by (induction rule: rtranclp_induct) (simp_all add: derived_verdict_step)

theorem derived_artifacts_inherit_verdict_witness:
  "let archive = \<lparr>art_kind = Archive, art_path = ''dist/a.tgz'', art_name = ''a.tgz'', art_target = None,
        art_crate_name = ''a'', art_metadata = [(''id'', ''cli'')], art_size = None\<rparr>;
       sbom = archive\<lparr>art_kind := Sbom, art_metadata := [(''id'', ''cli''), (''subject_kind'', ''archive'')]\<rparr>;
       sig = sbom\<lparr>art_kind := Signature\<rparr>
   in matches_id_filter sig (Some [''gui'']) = matches_id_filter archive (Some [''gui''])"
proof -
  define archive where "archive = \<lparr>art_kind = Archive, art_path = ''dist/a.tgz'', art_name = ''a.tgz'', art_target = None,
        art_crate_name = ''a'', art_metadata = [(''id'', ''cli'')], art_size = None\<rparr>"
  define sbom where "sbom = archive\<lparr>art_kind := Sbom, art_metadata := [(''id'', ''cli''), (''subject_kind'', ''archive'')]\<rparr>"
  define sig where "sig = sbom\<lparr>art_kind := Signature\<rparr>"
  have "derived_from sig sbom" "derived_from sbom archive"
    by (simp_all add: sig_def sbom_def archive_def derived_from_def is_derived_kind_def subject_verdict_record_def)
  then have "derived_from\<^sup>*\<^sup>* sig archive" by auto
  from derived_artifacts_inherit_verdict [OF this, of "Some [''gui'']"] show ?thesis
    by (simp add: Let_def sig_def sbom_def archive_def)
qed

subsection \<open>Adding to the registry\<close>

abbreviation entry_key :: "artifact \<Rightarrow> artifact_kind \<times> string" where
  "entry_key a \<equiv> (art_kind a, art_path a)"

definition sidecars :: "artifact list \<Rightarrow> artifact list" where
  "sidecars reg = filter (\<lambda>a. is_derived_sidecar_kind (art_kind a)) reg"

definition primaries :: "artifact list \<Rightarrow> artifact list" where
  "primaries reg = filter (\<lambda>a. \<not> is_derived_sidecar_kind (art_kind a)) reg"

lemma same_entry_key: "same_entry a b \<longleftrightarrow> entry_key a = entry_key b"
  by (auto simp: same_entry_def)

lemma absorb_key [simp]: "art_kind (absorb n e) = art_kind e" "art_path (absorb n e) = art_path e"
  by (simp_all add: absorb_def)

lemma update_first_None: "update_first P f xs = None \<longleftrightarrow> (\<forall>x \<in> set xs. \<not> P x)"
  by (induction xs) auto

lemma update_first_Some:
  "update_first P f xs = Some ys \<Longrightarrow> \<exists>us x vs. xs = us @ x # vs \<and> ys = us @ f x # vs \<and> P x \<and> (\<forall>u \<in> set us. \<not> P u)"
proof (induction xs arbitrary: ys)
  case Nil
  then show ?case by simp
next
  case (Cons x xs)
  show ?case
  proof (cases "P x")
    case True
    with Cons.prems show ?thesis by (intro exI [of _ "[]"]) auto
  next
    case False
    with Cons.prems obtain zs where zs: "update_first P f xs = Some zs" "ys = x # zs" by auto
    with Cons.IH obtain us y vs where "xs = us @ y # vs" "zs = us @ f y # vs" "P y" "\<forall>u \<in> set us. \<not> P u" by blast
    with False zs show ?thesis by (intro exI [of _ "x # us"]) auto
  qed
qed

text \<open>The two outcomes of \<open>add\<close>.\<close>

lemma add_artifact_cases:
  obtains (pushed) "fst (add_artifact cwd a reg) = reg @ [stored cwd a]"
      "is_derived_sidecar_kind (art_kind a) \<Longrightarrow> entry_key (stored cwd a) \<notin> entry_key ` set reg"
  | (absorbed) us e vs where "reg = us @ e # vs" "fst (add_artifact cwd a reg) = us @ absorb (stored cwd a) e # vs"
      "is_derived_sidecar_kind (art_kind a)" "entry_key e = entry_key (stored cwd a)"
proof (cases "is_derived_sidecar_kind (art_kind a)")
  case False
  then show ?thesis by (intro pushed) (simp_all add: add_artifact_def stored_def Let_def)
next
  case True
  then have k: "is_derived_sidecar_kind (art_kind (stored cwd a))" by (simp add: stored_def)
  show ?thesis
  proof (cases "update_first (\<lambda>b. same_entry b (stored cwd a)) (absorb (stored cwd a)) reg")
    case None
    with k have "fst (add_artifact cwd a reg) = reg @ [stored cwd a]" by (simp add: add_artifact_def Let_def)
    moreover from None have "entry_key (stored cwd a) \<notin> entry_key ` set reg"
      by (auto simp: update_first_None same_entry_def)
    ultimately show ?thesis by (rule pushed)
  next
    case (Some ys)
    with k have "fst (add_artifact cwd a reg) = ys" by (simp add: add_artifact_def)
    with update_first_Some [OF Some] True show ?thesis
      by (elim exE conjE) (rule absorbed, auto simp: same_entry_def)
  qed
qed

definition register_all :: "string option \<Rightarrow> artifact list \<Rightarrow> artifact list" where
  "register_all cwd as = foldl (\<lambda>r a. fst (add_artifact cwd a r)) [] as"

lemma stored_kind [simp]: "art_kind (stored cwd a) = art_kind a"
  by (simp add: stored_def)

lemma add_artifact_sidecars:
  "distinct (map entry_key (sidecars reg)) \<Longrightarrow> distinct (map entry_key (sidecars (fst (add_artifact cwd a reg))))"
  by (rule add_artifact_cases [of cwd a reg]) (auto simp: sidecars_def)

lemma add_artifact_primaries:
  "primaries (fst (add_artifact cwd a reg)) =
   (if is_derived_sidecar_kind (art_kind a) then primaries reg else primaries reg @ [stored cwd a])"
  by (rule add_artifact_cases [of cwd a reg]) (auto simp: primaries_def)

lemma add_artifact_keys:
  "entry_key ` set (fst (add_artifact cwd a reg)) = insert (entry_key (stored cwd a)) (entry_key ` set reg)"
  by (rule add_artifact_cases [of cwd a reg]) auto

text \<open>
  C17. Whatever is registered, in whatever order: the registry holds at most one entry for a derived sidecar (a
  checksum, signature, certificate or metadata file) at a path, holds every primary artifact ever added, in order and
  with duplicates, and holds an entry for exactly the kinds and stored paths that were added.
\<close>

theorem registry_collapses_only_sidecars:
  "distinct (map entry_key (sidecars (register_all cwd as))) \<and>
   primaries (register_all cwd as) = map (stored cwd) (primaries as) \<and>
   entry_key ` set (register_all cwd as) = (\<lambda>a. entry_key (stored cwd a)) ` set as"
proof (induction as rule: rev_induct)
  case Nil
  then show ?case by (simp add: register_all_def sidecars_def primaries_def)
next
  case (snoc a as)
  have "register_all cwd (as @ [a]) = fst (add_artifact cwd a (register_all cwd as))"
    by (simp add: register_all_def)
  moreover have "primaries (as @ [a]) = primaries as @ (if is_derived_sidecar_kind (art_kind a) then [] else [a])"
    by (simp add: primaries_def)
  ultimately show ?case
    using snoc add_artifact_sidecars add_artifact_primaries add_artifact_keys by auto
qed

subsection \<open>Adding twice\<close>

lemma map_of_merge_metadata:
  "map_of (merge_metadata into new) = map_of into ++ map_of (rev new)"
  unfolding merge_metadata_def
  by (induction new arbitrary: into) (auto simp: map_of_btree_insert)

lemma sorted_merge_metadata:
  "sorted_wrt (<) (map fst into) \<Longrightarrow> sorted_wrt (<) (map fst (merge_metadata into new))"
  unfolding merge_metadata_def
  by (induction new arbitrary: into) (auto simp: sorted_btree_insert)

lemma merge_metadata_again:
  assumes "sorted_wrt (<) (map fst into)"
  shows "merge_metadata (merge_metadata into new) new = merge_metadata into new"
  by (rule btree_canonical)
    (auto simp: sorted_merge_metadata assms map_of_merge_metadata fun_eq_iff map_add_def split: option.splits)

lemma absorb_again:
  "sorted_wrt (<) (map fst (art_metadata e)) \<Longrightarrow> absorb n (absorb n e) = absorb n e"
  by (auto simp: absorb_def merge_metadata_again split: option.splits)

subsection \<open>The manifest\<close>

interpretation component_ord: rust_ord_eq component_cmp
proof -
  have "rust_ord component_cmp"
    unfolding component_cmp_def
    by (intro rust_ord_then rust_ord_on [where k = component_rank] linorder_ord.rust_ord_axioms)
  then show "rust_ord_eq component_cmp"
    by (rule rust_ord_eq.intro) (unfold_locales, auto simp: component_cmp_def ord_simps)
qed

lemma path_cmp_Equal: "path_cmp a b = Equal \<longleftrightarrow> a = b"
  by (auto simp: path_cmp_def component_ord.lex_eq_iff component_ord.eq_iff list.rel_eq dest: split_char_inj)

lemma key_ord: "rust_ord (\<lambda>a b. cmp_of (k a :: 'k::linorder) (k b))"
  by (rule rust_ord_on [OF linorder_ord.rust_ord_axioms])

lemma path_ord: "rust_ord (\<lambda>a b. path_cmp (k a) (k b))"
  unfolding path_cmp_def by (rule rust_ord_on [OF component_ord.rust_ord_lex])

interpretation manifest_ord: rust_ord manifest_cmp
  unfolding manifest_cmp_def by (intro rust_ord_then key_ord path_ord)

definition manifest_key :: "artifact \<Rightarrow> artifact_kind \<times> string \<times> string \<times> string \<times> string" where
  "manifest_key a = (art_kind a, target_key a, art_crate_name a, art_name a, art_path a)"

lemma manifest_cmp_Equal: "manifest_cmp a b = Equal \<longleftrightarrow> manifest_key a = manifest_key b"
  by (simp add: manifest_cmp_def manifest_key_def ord_simps path_cmp_Equal del: kind_str.simps)

text \<open>
  C19. The manifest depends on the artifacts and not on the order in which the stages registered them: two
  registries with the same artifacts, no two of them alike in kind, target, crate, name and path, are written
  identically. The manifest keeps every artifact once.
\<close>

theorem manifest_order_independent:
  assumes "mset reg = mset reg'" and "distinct (map manifest_key reg)"
  shows "to_artifacts_json reg = to_artifacts_json reg' \<and> mset (to_artifacts_json reg) = image_mset to_json_entry (mset reg)"
proof -
  from assms(2) have "x = y" if "x \<in> set reg" "y \<in> set reg" "manifest_cmp x y = Equal" for x y
    using that by (auto simp: manifest_cmp_Equal distinct_map inj_on_def)
  then have "sort_by manifest_cmp reg = sort_by manifest_cmp reg'"
    by (rule manifest_ord.sort_by_unique [OF assms(1)])
  then show ?thesis by (simp add: to_artifacts_json_def assms(1))
qed

theorem manifest_order_independent_witness:
  "let a = \<lparr>art_kind = Archive, art_path = ''dist/a'', art_name = ''a'', art_target = None, art_crate_name = ''x'',
            art_metadata = [], art_size = None\<rparr>;
       b = a\<lparr>art_name := ''b'', art_path := ''dist/b''\<rparr>
   in to_artifacts_json [a, b] = to_artifacts_json [b, a]"
  unfolding Let_def
  by (rule manifest_order_independent [THEN conjunct1]) (simp_all add: manifest_key_def)

lemma serialize_metadata_lookup:
  assumes "sorted_wrt (<) (map fst m)"
  shows "map_of (serialize_metadata_sorted m) k = (if k \<in> set metadata_hash_keys then None else map_of m k)"
proof -
  have merge: "btree_collect kvs = merge_metadata [] kvs" for kvs :: "string btree_map"
    by (simp add: btree_collect_def merge_metadata_def)
  let ?f = "filter (\<lambda>(k, v). k \<notin> set metadata_hash_keys) m"
  have d: "distinct (map fst m)" using assms by (simp add: strict_sorted_iff)
  then have "distinct (map fst ?f)" by (rule distinct_map_filter)
  then have rev: "map_of (rev ?f) = map_of ?f" by (simp add: map_of_inject_set rev_map [symmetric])
  have filt: "map_of ?f k = (if k \<in> set metadata_hash_keys then None else map_of m k)"
    by (induction m) auto
  show ?thesis
    by (simp add: serialize_metadata_sorted_def merge map_of_merge_metadata rev filt)
qed

subsection \<open>Deduplication and grouping\<close>

lemma dedupe_from_targeted:
  "filter (\<lambda>a. art_target a \<noteq> None) (dedupe_from seen reg) = filter (\<lambda>a. art_target a \<noteq> None) reg"
  by (induction seen reg rule: dedupe_from.induct) auto

lemma dedupe_from_paths:
  "art_path ` set (filter (\<lambda>a. art_target a = None) (dedupe_from seen reg)) =
     art_path ` set (filter (\<lambda>a. art_target a = None) reg) - set seen"
  by (induction seen reg rule: dedupe_from.induct) (auto simp del: set_filter)

lemma dedupe_from_distinct:
  "distinct (map art_path (filter (\<lambda>a. art_target a = None) (dedupe_from seen reg)))"
  by (induction seen reg rule: dedupe_from.induct) (simp_all add: dedupe_from_paths del: set_filter)

lemma dedupe_from_subseq: "subseq (dedupe_from seen reg) reg"
  by (induction seen reg rule: dedupe_from.induct) auto

lemmas dedupe_from_spec = dedupe_from_targeted dedupe_from_distinct dedupe_from_paths dedupe_from_subseq

theorem dedupe_keeps_targets:
  "filter (\<lambda>a. art_target a \<noteq> None) (dedupe_targetless_duplicates reg) = filter (\<lambda>a. art_target a \<noteq> None) reg \<and>
   distinct (map art_path (filter (\<lambda>a. art_target a = None) (dedupe_targetless_duplicates reg))) \<and>
   art_path ` set (dedupe_targetless_duplicates reg) = art_path ` set reg \<and>
   subseq (dedupe_targetless_duplicates reg) reg"
proof -
  have split: "set xs = set (filter (\<lambda>a. art_target a \<noteq> None) xs) \<union> set (filter (\<lambda>a. art_target a = None) xs)"
    for xs :: "artifact list" by auto
  show ?thesis
    using dedupe_from_spec [of "[]" reg] split [of "dedupe_from [] reg"] split [of reg]
    unfolding dedupe_targetless_duplicates_def by (metis Diff_empty empty_set image_Un)
qed

lemma first_by_spec:
  "distinct (map key (first_by key seen xs))"
  "key ` set (first_by key seen xs) = key ` set xs - set seen"
proof (induction key seen xs rule: first_by.induct)
  case (2 key seen x xs)
  {
    case 1
    then show ?case using 2 by (cases "key x \<in> set seen") auto
  next
    case 2
    then show ?case using "2.IH" by (cases "key x \<in> set seen") auto
  }
qed simp_all

text \<open>Every pushed image is reported, and each reference once.\<close>

theorem pushed_images_exact:
  "distinct (map pi_reference (pushed_images reg)) \<and>
   pi_reference ` set (pushed_images reg) = art_name ` set (filter is_pushed_image reg)"
  using first_by_spec [of art_name "[]" "filter is_pushed_image reg"]
  by (simp add: pushed_images_def image_image comp_def del: set_filter)

lemma keys_group_insert [simp]: "fst ` set (group_insert k v m) = insert k (fst ` set m)"
  by (induction m) force+

lemma sorted_group_insert:
  "sorted_wrt (<) (map fst m) \<Longrightarrow> sorted_wrt (<) (map fst (group_insert k v m))"
proof (induction m)
  case Nil
  then show ?case by simp
next
  case (Cons kv m)
  obtain k' vs where kv: "kv = (k', vs)" by (cases kv)
  have "\<forall>x \<in> fst ` set (group_insert k v m). k' < x" if "\<not> k < k'" "k \<noteq> k'"
    using that Cons.prems kv by auto
  with Cons kv show ?case by (auto simp: image_iff)
qed

lemma map_of_group_insert:
  "sorted_wrt (<) (map fst m) \<Longrightarrow>
   map_of (group_insert k v m) = (map_of m)(k \<mapsto> (case map_of m k of Some vs \<Rightarrow> vs | None \<Rightarrow> []) @ [v])"
proof (induction m)
  case Nil
  then show ?case by simp
next
  case (Cons kv m)
  obtain k' vs where kv: "kv = (k', vs)" by (cases kv)
  have "map_of m k = None" if "k < k'"
    using that Cons.prems kv by (auto simp: map_of_eq_None_iff image_iff)
  with Cons kv show ?case by (auto simp: fun_eq_iff)
qed

text \<open>
  One group per target and variant, in key order, and each group is the sublist of the binaries that have the key: no
  binary is lost, none is in two groups.
\<close>

theorem group_by_target_variant_exact:
  "sorted_wrt (<) (map fst (group_by_target_variant bs)) \<and>
   map_of (group_by_target_variant bs) k =
     (let g = filter (\<lambda>b. target_variant b = k) bs in if g = [] then None else Some g)"
proof (induction bs arbitrary: k rule: rev_induct)
  case Nil
  then show ?case by (simp add: group_by_target_variant_def)
next
  case (snoc b bs)
  have "group_by_target_variant (bs @ [b]) = group_insert (target_variant b) b (group_by_target_variant bs)"
    by (simp add: group_by_target_variant_def)
  with snoc [of k] snoc [of "target_variant b"] show ?case
    by (auto simp: sorted_group_insert map_of_group_insert Let_def simp del: filter_eq_Cons_iff split: if_splits)
qed

end
