(* ===== verification/RunContext.thy ===== *)
theory RunContext
  imports PublishReport Artifacts
begin

section \<open>The run context and the operator's selection\<close>

text \<open>
  Models the parts of \<open>crates/core/src/context/\<close> the publish pipeline reads and writes:
  the context with its options (\<open>mod.rs\<close>, \<open>options.rs\<close>), the mode predicates
  (\<open>mode.rs\<close>), the single-shot slots a publisher hands its outcome and evidence back through
  and the report slot (\<open>state.rs\<close>), the \<open>--skip\<close>/\<open>--publishers\<close> vocabulary and selection
  (\<open>skip.rs\<close>, \<open>publisher_kind.rs\<close>), the skip memento (\<open>pipe_skip.rs\<close>), and the two
  functions of \<open>publish_report.rs\<close> that take a context: the verify gate's one evaluation and the
  required-failure exit gate.

  A context is polymorphic in \<open>'t\<close>, the contents of a file, and \<open>'w\<close>, the world outside the
  program that publishers act on. The process-wide retry accounting of \<open>core/src/retry\<close>
  is the fields \<open>retry_scopes\<close> (per scope its retries and the nanoseconds of backoff) and
  \<open>retry_total_backoff\<close>. The two type parameters are only ever passed through; JSON and the file system are
  parameters of the functions that use them. Log lines and calls of code outside the model are
  collected as a list of \<open>event\<close>s, newest last, so that theorems can speak of them.
\<close>

datatype event =
    Status string
  | Verbose string
  | WarnLine string
  | ErrorLine string
  | EnterRetryScope string
  | CallReconcile string publisher_group
  | CallRun string publisher_group
  | CallVerifyGate
  | CallRollback string
  | Recorded publisher_result
  | FireOnRollback string publisher_group bool bool string string

subsection \<open>The publisher vocabulary\<close>

datatype publisher_kind =
    KCargo | KDockerhub | KArtifactory | KUploads | KCloudsmith | KGithubRelease | KHomebrew | KScoop
  | KNix | KMcp | KAur | KKrew | KSchemastore | KNpm | KGemfury | KPypi | KHomebrewCore | KChocolatey
  | KWinget | KUpstreamAur | KBlob | KSnapcraftPublish | KDocker | KDockerSign | KAnnounce

fun kind_token :: "publisher_kind \<Rightarrow> string" where
  "kind_token KCargo = ''cargo''"
| "kind_token KDockerhub = ''dockerhub''"
| "kind_token KArtifactory = ''artifactory''"
| "kind_token KCloudsmith = ''cloudsmith''"
| "kind_token KUploads = ''uploads''"
| "kind_token KGithubRelease = ''github-release''"
| "kind_token KHomebrew = ''homebrew''"
| "kind_token KScoop = ''scoop''"
| "kind_token KNix = ''nix''"
| "kind_token KMcp = ''mcp''"
| "kind_token KAur = ''aur''"
| "kind_token KKrew = ''krew''"
| "kind_token KSchemastore = ''schemastore''"
| "kind_token KNpm = ''npm''"
| "kind_token KGemfury = ''gemfury''"
| "kind_token KPypi = ''pypi''"
| "kind_token KHomebrewCore = ''homebrew-core''"
| "kind_token KChocolatey = ''chocolatey''"
| "kind_token KWinget = ''winget''"
| "kind_token KUpstreamAur = ''upstream-aur''"
| "kind_token KBlob = ''blob''"
| "kind_token KSnapcraftPublish = ''snapcraft-publish''"
| "kind_token KDocker = ''docker''"
| "kind_token KDockerSign = ''docker-sign''"
| "kind_token KAnnounce = ''announce''"

definition all_kinds :: "publisher_kind list" where
  "all_kinds =
     [KCargo, KDockerhub, KArtifactory, KUploads, KCloudsmith, KGithubRelease, KHomebrew, KScoop,
      KNix, KMcp, KAur, KKrew, KSchemastore, KNpm, KGemfury, KPypi, KHomebrewCore, KChocolatey,
      KWinget, KUpstreamAur, KBlob, KSnapcraftPublish, KDocker, KDockerSign, KAnnounce]"

fun carries_os_packages :: "publisher_kind \<Rightarrow> bool" where
  "carries_os_packages KArtifactory = True"
| "carries_os_packages KUploads = True"
| "carries_os_packages KCloudsmith = True"
| "carries_os_packages KGithubRelease = True"
| "carries_os_packages KGemfury = True"
| "carries_os_packages KBlob = True"
| "carries_os_packages _ = False"

fun is_publish_stage :: "publisher_kind \<Rightarrow> bool" where
  "is_publish_stage KBlob = True"
| "is_publish_stage KSnapcraftPublish = True"
| "is_publish_stage KDocker = True"
| "is_publish_stage KDockerSign = True"
| "is_publish_stage KAnnounce = True"
| "is_publish_stage _ = False"

subsection \<open>The \<open>--skip\<close> vocabulary\<close>

definition root_hook_lane_skips :: "string list" where
  "root_hook_lane_skips = [''before'', ''after'', ''always'', ''on-error'']"

definition non_publisher_release_skips :: "string list" where
  "non_publisher_release_skips =
     [''preflight'', ''publish'', ''sign'', ''validate'', ''sbom'', ''attest'', ''snapcraft'', ''nfpm'',
      ''makeself'', ''install-script'', ''appimage'', ''flatpak'', ''srpm'', ''before-publish'',
      ''notarize'', ''archive'', ''source'', ''build'', ''changelog'', ''release'', ''checksum'', ''upx'',
      ''templatefiles'', ''dmg'', ''msi'', ''nsis'', ''pkg'', ''appbundle'', ''verify-release'']"

definition valid_release_skips :: "string list" where
  "valid_release_skips = root_hook_lane_skips @ non_publisher_release_skips @ map kind_token all_kinds"

record release_token =
  rt_token :: string
  rt_is_publisher :: bool
  rt_is_publish_stage :: bool

definition release_skip_vocabulary :: "release_token list" where
  "release_skip_vocabulary =
     map (\<lambda>token. \<lparr>rt_token = token, rt_is_publisher = False, rt_is_publish_stage = False\<rparr>)
       (root_hook_lane_skips @ non_publisher_release_skips)
     @ map (\<lambda>k. \<lparr>rt_token = kind_token k, rt_is_publisher = True, rt_is_publish_stage = is_publish_stage k\<rparr>)
       all_kinds"

definition non_lane_build_skips :: "string list" where
  "non_lane_build_skips = [''validate'', ''sign'', ''notarize'']"

definition valid_build_skips :: "string list" where
  "valid_build_skips = root_hook_lane_skips @ non_lane_build_skips"

text \<open>\<open>HashSet::insert\<close> answers whether the element was new; the filter keeps first occurrences.\<close>

fun dedup_from :: "string set \<Rightarrow> string list \<Rightarrow> string list" where
  "dedup_from seen [] = []"
| "dedup_from seen (s # ss) =
     (if s \<in> seen then dedup_from seen ss else s # dedup_from (insert s seen) ss)"

definition dedup_preserving_order :: "string list \<Rightarrow> string list" where
  "dedup_preserving_order items = dedup_from {} items"

definition validate_skip_values :: "string list \<Rightarrow> string list \<Rightarrow> (string, unit) result" where
  "validate_skip_values skip valid =
     (let invalid = dedup_preserving_order (filter (\<lambda>s. s \<notin> set valid) skip)
      in if invalid = [] then Inr ()
         else Inl (count_noun (length invalid) ''invalid --skip value'' ''invalid --skip values'' @ '': ''
               @ join_with '', '' invalid @ ''. Valid options: ''
               @ join_with '', '' (dedup_preserving_order valid)))"

subsection \<open>The context\<close>

record context_options =
  dry_run :: bool
  snapshot :: bool
  nightly :: bool
  strict :: bool
  publish_only :: bool
  partial_target :: "string option"
  single_target :: "string option"
  skip_stages :: "string list"
  publisher_allowlist :: "string list"
  simulate_failure_publishers :: "string list"
  summary_json_path :: "string option"
  runtime_nondeterministic_allowlist :: "(string \<times> string) list"

record determinism_state =
  compile_time_allowlist :: "(string \<times> string) list"
  runtime_allowlist :: "(string \<times> string) list"

record git_info =
  gi_tag :: string
  gi_short_commit :: string

record skip_event =
  se_stage :: string
  se_label :: string
  se_reason :: string

type_synonym 't fs = "string \<Rightarrow> 't option"

record ('t, 'w) run_context =
  options :: context_options
  preflight_strict :: bool
  render_strict :: bool
  dist :: string
  git_info :: "git_info option"
  template_vars :: "string btree_map"
  artifacts :: "artifact list"
  skip_memento :: "skip_event list"
  publish_report :: "publish_report option"
  publish_attempted :: bool
  verify_release_issues :: "string list option"
  determinism :: "determinism_state option"
  retry_scopes :: "(string \<times> nat \<times> nat) list"
  retry_total_backoff :: nat
  pending_outcome :: "publisher_outcome option"
  pending_evidence :: "publish_evidence option"
  env :: "string \<Rightarrow> string option"
  files :: "'t fs"
  world :: 'w

subsection \<open>Mode predicates\<close>

definition is_dry_run :: "('t, 'w) run_context \<Rightarrow> bool" where
  "is_dry_run ctx = dry_run (options ctx)"

definition is_snapshot :: "('t, 'w) run_context \<Rightarrow> bool" where
  "is_snapshot ctx = snapshot (options ctx)"

definition is_nightly :: "('t, 'w) run_context \<Rightarrow> bool" where
  "is_nightly ctx = nightly (options ctx)"

definition is_target_restricted_build :: "('t, 'w) run_context \<Rightarrow> bool" where
  "is_target_restricted_build ctx \<longleftrightarrow>
     partial_target (options ctx) \<noteq> None \<or> single_target (options ctx) \<noteq> None"

definition preflight_is_strict :: "('t, 'w) run_context \<Rightarrow> bool" where
  "preflight_is_strict ctx \<longleftrightarrow> strict (options ctx) \<or> preflight_strict ctx"

definition set_render_strict :: "bool \<Rightarrow> ('t, 'w) run_context \<Rightarrow> bool \<times> ('t, 'w) run_context" where
  "set_render_strict on ctx = (render_strict ctx, ctx\<lparr>render_strict := on\<rparr>)"

definition render_is_strict :: "('t, 'w) run_context \<Rightarrow> bool" where
  "render_is_strict ctx \<longleftrightarrow> render_strict ctx \<or> strict (options ctx)"

definition strict_guard :: "('t, 'w) run_context \<Rightarrow> string \<Rightarrow> (string, event list) result" where
  "strict_guard ctx msg =
     (if strict (options ctx) then Inl (msg @ '' (strict mode)'') else Inr [WarnLine msg])"

definition skip_in_snapshot :: "('t, 'w) run_context \<Rightarrow> string \<Rightarrow> bool \<times> event list" where
  "skip_in_snapshot ctx stage =
     (if is_snapshot ctx
      then (True, [Status (''skipped '' @ stage @ '' '' @ em_dash @ '' snapshot mode'')])
      else (False, []))"

subsection \<open>Single-shot slots and the report slot\<close>

definition record_publisher_outcome :: "publisher_outcome \<Rightarrow> ('t, 'w) run_context \<Rightarrow> ('t, 'w) run_context" where
  "record_publisher_outcome outcome ctx = ctx\<lparr>pending_outcome := Some outcome\<rparr>"

definition take_pending_outcome :: "('t, 'w) run_context \<Rightarrow> publisher_outcome option \<times> ('t, 'w) run_context" where
  "take_pending_outcome ctx = (pending_outcome ctx, ctx\<lparr>pending_outcome := None\<rparr>)"

definition record_pending_evidence :: "publish_evidence \<Rightarrow> ('t, 'w) run_context \<Rightarrow> ('t, 'w) run_context" where
  "record_pending_evidence evidence ctx = ctx\<lparr>pending_evidence := Some evidence\<rparr>"

definition record_committed_work :: "publish_evidence \<Rightarrow> ('t, 'w) run_context \<Rightarrow> ('t, 'w) run_context" where
  "record_committed_work fragment ctx =
     (case pending_evidence ctx of
        None \<Rightarrow> ctx\<lparr>pending_evidence := Some fragment\<rparr>
      | Some pending \<Rightarrow>
          (let (pending', absorbed) = absorb_prior pending fragment
           in if absorbed then ctx\<lparr>pending_evidence := Some pending'\<rparr>
              else ctx\<lparr>pending_evidence := Some fragment\<rparr>))"

definition amend_committed_work ::
    "(publish_evidence \<Rightarrow> publish_evidence) \<Rightarrow> ('t, 'w) run_context \<Rightarrow> ('t, 'w) run_context" where
  "amend_committed_work amend ctx = ctx\<lparr>pending_evidence := map_option amend (pending_evidence ctx)\<rparr>"

definition take_pending_evidence :: "('t, 'w) run_context \<Rightarrow> publish_evidence option \<times> ('t, 'w) run_context" where
  "take_pending_evidence ctx = (pending_evidence ctx, ctx\<lparr>pending_evidence := None\<rparr>)"

definition set_publish_attempted :: "('t, 'w) run_context \<Rightarrow> ('t, 'w) run_context" where
  "set_publish_attempted ctx = ctx\<lparr>publish_attempted := True\<rparr>"

definition set_publish_report :: "publish_report \<Rightarrow> ('t, 'w) run_context \<Rightarrow> ('t, 'w) run_context" where
  "set_publish_report r ctx = ctx\<lparr>publish_report := Some r\<rparr>"

text \<open>\<open>SkipMemento\<close>: a list of events without duplicates, in insertion order.\<close>

definition remember :: "string \<Rightarrow> string \<Rightarrow> string \<Rightarrow> skip_event list \<Rightarrow> skip_event list" where
  "remember stage label reason memento =
     (let ev = \<lparr>se_stage = stage, se_label = label, se_reason = reason\<rparr>
      in if ev \<in> set memento then memento else memento @ [ev])"

definition drain :: "skip_event list \<Rightarrow> skip_event list \<times> skip_event list" where
  "drain memento = (memento, [])"

definition remember_skip :: "string \<Rightarrow> string \<Rightarrow> string \<Rightarrow> ('t, 'w) run_context \<Rightarrow> ('t, 'w) run_context" where
  "remember_skip stage label reason ctx =
     ctx\<lparr>skip_memento := remember stage label reason (skip_memento ctx)\<rparr>"

subsection \<open>Operator selection\<close>

definition should_skip :: "('t, 'w) run_context \<Rightarrow> string \<Rightarrow> bool" where
  "should_skip ctx stage_name = list_ex (\<lambda>s. s = stage_name) (skip_stages (options ctx))"

definition publisher_deselected :: "('t, 'w) run_context \<Rightarrow> string \<Rightarrow> bool" where
  "publisher_deselected ctx name \<longleftrightarrow>
     should_skip ctx name
     \<or> (publisher_allowlist (options ctx) \<noteq> []
        \<and> \<not> list_ex (\<lambda>s. s = name) (publisher_allowlist (options ctx)))"

definition any_publisher_selected :: "('t, 'w) run_context \<Rightarrow> string list \<Rightarrow> bool" where
  "any_publisher_selected ctx names = list_ex (\<lambda>n. \<not> publisher_deselected ctx n) names"

definition deselected_reason :: "('t, 'w) run_context \<Rightarrow> string \<Rightarrow> string" where
  "deselected_reason ctx name =
     ''skipped '' @ name @ '' '' @ em_dash @ '' ''
       @ (if should_skip ctx name then ''excluded via --skip'' else ''not in --publishers allowlist'')"

definition skip_validate :: "('t, 'w) run_context \<Rightarrow> bool" where
  "skip_validate ctx = should_skip ctx ''validate''"

subsection \<open>The verify gate and the exit gate\<close>

type_synonym ('t, 'w) verify_gate = "('t, 'w) run_context \<Rightarrow> (string, bool) result \<times> ('t, 'w) run_context"

definition ensure_verify_gate_evaluated ::
    "('t, 'w) verify_gate option \<Rightarrow> ('t, 'w) run_context \<Rightarrow> publish_report
      \<Rightarrow> ('t, 'w) run_context \<times> publish_report \<times> event list" where
  "ensure_verify_gate_evaluated gate_opt ctx report =
     (if verify_gate_evaluated report then (ctx, report, [])
      else let report = report\<lparr>verify_gate_evaluated := True\<rparr>
           in case gate_opt of
                None \<Rightarrow> (ctx, report, [])
              | Some gate \<Rightarrow>
                  (let (answer, ctx) = gate ctx;
                       passed = (case answer of Inr p \<Rightarrow> p | Inl _ \<Rightarrow> False);
                       said = (case answer of
                            Inr _ \<Rightarrow> []
                          | Inl err \<Rightarrow> [Status (''verify-release gate check failed: '' @ err @ '' ''
                              @ em_dash @ '' blocking one-way-door publishers'')])
                   in if passed then (ctx, report, CallVerifyGate # said)
                      else (ctx, report\<lparr>verify_gate_blocked := True\<rparr>,
                            CallVerifyGate # said
                            @ [Status (''one-way-door publishers blocked '' @ em_dash
                                @ '' verify-release did not pass against the published release'')])))"

definition gate_required_failures :: "('t, 'w) run_context \<Rightarrow> string \<Rightarrow> (string, unit) result" where
  "gate_required_failures ctx ran_context =
     (if is_snapshot ctx \<or> is_dry_run ctx then Inr ()
      else case publish_report ctx of
        None \<Rightarrow> Inr ()
      | Some report \<Rightarrow>
          (let failed = required_failure_names report
           in if failed \<noteq> []
              then Inl (count_noun (length failed) ''required publisher'' ''required publishers''
                     @ '' failed: '' @ join_with '', '' failed @ ''. '' @ ran_context
                     @ '' Inspect dist/run-<id>/report.json for details; re-run the same release command to converge, or `anodizer tag rollback` to withdraw the release deliberately.'')
              else let blocked = required_gate_blocked_names report
                   in if blocked \<noteq> []
                      then Inl (count_noun (length blocked) ''required publisher was'' ''required publishers were''
                             @ '' blocked by the pre-submitter verify-release gate and never attempted to publish: ''
                             @ join_with '', '' blocked @ ''. '' @ ran_context
                             @ '' The post-publish content check did not clear before these one-way-door publishers could run; inspect the verify-release stage log and re-run once the underlying issue is fixed.'')
                      else Inr ()))"

section \<open>Properties\<close>

lemmas ctx_defs = is_dry_run_def is_snapshot_def is_nightly_def

subsection \<open>Vocabulary\<close>

lemma all_kinds_complete: "k \<in> set all_kinds"
  by (cases k) (simp_all add: all_kinds_def)

lemma kind_token_inj: "kind_token a = kind_token b \<longleftrightarrow> a = b"
  by (cases a; cases b) simp_all

lemma distinct_all_kinds: "distinct all_kinds"
  by (simp add: all_kinds_def)

lemma distinct_tokens: "distinct (map kind_token all_kinds)"
  by (simp add: distinct_map distinct_all_kinds inj_on_def kind_token_inj)

lemma distinct_stage_skips: "distinct (root_hook_lane_skips @ non_publisher_release_skips)"
  by (simp add: root_hook_lane_skips_def non_publisher_release_skips_def)

lemma stage_skip_not_token:
  "kind_token k \<notin> set (root_hook_lane_skips @ non_publisher_release_skips)"
  by (cases k) (simp_all add: root_hook_lane_skips_def non_publisher_release_skips_def)

lemma set_dedup_from: "set (dedup_from seen xs) = set xs - seen"
  by (induction xs arbitrary: seen) auto

lemma distinct_dedup_from: "distinct (dedup_from seen xs)"
  by (induction xs arbitrary: seen) (auto simp: set_dedup_from)

lemma subseq_dedup_from: "subseq (dedup_from seen xs) xs"
  by (induction xs arbitrary: seen) auto

lemma dedup_preserving_order_spec:
  "set (dedup_preserving_order xs) = set xs" "distinct (dedup_preserving_order xs)"
  "subseq (dedup_preserving_order xs) xs"
  by (simp_all add: dedup_preserving_order_def set_dedup_from distinct_dedup_from subseq_dedup_from)

lemma dedup_Nil_iff [simp]: "dedup_preserving_order xs = [] \<longleftrightarrow> xs = []"
  by (metis dedup_preserving_order_spec(1) set_empty)

text \<open>
  The \<open>--skip\<close> vocabulary is one list: no token occurs twice, the structured vocabulary
  lists exactly its tokens in its order, exactly the publisher tokens are marked as publishers,
  every publisher has its own token, and \<open>build\<close>'s vocabulary is a part of \<open>release\<close>'s.
  A list of skip values is accepted exactly when each is in the given vocabulary.
\<close>
theorem skip_vocabulary_coherent:
  "distinct valid_release_skips
   \<and> map rt_token release_skip_vocabulary = valid_release_skips
   \<and> (\<forall>t. t \<in> rt_token ` {x \<in> set release_skip_vocabulary. rt_is_publisher x} \<longleftrightarrow> (\<exists>k. t = kind_token k))
   \<and> set valid_build_skips \<subseteq> set valid_release_skips
   \<and> (validate_skip_values skip valid = Inr () \<longleftrightarrow> set skip \<subseteq> set valid)"
proof (intro conjI)
  show "distinct valid_release_skips"
    using distinct_stage_skips distinct_tokens stage_skip_not_token
    by (auto simp: valid_release_skips_def)
  show "map rt_token release_skip_vocabulary = valid_release_skips"
    by (simp add: release_skip_vocabulary_def valid_release_skips_def o_def)
  show "\<forall>t. t \<in> rt_token ` {x \<in> set release_skip_vocabulary. rt_is_publisher x} \<longleftrightarrow> (\<exists>k. t = kind_token k)"
    using all_kinds_complete by (force simp: release_skip_vocabulary_def)
  show "set valid_build_skips \<subseteq> set valid_release_skips"
    by (auto simp: valid_build_skips_def valid_release_skips_def non_lane_build_skips_def
        non_publisher_release_skips_def)
  show "validate_skip_values skip valid = Inr () \<longleftrightarrow> set skip \<subseteq> set valid"
    by (auto simp: validate_skip_values_def Let_def filter_empty_conv)
qed

subsection \<open>Selection\<close>

lemma should_skip_iff: "should_skip ctx s \<longleftrightarrow> s \<in> set (skip_stages (options ctx))"
  by (auto simp: should_skip_def list_ex_iff)

lemma publisher_deselected_iff:
  "publisher_deselected ctx n \<longleftrightarrow>
     n \<in> set (skip_stages (options ctx))
     \<or> (publisher_allowlist (options ctx) \<noteq> [] \<and> n \<notin> set (publisher_allowlist (options ctx)))"
  by (auto simp: publisher_deselected_def should_skip_iff list_ex_iff)

lemma deselected_cong: "options a = options b \<Longrightarrow> publisher_deselected a n = publisher_deselected b n"
  by (simp add: publisher_deselected_iff)

subsection \<open>Committed work\<close>

lemma pending_record_committed_work:
  "pending_evidence (record_committed_work fragment ctx) =
     (case pending_evidence ctx of
        None \<Rightarrow> Some fragment
      | Some pending \<Rightarrow> (case absorb_prior pending fragment of
          (pending', True) \<Rightarrow> Some pending' | (_, False) \<Rightarrow> Some fragment))"
  by (auto simp: record_committed_work_def split: option.split prod.split)

lemma committed_work_accumulates:
  assumes "pending_evidence ctx = Some e"
    and "\<And>f. f \<in> set fragments \<Longrightarrow> absorb_extra (extra e) (extra f) \<noteq> None"
  shows "\<exists>e'. pending_evidence (fold record_committed_work fragments ctx) = Some e'
     \<and> work_items (extra e') = work_items (extra e) \<union> (\<Union>f \<in> set fragments. work_items (extra f))"
  using assms
proof (induction fragments arbitrary: ctx e)
  case (Cons f fs)
  obtain e1 j where abs: "absorb_prior e f = (e1, j)" by (cases "absorb_prior e f")
  have j: j
  proof (rule ccontr)
    assume "\<not> j"
    then have "absorb_extra (extra e) (extra f) = None" using abs by (auto dest: absorb_prior_fails)
    with Cons.prems(2) [of f] show False by simp
  qed
  with abs have abs: "absorb_prior e f = (e1, True)" by simp
  have "pending_evidence (record_committed_work f ctx) = Some e1"
    by (simp add: pending_record_committed_work Cons.prems(1) abs)
  moreover have "absorb_extra (extra e1) (extra g) \<noteq> None" if "g \<in> set fs" for g
    using absorb_prior_kind [OF abs] Cons.prems(2) that by simp
  ultimately obtain e' where "pending_evidence (fold record_committed_work fs (record_committed_work f ctx)) = Some e'"
    and "work_items (extra e') = work_items (extra e1) \<union> (\<Union>f \<in> set fs. work_items (extra f))"
    using Cons.IH [of "record_committed_work f ctx" e1] by blast
  moreover have "work_items (extra e1) = work_items (extra e) \<union> work_items (extra f)"
    by (simp add: work_items_def absorb_prior_items [OF abs])
  ultimately show ?case by auto
qed simp

text \<open>
  A publisher that commits its work piece by piece loses none of it: starting from an empty
  slot, after any sequence of fragments of one evidence kind the pending evidence names exactly
  the items of all fragments, so a run that fails half-way hands the withdrawal the whole record.
\<close>
theorem committed_work_complete:
  assumes "pending_evidence ctx = None"
    and "\<forall>f \<in> set fragments. absorb_extra (extra first) (extra f) \<noteq> None"
  shows "\<exists>e. fst (take_pending_evidence (fold record_committed_work (first # fragments) ctx)) = Some e
     \<and> work_items (extra e) = (\<Union>f \<in> set (first # fragments). work_items (extra f))"
proof -
  have "pending_evidence (record_committed_work first ctx) = Some first"
    by (simp add: pending_record_committed_work assms(1))
  from committed_work_accumulates [OF this, of fragments] assms(2) show ?thesis
    by (auto simp: take_pending_evidence_def)
qed

definition test_options :: context_options where
  "test_options = \<lparr>dry_run = False, snapshot = False, nightly = False, strict = False, publish_only = False,
     partial_target = None, single_target = None, skip_stages = [], publisher_allowlist = [],
     simulate_failure_publishers = [], summary_json_path = None,
     runtime_nondeterministic_allowlist = []\<rparr>"

definition test_context :: "('t, unit) run_context" where
  "test_context = \<lparr>options = test_options, preflight_strict = False, render_strict = False, dist = ''dist'',
     git_info = None, template_vars = [], artifacts = [], skip_memento = [], publish_report = None,
     publish_attempted = False, verify_release_issues = None, determinism = None, retry_scopes = [],
     retry_total_backoff = 0, pending_outcome = None, pending_evidence = None, env = (\<lambda>_. None),
     files = (\<lambda>_. None), world = ()\<rparr>"

definition npm_pkg :: "string \<Rightarrow> npm_target" where
  "npm_pkg name = \<lparr>np_target = ''npm'', np_package = name, np_version = ''1.2.0'', np_registry = ''https://registry.npmjs.org'',
     np_dist_tag = ''latest'', np_token_env_var = ''NPM_TOKEN''\<rparr>"

theorem committed_work_complete_witness:
  "let tap = (\<lambda>n. (new_evidence ''npm'')\<lparr>extra := Npm [n]\<rparr>)
   in \<exists>e. fst (take_pending_evidence (fold record_committed_work
          [tap (npm_pkg ''demo''), tap (npm_pkg ''demo-cli'')] (test_context :: (string, unit) run_context))) = Some e
        \<and> work_items (extra e) = (\<Union>f \<in> set [tap (npm_pkg ''demo''), tap (npm_pkg ''demo-cli'')]. work_items (extra f))"
  unfolding Let_def
  by (rule committed_work_complete) (simp_all add: test_context_def new_evidence_def)

subsection \<open>The gates\<close>

text \<open>The three ways a call of \<open>ensure_verify_gate_evaluated\<close> goes.\<close>

lemma ensure_verify_gate_cases [consumes 1, case_names evaluated no_gate asked]:
  assumes "ensure_verify_gate_evaluated g ctx report = (ctx', report', evs)"
  obtains "verify_gate_evaluated report" "ctx' = ctx" "report' = report" "evs = []"
  | "\<not> verify_gate_evaluated report" "g = None" "ctx' = ctx" "evs = []"
      "report' = report\<lparr>verify_gate_evaluated := True\<rparr>"
  | gate answer lines where "\<not> verify_gate_evaluated report" "g = Some gate" "gate ctx = (answer, ctx')"
      "evs = CallVerifyGate # map Status lines"
      "report' = report\<lparr>verify_gate_evaluated := True,
         verify_gate_blocked := (verify_gate_blocked report \<or> answer \<noteq> Inr True)\<rparr>"
proof (cases "verify_gate_evaluated report")
  case True
  with assms have "ctx' = ctx" "report' = report" "evs = []"
    by (simp_all add: ensure_verify_gate_evaluated_def)
  with True show ?thesis by (rule that(1))
next
  case False
  show ?thesis
  proof (cases g)
    case None
    with assms False have "ctx' = ctx" "evs = []" "report' = report\<lparr>verify_gate_evaluated := True\<rparr>"
      by (simp_all add: ensure_verify_gate_evaluated_def)
    with False None show ?thesis by (rule that(2))
  next
    case (Some gate)
    obtain answer c where gate: "gate ctx = (answer, c)" by (cases "gate ctx")
    have id: "report\<lparr>verify_gate_evaluated := True, verify_gate_blocked := verify_gate_blocked report\<rparr>
        = report\<lparr>verify_gate_evaluated := True\<rparr>" by simp
    have "\<exists>lines. evs = CallVerifyGate # map Status lines \<and> c = ctx' \<and> report' = report\<lparr>verify_gate_evaluated := True,
         verify_gate_blocked := (verify_gate_blocked report \<or> answer \<noteq> Inr True)\<rparr>"
    proof (cases answer)
      case (Inl err)
      with assms False Some gate show ?thesis
        by (auto simp: ensure_verify_gate_evaluated_def intro: exI [where x = "[a, b]" for a b])
    next
      case (Inr p)
      with assms False Some gate show ?thesis
        by (cases p) (auto simp: ensure_verify_gate_evaluated_def id intro: exI [where x = "[a]" for a])
    qed
    with False Some gate that(3) show ?thesis by blast
  qed
qed

lemma verify_gate_keeps:
  assumes "ensure_verify_gate_evaluated g ctx report = (ctx', report', evs)"
  shows "results report' = results report" "submitter_gated report' = submitter_gated report"
    "carried_forward report' = carried_forward report" "announce_gated report' = announce_gated report"
    "verify_gate_blocked report \<Longrightarrow> verify_gate_blocked report'" "verify_gate_evaluated report'"
  using assms by (cases rule: ensure_verify_gate_cases; simp)+

lemma verify_gate_events:
  assumes "ensure_verify_gate_evaluated g ctx report = (ctx', report', evs)"
  shows "CallVerifyGate \<in> set evs \<Longrightarrow> \<not> verify_gate_evaluated report"
    "CallRun n gr \<notin> set evs" "CallReconcile n gr \<notin> set evs" "Recorded r \<notin> set evs"
  using assms by (cases rule: ensure_verify_gate_cases; auto)+

text \<open>
  The verify gate is consulted at most once per release: a call on a report whose gate was
  already evaluated changes nothing and asks nothing, every call leaves the report evaluated, and
  one-way doors are newly blocked exactly when an installed gate was asked and did not answer
  \<open>Ok(true)\<close> -- a gate that fails with an error blocks.
\<close>
theorem verify_gate_at_most_once:
  assumes "ensure_verify_gate_evaluated g ctx report = (ctx', report', evs)"
  shows "verify_gate_evaluated report'
     \<and> ensure_verify_gate_evaluated g2 ctx2 report' = (ctx2, report', [])
     \<and> (verify_gate_blocked report' \<longleftrightarrow>
          verify_gate_blocked report
          \<or> (\<not> verify_gate_evaluated report \<and> (\<exists>gate. g = Some gate \<and> fst (gate ctx) \<noteq> Inr True)))"
  using assms
  by (cases rule: ensure_verify_gate_cases) (auto simp: ensure_verify_gate_evaluated_def)

theorem verify_gate_at_most_once_witness:
  "let gate = (\<lambda>ctx :: (string, unit) run_context. (Inl ''HTTP 502'', ctx));
       (ctx', report', evs) = ensure_verify_gate_evaluated (Some gate) test_context default_report
   in verify_gate_blocked report' \<and> ensure_verify_gate_evaluated (Some gate) ctx' report' = (ctx', report', [])"
proof -
  let ?gate = "\<lambda>ctx :: (string, unit) run_context. (Inl ''HTTP 502'' :: (string, bool) result, ctx)"
  obtain ctx' report' evs
    where eq: "ensure_verify_gate_evaluated (Some ?gate) test_context default_report = (ctx', report', evs)"
    by (metis prod_cases3)
  from verify_gate_at_most_once [OF this, of "Some ?gate" ctx']
  have "verify_gate_blocked report' \<and> ensure_verify_gate_evaluated (Some ?gate) ctx' report' = (ctx', report', [])"
    by (simp add: default_report_def)
  then show ?thesis by (simp add: eq Let_def)
qed

text \<open>
  C39. The exit gate lets a run pass exactly when it was a preview (snapshot or dry-run), when no
  report exists, or when no required publisher failed, none was left half-published by a failed
  withdrawal, and none was held back by the verify gate.
\<close>
theorem gate_required_failures_exact:
  "gate_required_failures ctx ran_context = Inr () \<longleftrightarrow>
     is_snapshot ctx \<or> is_dry_run ctx
     \<or> (case publish_report ctx of
          None \<Rightarrow> True
        | Some report \<Rightarrow> (\<forall>r \<in> set (results report). res_required r \<longrightarrow>
            (\<forall>msg. res_outcome r \<noteq> Failed msg \<and> res_outcome r \<noteq> RollbackFailed msg)
            \<and> res_outcome r \<noteq> Skipped VerifyGateBlocked))"
proof -
  have is_fail: "is_required_release_failure oc \<longleftrightarrow> (\<exists>msg. oc = Failed msg \<or> oc = RollbackFailed msg)" for oc
    by (cases oc) simp_all
  show ?thesis
  proof (cases "publish_report ctx")
    case None
    then show ?thesis by (simp add: gate_required_failures_def)
  next
    case (Some report)
    then show ?thesis
      by (simp add: gate_required_failures_def Let_def required_failure_names_def
        required_gate_blocked_names_def filter_empty_conv is_fail) blast
  qed
qed

theorem gate_required_failures_exact_witness:
  "\<exists>row. res_outcome row = Skipped VerifyGateBlocked \<and>
     \<not> is_ok (gate_required_failures
       ((test_context :: (string, unit) run_context)\<lparr>publish_report := Some (default_report\<lparr>results := [row]\<rparr>)\<rparr>)
       ''The pipeline ran.'')"
proof -
  let ?row = "\<lparr>res_name = ''cargo'', res_group = Submitter, res_required = True,
    res_outcome = Skipped VerifyGateBlocked, res_evidence = None, res_entry_skips = []\<rparr>"
  let ?ctx = "(test_context :: (string, unit) run_context)\<lparr>publish_report := Some (default_report\<lparr>results := [?row]\<rparr>)\<rparr>"
  have "gate_required_failures ?ctx ''The pipeline ran.'' \<noteq> Inr ()"
    by (subst gate_required_failures_exact) (simp add: test_context_def test_options_def ctx_defs)
  then have "\<not> is_ok (gate_required_failures ?ctx ''The pipeline ran.'')"
    by (cases "gate_required_failures ?ctx ''The pipeline ran.''") simp_all
  then show ?thesis by (intro exI [of _ ?row]) simp
qed

end
