(* ===== verification/Publisher.thy ===== *)
theory Publisher
  imports RunContext
begin

section \<open>The publisher contract\<close>

text \<open>
  Models \<open>crates/core/src/publisher.rs\<close>: the pre-flight verdict and its fold, the reconcile
  state, the trait (a record of functions, with the trait's default methods as definitions), the
  rollback-scope check with the GitHub token ladder of \<open>core/src/git/github_api.rs\<close>, and from
  \<open>stage-publish\<close> the group order of \<open>registry.rs\<close>, the skip-label ownership of
  \<open>publisher_helpers.rs\<close> and the scope warning of \<open>scope.rs\<close>. The registries a publisher talks
  to are behind its \<open>run\<close>, \<open>reconcile\<close> and \<open>rollback\<close> functions, which may change the
  context in any way the trait's \<open>&mut Context\<close> allows.
\<close>

subsection \<open>Pre-flight verdicts\<close>

datatype preflight_check = Pass | PWarning string | PBlocker string

fun merge :: "preflight_check \<Rightarrow> preflight_check \<Rightarrow> preflight_check" where
  "merge (PBlocker m) _ = PBlocker m"
| "merge _ (PBlocker m) = PBlocker m"
| "merge (PWarning m) _ = PWarning m"
| "merge _ (PWarning m) = PWarning m"
| "merge Pass Pass = Pass"

datatype reconcile_state = Absent | Complete string | Diverged string | Unknown string

subsection \<open>Rollback credentials\<close>

definition github_token_env_ladder :: "string list" where
  "github_token_env_ladder = [''ANODIZER_GITHUB_TOKEN'', ''GITHUB_TOKEN'', ''GH_TOKEN'']"

definition non_blank_token :: "string \<Rightarrow> string option" where
  "non_blank_token v = (let trimmed = trim v in if trimmed = [] then None else Some trimmed)"

definition resolve_github_token_with_env ::
    "string option \<Rightarrow> (string \<Rightarrow> string option) \<Rightarrow> string option" where
  "resolve_github_token_with_env explicit environ =
     foldl (\<lambda>acc var. case acc of Some t \<Rightarrow> Some t | None \<Rightarrow> Option.bind (environ var) non_blank_token)
       (Option.bind explicit non_blank_token) github_token_env_ladder"

text \<open>\<open>label.split_once(' ')\<close>, first half, or the whole label.\<close>

definition label_var :: "string \<Rightarrow> string" where
  "label_var label = takeWhile (\<lambda>c. c \<noteq> CHR '' '') label"

definition rollback_scope_label_available :: "string \<Rightarrow> (string \<Rightarrow> string option) \<Rightarrow> bool" where
  "rollback_scope_label_available label environ =
     (let env_var = label_var label
      in if env_var = ''GITHUB_TOKEN'' then resolve_github_token_with_env None environ \<noteq> None
         else Option.bind (environ env_var) non_blank_token \<noteq> None)"

subsection \<open>The trait\<close>

record ('t, 'w) publisher =
  p_name :: string
  p_group :: publisher_group
  p_required :: bool
  p_run :: "('t, 'w) run_context \<Rightarrow> (string, publish_evidence) result \<times> ('t, 'w) run_context"
  p_rollback :: "('t, 'w) run_context \<Rightarrow> publish_evidence \<Rightarrow> (string, unit) result \<times> ('t, 'w) run_context"
  p_preflight :: "('t, 'w) run_context \<Rightarrow> (string, preflight_check) result"
  p_reconcile :: "('t, 'w) run_context \<Rightarrow> (string, reconcile_state) result \<times> ('t, 'w) run_context"
  p_rollback_scope_needed :: "string option"
  p_missing_rollback_scope :: "('t, 'w) run_context \<Rightarrow> string option"
  p_config_fully_inactive :: "('t, 'w) run_context \<Rightarrow> bool"
  p_skips_on_nightly :: bool
  p_retain_on_rollback :: bool

text \<open>The trait's default methods.\<close>

definition default_rollback ::
    "('t, 'w) run_context \<Rightarrow> publish_evidence \<Rightarrow> (string, unit) result \<times> ('t, 'w) run_context" where
  "default_rollback ctx evidence = (Inr (), ctx)"

definition default_preflight :: "('t, 'w) run_context \<Rightarrow> (string, preflight_check) result" where
  "default_preflight ctx = Inr Pass"

definition default_reconcile ::
    "('t, 'w) run_context \<Rightarrow> (string, reconcile_state) result \<times> ('t, 'w) run_context" where
  "default_reconcile ctx = (Inr Absent, ctx)"

definition missing_rollback_scope :: "('t, 'w) publisher \<Rightarrow> ('t, 'w) run_context \<Rightarrow> string option" where
  "missing_rollback_scope p ctx =
     (if p_retain_on_rollback p then None
      else case p_rollback_scope_needed p of
             None \<Rightarrow> None
           | Some label \<Rightarrow> if rollback_scope_label_available label (env ctx) then None else Some label)"

definition rollback_empty_warning_msg :: "('t, 'w) run_context \<Rightarrow> string \<Rightarrow> string \<Rightarrow> string" where
  "rollback_empty_warning_msg ctx publisher target_label =
     (if is_dry_run ctx \<or> is_snapshot ctx
      then ''no '' @ target_label @ '' recorded in '' @ publisher @ '' evidence '' @ em_dash
         @ '' this run published nothing to '' @ publisher @ '', so there is no state to undo''
      else ''no '' @ target_label @ '' recorded in '' @ publisher @ '' evidence '' @ em_dash
         @ '' verify '' @ publisher @ '' state manually'')"

definition warn_scope_unavailable_msg :: "string \<Rightarrow> string \<Rightarrow> string \<Rightarrow> string" where
  "warn_scope_unavailable_msg prefix1 publisher label =
     [CHR 0x27] @ publisher @ [CHR 0x27] @ '' skipped during '' @ prefix1 @ '' '' @ em_dash @ '' env scope ''
       @ [CHR 0x27] @ label @ [CHR 0x27] @ '' unavailable (set the env var to enable rollback)''"

subsection \<open>Registry order and skip labels\<close>

definition group_dispatch_order :: "publisher_group list" where
  "group_dispatch_order = [Assets, Manager, Submitter]"

definition skip_label_belongs_to :: "string \<Rightarrow> string \<Rightarrow> bool" where
  "skip_label_belongs_to stage publisher \<longleftrightarrow>
     stage = publisher
     \<or> (starts_with stage (publisher @ ''-'') \<and> \<not> list_ex (\<lambda>k. kind_token k = stage) all_kinds)"

definition entry_skip_reasons :: "('t, 'w) run_context \<Rightarrow> string \<Rightarrow> string list" where
  "entry_skip_reasons ctx publisher =
     map se_reason (filter (\<lambda>e. skip_label_belongs_to (se_stage e) publisher) (skip_memento ctx))"

section \<open>Properties\<close>

lemma merge_assoc: "merge (merge a b) c = merge a (merge b c)"
  by (cases a; cases b; cases c) simp_all

lemma merge_Pass [simp]: "merge Pass a = a" "merge a Pass = a"
  by (cases a; simp)+

lemma merge_idem [simp]: "merge a a = a"
  by (cases a) simp_all

lemma fold_merge:
  "foldl merge a checks = merge a (foldl merge Pass checks)"
proof (induction checks arbitrary: a)
  case (Cons c checks)
  have "foldl merge (merge a c) checks = merge (merge a c) (foldl merge Pass checks)" by (rule Cons.IH)
  also have "\<dots> = merge a (merge c (foldl merge Pass checks))" by (rule merge_assoc)
  also have "merge c (foldl merge Pass checks) = foldl merge c checks" by (rule Cons.IH [symmetric])
  finally show ?case by simp
qed simp

lemma fold_merge_Cons: "foldl merge Pass (c # checks) = merge c (foldl merge Pass checks)"
  using fold_merge [of c checks] by simp

lemma find_SomeD: "List.find P xs = Some x \<Longrightarrow> P x"
  by (induction xs) (auto split: if_splits)

lemma find_Some_mem: "List.find P xs = Some x \<Longrightarrow> x \<in> set xs"
  by (induction xs) (auto split: if_splits)

lemma fold_merge_find:
  "foldl merge Pass checks =
     (case List.find (\<lambda>c. \<exists>m. c = PBlocker m) checks of
        Some b \<Rightarrow> b
      | None \<Rightarrow> (case List.find (\<lambda>c. \<exists>m. c = PWarning m) checks of Some w \<Rightarrow> w | None \<Rightarrow> Pass))"
proof (induction checks)
  case (Cons c checks)
  show ?case unfolding fold_merge_Cons Cons
    by (cases c) (auto split: option.splits dest!: find_SomeD)
qed simp

text \<open>
  Folding pre-flight verdicts yields the first blocker in order if there is one, otherwise
  the first warning, otherwise a pass; the fold is associative with \<open>Pass\<close> neutral, so
  publishers may be folded in any grouping.
\<close>
theorem preflight_fold_most_severe:
  "foldl merge Pass checks =
     (case List.find (\<lambda>c. \<exists>m. c = PBlocker m) checks of
        Some b \<Rightarrow> b
      | None \<Rightarrow> (case List.find (\<lambda>c. \<exists>m. c = PWarning m) checks of Some w \<Rightarrow> w | None \<Rightarrow> Pass))
   \<and> foldl merge Pass (xs @ ys) = merge (foldl merge Pass xs) (foldl merge Pass ys)"
  using fold_merge_find fold_merge [of "foldl merge Pass xs" ys] by simp

text \<open>A label that is itself a publisher's token belongs to that publisher alone.\<close>

lemma skip_label_of_token:
  "skip_label_belongs_to (kind_token k) publisher \<longleftrightarrow> publisher = kind_token k"
  using all_kinds_complete [of k] by (auto simp: skip_label_belongs_to_def list_ex_iff)

end
