(* ===== verification/RunSummary.thy ===== *)
theory RunSummary
  imports Publisher
begin

section \<open>Run directories and the run summary\<close>

text \<open>
  Models the persisted state of a run: the path helpers and \<open>derive_run_id\<close> of
  \<open>stage-publish/src/report.rs\<close>, \<open>validate_run_id\<close> of \<open>rollback.rs\<close>, the directory walk of
  \<open>core/src/dist.rs\<close>, and the summary ledger of \<open>stage-publish/src/run_summary.rs\<close> (building
  it from a context, writing, re-reading and rewriting it after a withdrawal).

  The file system and \<open>serde_json\<close> are parameters, gathered in the record \<open>os\<close>: a file
  system is a map from path to contents, directory listings, writing, renaming and removing may
  each fail with a message, and JSON is a pair of functions per document. Seconds of backoff are
  kept as the nanoseconds they are computed from. Counters that count list elements are naturals.
\<close>

record retry_scope_stat =
  rss_scope :: string
  rss_retries :: nat
  rss_backoff :: nat

record verify_release_record =
  vr_passed :: bool
  vr_issue_count :: nat
  vr_issues :: "string list"

record run_summary_result =
  rsr_name :: string
  rsr_group :: publisher_group
  rsr_required :: bool
  rsr_status :: string
  rsr_evidence :: "publish_evidence option"
  rsr_entry_skips :: "string list"

record run_summary =
  rs_schema_version :: u32
  rs_anodizer_version :: string
  rs_tag :: string
  rs_submitter_gated :: bool
  rs_announce_gated :: bool
  rs_publishers_succeeded :: nat
  rs_publishers_failed :: nat
  rs_irreversibly_published :: bool
  rs_verify_release :: "verify_release_record option"
  rs_retry_backoff :: nat
  rs_retry_by_scope :: "retry_scope_stat list"
  rs_results :: "run_summary_result list"
  rs_compile_time :: "(string \<times> string) list"
  rs_runtime :: "(string \<times> string) list"

record 't os =
  os_read_dir :: "'t fs \<Rightarrow> string \<Rightarrow> string list option"
  os_is_dir :: "'t fs \<Rightarrow> string \<Rightarrow> bool"
  os_create_dir_all :: "'t fs \<Rightarrow> string \<Rightarrow> (string, 't fs) result"
  os_write :: "'t fs \<Rightarrow> string \<Rightarrow> 't \<Rightarrow> (string, 't fs) result"
  os_rename :: "'t fs \<Rightarrow> string \<Rightarrow> string \<Rightarrow> (string, 't fs) result"
  os_remove :: "'t fs \<Rightarrow> string \<Rightarrow> (string, 't fs) result"
  os_unix_now :: nat
  os_report_json :: "publish_report \<Rightarrow> (string, 't) result"
  os_parse_report :: "'t \<Rightarrow> publish_report option"
  os_summary_json :: "run_summary \<Rightarrow> (string, 't) result"
  os_parse_summary :: "'t \<Rightarrow> run_summary option"
  os_without_key :: "string \<Rightarrow> 't \<Rightarrow> 't option"

definition cargo_pkg_version :: string where
  "cargo_pkg_version = ''0.30.0''"

subsection \<open>Paths\<close>

definition path_join :: "string \<Rightarrow> string \<Rightarrow> string" where
  "path_join dir name = dir @ ''/'' @ name"

definition parent_dir :: "string \<Rightarrow> string" where
  "parent_dir path = rev (drop 1 (dropWhile (\<lambda>c. c \<noteq> CHR ''/'') (rev path)))"

definition with_file_name :: "string \<Rightarrow> string \<Rightarrow> string" where
  "with_file_name path name = path_join (parent_dir path) name"

definition run_dir_prefix :: string where
  "run_dir_prefix = ''run-''"

definition report_json_name :: string where
  "report_json_name = ''report.json''"

definition rollback_json_name :: string where
  "rollback_json_name = ''rollback.json''"

definition summary_json_name :: string where
  "summary_json_name = ''summary.json''"

definition layout_roots :: "'t os \<Rightarrow> 't fs \<Rightarrow> string \<Rightarrow> string list" where
  "layout_roots os fs dist1 =
     dist1 # (case os_read_dir os fs dist1 of
                None \<Rightarrow> []
              | Some entries \<Rightarrow> sort (filter (os_is_dir os fs) (map (path_join dist1) entries)))"

definition summaries_in :: "'t os \<Rightarrow> 't fs \<Rightarrow> string \<Rightarrow> string list" where
  "summaries_in os fs dir =
     (case os_read_dir os fs dir of
        None \<Rightarrow> []
      | Some entries \<Rightarrow>
          filter (\<lambda>p. fs p \<noteq> None)
            (map (\<lambda>e. path_join (path_join dir e) summary_json_name)
              (filter (\<lambda>e. starts_with e run_dir_prefix) entries)))"

definition collect_run_summary_paths :: "'t os \<Rightarrow> 't fs \<Rightarrow> string \<Rightarrow> string list" where
  "collect_run_summary_paths os fs dist1 = concat (map (summaries_in os fs) (layout_roots os fs dist1))"

definition run_id_hint :: string where
  "run_id_hint = ''(e.g. '' @ [CHR 0x27] @ ''run-2026-05-14'' @ [CHR 0x27] @ '' or '' @ [CHR 0x27] @ ''abc123''
     @ [CHR 0x27] @ '')''"

definition quoted_run_id :: "string \<Rightarrow> string" where
  "quoted_run_id run_id = ''run id '' @ [CHR 0x27] @ run_id @ [CHR 0x27]"

definition validate_run_id :: "string \<Rightarrow> (string, unit) result" where
  "validate_run_id run_id =
     (if run_id = [] then Inl (''run id cannot be empty '' @ run_id_hint)
      else if \<not> list_all (\<lambda>c. is_ascii_alphanumeric c \<or> c = CHR ''.'' \<or> c = CHR ''-'' \<or> c = CHR ''_''
                            \<or> c = CHR ''+'') run_id
      then Inl (quoted_run_id run_id @ '' contains invalid characters; allowed: [A-Za-z0-9._+-] '' @ run_id_hint)
      else if CHR ''/'' \<in> set run_id \<or> CHR 0x5C \<in> set run_id
      then Inl (quoted_run_id run_id @ '' must not contain path separators '' @ run_id_hint)
      else if run_id = ''.'' \<or> run_id = ''..''
      then Inl (quoted_run_id run_id @ '' is not valid (path-traversal segment) '' @ run_id_hint)
      else Inr ())"

definition no_git_run_id :: string where
  "no_git_run_id = ''local''"

definition derive_run_id :: "('t, 'w) run_context \<Rightarrow> string" where
  "derive_run_id ctx =
     (case git_info ctx of
        None \<Rightarrow> no_git_run_id
      | Some info \<Rightarrow>
          (if gi_tag info \<noteq> [] \<and> is_ok (validate_run_id (gi_tag info)) then gi_tag info
           else if gi_short_commit info \<noteq> [] \<and> is_ok (validate_run_id (gi_short_commit info))
           then gi_short_commit info
           else no_git_run_id))"

definition run_dir :: "('t, 'w) run_context \<Rightarrow> string \<Rightarrow> string" where
  "run_dir ctx run_id = path_join (dist ctx) (run_dir_prefix @ run_id)"

definition report_path_for :: "('t, 'w) run_context \<Rightarrow> string \<Rightarrow> string" where
  "report_path_for ctx run_id = path_join (run_dir ctx run_id) report_json_name"

definition rollback_path :: "('t, 'w) run_context \<Rightarrow> string \<Rightarrow> string" where
  "rollback_path ctx run_id = path_join (run_dir ctx run_id) rollback_json_name"

definition summary_path :: "('t, 'w) run_context \<Rightarrow> string option" where
  "summary_path ctx =
     (case summary_json_path (options ctx) of
        Some explicit \<Rightarrow> Some explicit
      | None \<Rightarrow>
          if is_snapshot ctx \<or> is_dry_run ctx then None
          else Some (path_join (run_dir ctx (derive_run_id ctx)) summary_json_name))"

definition existing_run_report_path :: "('t, 'w) run_context \<Rightarrow> string option" where
  "existing_run_report_path ctx =
     (if is_snapshot ctx \<or> is_dry_run ctx then None
      else case publish_report ctx of
        None \<Rightarrow> None
      | Some report \<Rightarrow>
          if results report = [] then None
          else let run_id = derive_run_id ctx
               in if \<not> is_ok (validate_run_id run_id) then None
                  else let path = report_path_for ctx run_id
                       in if files ctx path \<noteq> None then Some path else None)"

subsection \<open>Building a summary\<close>

definition to_summary_result :: "publisher_result \<Rightarrow> run_summary_result" where
  "to_summary_result res =
     \<lparr>rsr_name = res_name res, rsr_group = res_group res, rsr_required = res_required res,
      rsr_status = outcome_to_status_string (res_outcome res), rsr_evidence = res_evidence res,
      rsr_entry_skips = res_entry_skips res\<rparr>"

definition from_context_with_report :: "('t, 'w) run_context \<Rightarrow> publish_report option \<Rightarrow> run_summary" where
  "from_context_with_report ctx report =
     (let rows = (case report of None \<Rightarrow> [] | Some r \<Rightarrow> results r);
          (compile_time, runtime) =
            (case determinism ctx of
               Some state \<Rightarrow> (compile_time_allowlist state, runtime_allowlist state)
             | None \<Rightarrow> ([], runtime_nondeterministic_allowlist (options ctx)));
          (succeeded, failed) = count_publish_state rows
      in \<lparr>rs_schema_version = 3,
          rs_anodizer_version = cargo_pkg_version,
          rs_tag = (case map_of (template_vars ctx) ''Tag'' of None \<Rightarrow> [] | Some t \<Rightarrow> t),
          rs_submitter_gated = (case report of None \<Rightarrow> False | Some r \<Rightarrow> submitter_gated r),
          rs_announce_gated = (case report of None \<Rightarrow> False | Some r \<Rightarrow> announce_gated r),
          rs_publishers_succeeded = succeeded,
          rs_publishers_failed = failed,
          rs_irreversibly_published = list_ex (\<lambda>p. res_group p = Submitter \<and> outcome_landed p) rows,
          rs_verify_release = map_option (\<lambda>issues. \<lparr>vr_passed = (issues = []),
            vr_issue_count = length issues, vr_issues = issues\<rparr>) (verify_release_issues ctx),
          rs_retry_backoff = retry_total_backoff ctx,
          rs_retry_by_scope = map (\<lambda>(scope, n, ns). \<lparr>rss_scope = scope, rss_retries = n, rss_backoff = ns\<rparr>)
            (retry_scopes ctx),
          rs_results = map to_summary_result rows,
          rs_compile_time = compile_time,
          rs_runtime = runtime\<rparr>)"

definition status_landed :: "run_summary_result \<Rightarrow> bool" where
  "status_landed result =
     (if rsr_status result = ''failed''
      then (case rsr_evidence result of None \<Rightarrow> False | Some e \<Rightarrow> records_published_work e)
      else \<not> starts_with (rsr_status result) ''skipped-'')"

definition burned_submitter_names :: "run_summary \<Rightarrow> string list" where
  "burned_submitter_names summary =
     map rsr_name (filter (\<lambda>r. rsr_group r = Submitter \<and> status_landed r) (rs_results summary))"

subsection \<open>Reading and writing summaries\<close>

definition parse_run_summary_lenient :: "'t os \<Rightarrow> 't \<Rightarrow> run_summary option" where
  "parse_run_summary_lenient os text = Option.bind (os_without_key os ''failure_policy'' text) (os_parse_summary os)"

definition write_summary_json ::
    "'t os \<Rightarrow> run_summary \<Rightarrow> string \<Rightarrow> 't fs \<Rightarrow> (string, bool \<times> 't fs) result" where
  "write_summary_json os summary path fs =
     (if rs_results summary = []
         \<and> (case fs path of
              None \<Rightarrow> False
            | Some existing \<Rightarrow> (case os_parse_summary os existing of
                None \<Rightarrow> False | Some prior \<Rightarrow> rs_results prior \<noteq> []))
      then Inr (False, fs)
      else case (if parent_dir path = [] then Inr fs else os_create_dir_all os fs (parent_dir path)) of
             Inl e \<Rightarrow> Inl (''create parent directory '' @ parent_dir path @ '' for summary.json: '' @ e)
           | Inr fs1 \<Rightarrow>
               (case os_summary_json os summary of
                  Inl e \<Rightarrow> Inl (''serialize run summary: '' @ e)
                | Inr text \<Rightarrow>
                    (case os_write os fs1 path text of
                       Inl e \<Rightarrow> Inl (''write run summary to '' @ path @ '': '' @ e)
                     | Inr fs2 \<Rightarrow> Inr (True, fs2))))"

definition persist_summary_snapshot ::
    "'t os \<Rightarrow> ('t, 'w) run_context \<Rightarrow> publish_report \<Rightarrow> (string, 't fs) result" where
  "persist_summary_snapshot os ctx report =
     (case summary_path ctx of
        None \<Rightarrow> Inr (files ctx)
      | Some path \<Rightarrow>
          (case write_summary_json os (from_context_with_report ctx (Some report)) path (files ctx) of
             Inl e \<Rightarrow> Inl e
           | Inr (_, fs) \<Rightarrow> Inr fs))"

fun is_withdrawal_outcome :: "publisher_outcome \<Rightarrow> bool" where
  "is_withdrawal_outcome RolledBack = True"
| "is_withdrawal_outcome (RollbackFailed _) = True"
| "is_withdrawal_outcome RollbackSkippedNoScope = True"
| "is_withdrawal_outcome _ = False"

definition withdrawn_rows :: "publish_report \<Rightarrow> publisher_result list" where
  "withdrawn_rows rollback =
     filter (\<lambda>r. is_withdrawal_outcome (res_outcome r)) (results rollback @ carried_forward rollback)"

text \<open>One pass of the inner loop: the rows of the summary named like \<open>row\<close> take its status.\<close>

definition mark_row :: "publisher_result \<Rightarrow> run_summary_result list \<Rightarrow> run_summary_result list" where
  "mark_row row rows =
     map (\<lambda>s. if rsr_name s = res_name row then s\<lparr>rsr_status := outcome_to_status_string (res_outcome row)\<rparr> else s)
       rows"

definition mark_rows :: "publish_report \<Rightarrow> run_summary_result list \<Rightarrow> run_summary_result list" where
  "mark_rows rollback rows = fold mark_row (withdrawn_rows rollback) rows"

text \<open>
  The \<open>changed\<close> flag of the source's loop is true when some assignment changed a status, even
  if a later row changed it back.
\<close>

fun marks_change :: "publisher_result list \<Rightarrow> run_summary_result list \<Rightarrow> bool" where
  "marks_change [] rows = False"
| "marks_change (w # ws) rows \<longleftrightarrow> mark_row w rows \<noteq> rows \<or> marks_change ws (mark_row w rows)"

definition mark_withdrawn_in_summary ::
    "'t os \<Rightarrow> string \<Rightarrow> publish_report \<Rightarrow> 't fs \<Rightarrow> 't fs \<times> event list" where
  "mark_withdrawn_in_summary os path rollback fs =
     (case fs path of
        None \<Rightarrow> (fs, [])
      | Some text \<Rightarrow>
          (case parse_run_summary_lenient os text of
             None \<Rightarrow> (fs, [WarnLine (''left '' @ path @ '' as it was '' @ em_dash
                        @ '' it could not be parsed to record the withdrawal'')])
           | Some summary \<Rightarrow>
               if \<not> marks_change (withdrawn_rows rollback) (rs_results summary) then (fs, [])
               else (case write_summary_json os (summary\<lparr>rs_results := mark_rows rollback (rs_results summary)\<rparr>) path fs of
                       Inr (_, fs') \<Rightarrow> (fs', [])
                     | Inl e \<Rightarrow> (fs, [WarnLine (''failed to record the withdrawal in '' @ path @ '': '' @ e)]))))"

section \<open>Properties\<close>

subsection \<open>Run ids and paths\<close>

lemma parent_dir_join [simp]: "CHR ''/'' \<notin> set name \<Longrightarrow> parent_dir (path_join dir name) = dir"
proof -
  assume "CHR ''/'' \<notin> set name"
  then have "dropWhile (\<lambda>c. c \<noteq> CHR ''/'') (rev name @ CHR ''/'' # rev dir) = CHR ''/'' # rev dir"
    by (subst dropWhile_append2) auto
  then show ?thesis by (simp add: parent_dir_def path_join_def)
qed

lemma file_names_no_slash [simp]:
  "CHR ''/'' \<notin> set report_json_name" "CHR ''/'' \<notin> set rollback_json_name"
  "CHR ''/'' \<notin> set summary_json_name" "CHR ''/'' \<notin> set run_dir_prefix"
  by (simp_all add: report_json_name_def rollback_json_name_def summary_json_name_def run_dir_prefix_def)

lemma slash_not_alphanumeric [simp]: "\<not> is_ascii_alphanumeric (CHR ''/'')" "\<not> is_ascii_alphanumeric (CHR 0x5C)"
  by (simp_all add: is_ascii_alphanumeric_def)

lemma validate_run_id_ok:
  "validate_run_id run_id = Inr () \<longleftrightarrow>
     run_id \<noteq> [] \<and> run_id \<noteq> ''.'' \<and> run_id \<noteq> ''..''
     \<and> (\<forall>c \<in> set run_id. is_ascii_alphanumeric c \<or> c \<in> {CHR ''.'', CHR ''-'', CHR ''_'', CHR ''+''})"
  by (auto simp: validate_run_id_def list_all_iff)

lemma valid_run_id_no_separator:
  assumes "validate_run_id run_id = Inr ()"
  shows "CHR ''/'' \<notin> set run_id" "CHR 0x5C \<notin> set run_id"
  using assms by (auto simp: validate_run_id_ok)

lemma is_ok_unit [simp]: "is_ok (r :: (string, unit) result) \<longleftrightarrow> r = Inr ()"
  by (cases r) simp_all

lemma derive_run_id_valid: "validate_run_id (derive_run_id ctx) = Inr ()"
  by (auto simp: derive_run_id_def no_git_run_id_def validate_run_id_ok is_ascii_alphanumeric_def split: option.split)

lemma parent_run_paths [simp]:
  "parent_dir (report_path_for ctx run_id) = run_dir ctx run_id"
  "parent_dir (rollback_path ctx run_id) = run_dir ctx run_id"
  by (simp_all add: report_path_for_def rollback_path_def)

text \<open>
  A run id that passes validation cannot leave the dist directory: it holds no path
  separator and is no traversal segment, its run directory is a direct child of dist, the report
  and the rollback state are direct children of that directory, and different valid ids have
  different directories. The id derived from the context is always valid.
\<close>
theorem run_id_confined:
  assumes "validate_run_id run_id = Inr ()"
  shows "CHR ''/'' \<notin> set run_id \<and> CHR 0x5C \<notin> set run_id \<and> run_id \<noteq> ''.'' \<and> run_id \<noteq> ''..''
     \<and> parent_dir (run_dir ctx run_id) = dist ctx
     \<and> parent_dir (report_path_for ctx run_id) = run_dir ctx run_id
     \<and> parent_dir (rollback_path ctx run_id) = run_dir ctx run_id
     \<and> (run_dir ctx run_id = run_dir ctx other \<longleftrightarrow> run_id = other)
     \<and> validate_run_id (derive_run_id ctx) = Inr ()"
  using assms valid_run_id_no_separator [OF assms] derive_run_id_valid [of ctx]
  by (simp add: run_dir_def validate_run_id_ok) (simp add: path_join_def)

theorem run_id_confined_witness:
  "parent_dir (run_dir (test_context :: (string, unit) run_context) ''v1.2.3+build.1'') = ''dist''"
proof -
  have "validate_run_id ''v1.2.3+build.1'' = Inr ()"
    by (simp add: validate_run_id_ok is_ascii_alphanumeric_def)
  from run_id_confined [OF this, of "test_context :: (string, unit) run_context" "''v1.2.3''"]
  have "parent_dir (run_dir (test_context :: (string, unit) run_context) ''v1.2.3+build.1'')
      = dist (test_context :: (string, unit) run_context)"
    by blast
  then show ?thesis by (simp add: test_context_def)
qed

subsection \<open>Landed publishes\<close>

lemma status_landed_twin: "status_landed (to_summary_result r) \<longleftrightarrow> outcome_landed r"
proof (cases "res_outcome r")
  case (Skipped reason)
  then show ?thesis
    using skip_status_prefix [of reason]
    by (cases reason) (simp_all add: status_landed_def to_summary_result_def outcome_landed_def)
qed (simp_all add: status_landed_def to_summary_result_def outcome_landed_def starts_with_def)

lemma from_context_results [simp]:
  "rs_results (from_context_with_report ctx (Some report)) = map to_summary_result (results report)"
  "rs_irreversibly_published (from_context_with_report ctx (Some report))
     = list_ex (\<lambda>p. res_group p = Submitter \<and> outcome_landed p) (results report)"
  by (simp_all add: from_context_with_report_def Let_def split: option.split prod.split)

text \<open>
  The burn evidence is recorded one way: the flag written when a summary is built and the
  list of burned submitters re-derived from its status strings agree, and a submitter is listed
  exactly when its publish reached the remote -- it was not skipped, and if it failed its
  evidence records work.
\<close>
theorem burned_submitters_agree:
  "(rs_irreversibly_published (from_context_with_report ctx (Some report)) \<longleftrightarrow>
      burned_submitter_names (from_context_with_report ctx (Some report)) \<noteq> [])
   \<and> burned_submitter_names (from_context_with_report ctx (Some report))
       = map res_name (filter (\<lambda>r. res_group r = Submitter \<and> outcome_landed r) (results report))"
proof -
  have sel: "rsr_name (to_summary_result r) = res_name r" "rsr_group (to_summary_result r) = res_group r" for r
    by (simp_all add: to_summary_result_def)
  then show ?thesis
    by (auto simp: burned_submitter_names_def filter_map o_def status_landed_twin list_ex_iff filter_empty_conv)
qed

subsection \<open>Laws of the file system and of the JSON codec\<close>

text \<open>
  What the persistence code relies on: a write that reports success stores the text at its path
  and nothing else, creating directories changes no file, a rename moves and a removal deletes
  one file, and a document that was serialised parses back to the same value; the key that is
  stripped for old documents is not in a document written now.
\<close>

locale lawful_os =
  fixes os :: "'t os"
  assumes create_keeps: "os_create_dir_all os fs dir = Inr fs' \<Longrightarrow> fs' = fs"
    and write_stores: "os_write os fs path text = Inr fs' \<Longrightarrow> fs' = fs(path := Some text)"
    and rename_moves: "os_rename os fs a b = Inr fs' \<Longrightarrow> fs' = (fs(a := None))(b := fs a)"
    and remove_deletes: "os_remove os fs path = Inr fs' \<Longrightarrow> fs' = fs(path := None)"
    and report_codec: "os_report_json os r = Inr text \<Longrightarrow> os_parse_report os text = Some r"
    and summary_codec: "os_summary_json os s = Inr text1 \<Longrightarrow> os_parse_summary os text1 = Some s"
    and no_stale_key: "os_summary_json os s = Inr text1 \<Longrightarrow> os_without_key os ''failure_policy'' text1 = Some text1"
begin

lemma write_summary_cases:
  assumes "write_summary_json os summary path fs = Inr (written, fs')"
  shows "if written then \<exists>text. os_summary_json os summary = Inr text \<and> fs' = fs(path := Some text)
         else fs' = fs"
  using assms
  by (auto simp: write_summary_json_def dest!: create_keeps write_stores split: if_splits option.splits sum.splits)

lemma write_summary_reads_back:
  assumes "write_summary_json os summary path fs = Inr (True, fs')"
  shows "Option.bind (fs' path) (parse_run_summary_lenient os) = Some summary"
  using write_summary_cases [OF assms] summary_codec no_stale_key
  by (auto simp: parse_run_summary_lenient_def)

lemma write_summary_elsewhere:
  assumes "write_summary_json os summary path fs = Inr (written, fs')" and "p \<noteq> path"
  shows "fs' p = fs p"
  using write_summary_cases [OF assms(1)] assms(2) by (auto split: if_splits)

end

text \<open>A file system in memory whose every operation succeeds, with typed documents for texts.\<close>

datatype doc = ReportDoc publish_report | SummaryDoc run_summary | OtherDoc string

definition mem_os :: "doc os" where
  "mem_os = \<lparr>os_read_dir = (\<lambda>fs dir. None), os_is_dir = (\<lambda>fs dir. False),
     os_create_dir_all = (\<lambda>fs dir. Inr fs), os_write = (\<lambda>fs path text. Inr (fs(path := Some text))),
     os_rename = (\<lambda>fs a b. Inr ((fs(a := None))(b := fs a))), os_remove = (\<lambda>fs path. Inr (fs(path := None))),
     os_unix_now = 0,
     os_report_json = (\<lambda>r. Inr (ReportDoc r)),
     os_parse_report = (\<lambda>d. case d of ReportDoc r \<Rightarrow> Some r | _ \<Rightarrow> None),
     os_summary_json = (\<lambda>s. Inr (SummaryDoc s)),
     os_parse_summary = (\<lambda>d. case d of SummaryDoc s \<Rightarrow> Some s | _ \<Rightarrow> None),
     os_without_key = (\<lambda>k d. Some d)\<rparr>"

interpretation mem: lawful_os mem_os
  by unfold_locales (auto simp: mem_os_def)

text \<open>A document with publisher results, to a reader that rejects unknown keys -- the reader of the overwrite guard.\<close>

definition bears_results :: "'t os \<Rightarrow> 't \<Rightarrow> bool" where
  "bears_results os text \<longleftrightarrow> (case os_parse_summary os text of None \<Rightarrow> False | Some s \<Rightarrow> rs_results s \<noteq> [])"

text \<open>The two operations that write a summary: a run's own, and the marking by a rollback.\<close>

inductive summary_step :: "'t os \<Rightarrow> 't fs \<Rightarrow> 't fs \<Rightarrow> bool" for os where
  wrote: "write_summary_json os summary path fs = Inr (written, fs') \<Longrightarrow> summary_step os fs fs'"
| marked: "mark_withdrawn_in_summary os path rollback fs = (fs', evs) \<Longrightarrow> summary_step os fs fs'"

context lawful_os begin

lemma write_summary_refused:
  assumes "write_summary_json os summary path fs = Inr (written, fs')"
  shows "written \<longleftrightarrow> \<not> (rs_results summary = [] \<and> (\<exists>old. fs path = Some old \<and> bears_results os old))"
  using assms by (auto simp: write_summary_json_def bears_results_def split: if_splits option.splits sum.splits)

lemma write_keeps_results:
  assumes "write_summary_json os summary path fs = Inr (written, fs')"
    and "fs p = Some old" "bears_results os old"
  shows "fs' p = Some old \<or> (\<exists>new. fs' p = Some new \<and> bears_results os new \<and> parse_run_summary_lenient os new = os_parse_summary os new)"
proof (cases "written \<and> p = path")
  case True
  with write_summary_cases [OF assms(1)] obtain new where new: "os_summary_json os summary = Inr new" "fs' p = Some new"
    by auto
  from write_summary_refused [OF assms(1)] True assms(2,3) have "rs_results summary \<noteq> []" by auto
  with new summary_codec [OF new(1)] no_stale_key [OF new(1)] show ?thesis
    by (auto simp: bears_results_def parse_run_summary_lenient_def)
next
  case False
  with write_summary_cases [OF assms(1)] assms(2) show ?thesis by (auto split: if_splits)
qed

lemma step_keeps_results:
  assumes "summary_step os fs fs'" and "fs p = Some old" "bears_results os old"
  shows "fs' p = Some old \<or> (\<exists>new. fs' p = Some new \<and> bears_results os new \<and> parse_run_summary_lenient os new = os_parse_summary os new)"
  using assms(1)
proof cases
  case (wrote summary path written)
  from write_keeps_results [OF wrote assms(2,3)] show ?thesis .
next
  case (marked path rollback evs)
  then have "fs' = fs \<or> (\<exists>summary written. write_summary_json os summary path fs = Inr (written, fs'))"
    by (auto simp: mark_withdrawn_in_summary_def split: option.splits if_splits sum.splits)
  with write_keeps_results assms(2,3) show ?thesis by blast
qed

lemma steps_keep_results:
  assumes "(summary_step os)\<^sup>*\<^sup>* fs fs'" and "fs p = Some old" "bears_results os old"
  shows "fs' p = Some old \<or> (\<exists>new. fs' p = Some new \<and> bears_results os new \<and> parse_run_summary_lenient os new = os_parse_summary os new)"
  using assms(1)
proof (induction rule: rtranclp_induct)
  case (step fs1 fs2)
  from step.IH obtain mid where "fs1 p = Some mid" "bears_results os mid"
    "mid = old \<or> parse_run_summary_lenient os mid = os_parse_summary os mid"
    using assms(3) by auto
  with step_keeps_results [OF step.hyps(2), of p mid] show ?case by auto
qed (use assms(2) in simp)

end

text \<open>
  C40. Burn evidence survives. Once the file at a path holds a summary with publisher results that the strict reader
  accepts, it holds one after any number of completed summary writes, of whatever summary to whatever path, and of
  markings of withdrawals: the same text, or a later summary with results that strict and lenient readers read alike.
  A completed write is refused exactly when it would replace results by none -- it then changes no file -- and otherwise
  the path reads back as the summary written and no other path changes.
\<close>
theorem summary_never_clobbered:
  assumes "lawful_os os"
  shows "((summary_step os)\<^sup>*\<^sup>* fs fs' \<and> fs path = Some old \<and> bears_results os old \<longrightarrow>
            (\<exists>text. fs' path = Some text \<and> bears_results os text
               \<and> (text = old \<or> parse_run_summary_lenient os text = os_parse_summary os text)))
     \<and> (write_summary_json os summary path fs = Inr (written, fs') \<longrightarrow>
          (written \<longleftrightarrow> \<not> (rs_results summary = [] \<and> (\<exists>old. fs path = Some old \<and> bears_results os old)))
          \<and> (if written
             then Option.bind (fs' path) (parse_run_summary_lenient os) = Some summary \<and> (\<forall>p. p \<noteq> path \<longrightarrow> fs' p = fs p)
             else fs' = fs))"
proof (intro conjI impI; (elim conjE)?)
  assume "(summary_step os)\<^sup>*\<^sup>* fs fs'" "fs path = Some old" "bears_results os old"
  from lawful_os.steps_keep_results [OF assms this] this(3)
  show "\<exists>text. fs' path = Some text \<and> bears_results os text
      \<and> (text = old \<or> parse_run_summary_lenient os text = os_parse_summary os text)" by blast
next
  assume wr: "write_summary_json os summary path fs = Inr (written, fs')"
  show "written \<longleftrightarrow> \<not> (rs_results summary = [] \<and> (\<exists>old. fs path = Some old \<and> bears_results os old))"
    by (rule lawful_os.write_summary_refused [OF assms wr])
  show "if written
        then Option.bind (fs' path) (parse_run_summary_lenient os) = Some summary \<and> (\<forall>p. p \<noteq> path \<longrightarrow> fs' p = fs p)
        else fs' = fs"
    using lawful_os.write_summary_reads_back [OF assms] lawful_os.write_summary_elsewhere [OF assms wr]
      lawful_os.write_summary_cases [OF assms wr] wr by (cases written) auto
qed

text \<open>A summary with one published submitter, and one of a run that recorded no publisher.\<close>

definition cargo_summary :: run_summary where
  "cargo_summary = from_context_with_report (test_context :: (doc, unit) run_context)
     (Some (default_report\<lparr>results := [\<lparr>res_name = ''cargo'', res_group = Submitter, res_required = True,
        res_outcome = Succeeded, res_evidence = None, res_entry_skips = []\<rparr>]\<rparr>))"

definition empty_summary :: run_summary where
  "empty_summary = from_context_with_report (test_context :: (doc, unit) run_context) None"

lemma from_context_no_results: "rs_results (from_context_with_report ctx None) = []"
proof -
  obtain c r where det: "(case determinism ctx of
      Some state \<Rightarrow> (compile_time_allowlist state, runtime_allowlist state)
    | None \<Rightarrow> ([], runtime_nondeterministic_allowlist (options ctx))) = (c, r)" by fastforce
  obtain s f where count_state: "count_publish_state [] = (s, f)" by fastforce
  show ?thesis unfolding from_context_with_report_def Let_def option.case det count_state prod.case by simp
qed

lemma sample_summaries: "rs_results cargo_summary \<noteq> []" "rs_results empty_summary = []"
proof -
  show "rs_results cargo_summary \<noteq> []" unfolding cargo_summary_def from_context_results by simp
  show "rs_results empty_summary = []"
    unfolding empty_summary_def by (rule from_context_no_results)
qed

theorem summary_never_clobbered_witness:
  "\<exists>fs1 fs2. write_summary_json mem_os cargo_summary ''s'' (\<lambda>p. None) = Inr (True, fs1)
     \<and> write_summary_json mem_os empty_summary ''s'' fs1 = Inr (False, fs2)
     \<and> (\<exists>text. fs2 ''s'' = Some text \<and> bears_results mem_os text)"
proof -
  let ?fs = "(\<lambda>p. None)(''s'' := Some (SummaryDoc cargo_summary))"
  have first: "write_summary_json mem_os cargo_summary ''s'' (\<lambda>p. None) = Inr (True, ?fs)"
    by (simp add: write_summary_json_def mem_os_def sample_summaries)
  have second: "write_summary_json mem_os empty_summary ''s'' ?fs = Inr (False, ?fs)"
    by (simp add: write_summary_json_def mem_os_def sample_summaries)
  have "(summary_step mem_os)\<^sup>*\<^sup>* ?fs ?fs" 
    by (rule r_into_rtranclp [of "summary_step mem_os" ?fs ?fs, OF summary_step.wrote [OF second]])
  moreover have "bears_results mem_os (SummaryDoc cargo_summary)"
    by (simp add: bears_results_def mem_os_def sample_summaries)
  ultimately have "\<exists>text. ?fs ''s'' = Some text \<and> bears_results mem_os text"
    using summary_never_clobbered [OF mem.lawful_os_axioms, of ?fs ?fs "''s''" "SummaryDoc cargo_summary"] by auto
  with first second show ?thesis by blast
qed

text \<open>
  The guard reads strictly. A summary that only the lenient reader accepts -- here a document that parses once its
  \<open>failure_policy\<close> key is stripped, which the readers of burn evidence do -- is overwritten by an empty one.
\<close>

definition legacy_os :: "doc os" where
  "legacy_os = mem_os\<lparr>os_without_key := (\<lambda>k d. case d of OtherDoc t \<Rightarrow> Some (SummaryDoc cargo_summary) | _ \<Rightarrow> Some d)\<rparr>"

interpretation legacy: lawful_os legacy_os
  by unfold_locales (auto simp: legacy_os_def mem_os_def)

lemma legacy_summary_overwritten:
  "let fs = (\<lambda>p. None)(''s'' := Some (OtherDoc ''v1''))
   in Option.bind (fs ''s'') (parse_run_summary_lenient legacy_os) = Some cargo_summary
      \<and> rs_results cargo_summary \<noteq> []
      \<and> (\<exists>fs'. write_summary_json legacy_os empty_summary ''s'' fs = Inr (True, fs')
           \<and> Option.bind (fs' ''s'') (parse_run_summary_lenient legacy_os) = Some empty_summary)"
  by (simp add: Let_def parse_run_summary_lenient_def write_summary_json_def legacy_os_def mem_os_def sample_summaries)

end
