(* ===== verification/Dispatch.thy ===== *)
theory Dispatch
  imports RunSummary
begin

section \<open>Group-aware publisher dispatch\<close>

text \<open>
  Models \<open>crates/stage-publish/src/dispatch.rs\<close>: the options, the digest snapshot, the ledger
  fast path and the whole dispatch loop, one definition per arm of its skip cascade. An arm
  either decides the publisher (with or without breaking out of the loop) or leaves it to the
  next arm. The state of the loop is the context, the report under construction and the history
  of events: log lines, calls of publisher code, and \<open>Recorded row\<close> for every
  \<open>report.results.push(row)\<close>.

  The lemmas show that a run never passes a one-way door once a required publisher failed, that
  rows come in the documented order and one per publisher, that the verify gate is asked at most
  once and before any Submitter runs, and that the operator's deselection is final.
\<close>

record dispatch_options =
  fail_fast :: bool
  gate_submitter :: bool
  persist_snapshots :: bool

definition default_dispatch_options :: dispatch_options where
  "default_dispatch_options = \<lparr>fail_fast = False, gate_submitter = True, persist_snapshots = False\<rparr>"

definition snapshot_artifact_digests :: "('t, 'w) run_context \<Rightarrow> string btree_map" where
  "snapshot_artifact_digests ctx =
     btree_collect (List.map_filter
       (\<lambda>a. map_option (\<lambda>d. (art_name a, d)) (map_of (art_metadata a) ''Checksum'')) (artifacts ctx))"

definition withdrawn_beside :: "'t os \<Rightarrow> 't fs \<Rightarrow> string \<Rightarrow> string \<Rightarrow> bool" where
  "withdrawn_beside os fs summary_path1 publisher_name =
     (case fs (with_file_name summary_path1 rollback_json_name) of
        None \<Rightarrow> False
      | Some text \<Rightarrow>
          (case os_parse_report os text of
             None \<Rightarrow> False
           | Some report \<Rightarrow>
               list_ex (\<lambda>r. res_name r = publisher_name \<and> is_withdrawal_outcome (res_outcome r))
                 (results report @ carried_forward report)))"

text \<open>The guards the two inner \<open>continue\<close> cascades of the ledger scan apply to one summary row.\<close>

definition ledger_row_proves :: "string btree_map \<Rightarrow> string \<Rightarrow> run_summary_result \<Rightarrow> bool" where
  "ledger_row_proves current_digests publisher_name result \<longleftrightarrow>
     rsr_name result = publisher_name
     \<and> (rsr_status result = ''succeeded'' \<or> starts_with (rsr_status result) ''pending-'')
     \<and> (case rsr_evidence result of
          None \<Rightarrow> False
        | Some evidence \<Rightarrow>
            artifact_digests evidence \<noteq> []
            \<and> list_all (\<lambda>(name, digest). map_of current_digests name = Some digest) (artifact_digests evidence))"

definition ledger_in_summary ::
    "'t os \<Rightarrow> ('t, 'w) run_context \<Rightarrow> string \<Rightarrow> string btree_map \<Rightarrow> string \<Rightarrow> reconcile_state option" where
  "ledger_in_summary os ctx publisher_name current_digests path =
     (case files ctx path of
        None \<Rightarrow> None
      | Some text \<Rightarrow>
          (case parse_run_summary_lenient os text of
             None \<Rightarrow> None
           | Some summary \<Rightarrow>
               if rs_tag summary \<noteq> (case map_of (template_vars ctx) ''Tag'' of None \<Rightarrow> [] | Some t \<Rightarrow> t) then None
               else if withdrawn_beside os (files ctx) path publisher_name then None
               else map_option (\<lambda>result. Complete (''ledger: '' @ path @ '' ('' @ rsr_status result @ '')''))
                      (List.find (ledger_row_proves current_digests publisher_name) (rs_results summary))))"

fun first_some :: "('a \<Rightarrow> 'b option) \<Rightarrow> 'a list \<Rightarrow> 'b option" where
  "first_some f [] = None"
| "first_some f (x # xs) = (case f x of Some y \<Rightarrow> Some y | None \<Rightarrow> first_some f xs)"

definition ledger_fast_path ::
    "'t os \<Rightarrow> ('t, 'w) run_context \<Rightarrow> string \<Rightarrow> string btree_map \<Rightarrow> reconcile_state option" where
  "ledger_fast_path os ctx publisher_name current_digests =
     first_some (ledger_in_summary os ctx publisher_name current_digests)
       (collect_run_summary_paths os (files ctx) (dist ctx))"

subsection \<open>The loop's state\<close>

record ('t, 'w) dispatch_state =
  ds_ctx :: "('t, 'w) run_context"
  ds_report :: publish_report
  ds_events :: "event list"

datatype ('t, 'w) verdict =
    Decided bool "('t, 'w) dispatch_state"
  | Undecided "('t, 'w) dispatch_state"

definition say :: "event list \<Rightarrow> ('t, 'w) dispatch_state \<Rightarrow> ('t, 'w) dispatch_state" where
  "say evs st = st\<lparr>ds_events := ds_events st @ evs\<rparr>"

definition record_row :: "publisher_result \<Rightarrow> ('t, 'w) dispatch_state \<Rightarrow> ('t, 'w) dispatch_state" where
  "record_row row st =
     st\<lparr>ds_report := push_result row (ds_report st), ds_events := ds_events st @ [Recorded row]\<rparr>"

definition take_snapshot ::
    "'t os \<Rightarrow> dispatch_options \<Rightarrow> ('t, 'w) dispatch_state \<Rightarrow> ('t, 'w) dispatch_state" where
  "take_snapshot os opts st =
     (if \<not> persist_snapshots opts then st
      else case persist_summary_snapshot os (ds_ctx st) (ds_report st) of
             Inl err \<Rightarrow> say [WarnLine (''summary snapshot write failed: '' @ err)] st
           | Inr fs \<Rightarrow> st\<lparr>ds_ctx := (ds_ctx st)\<lparr>files := fs\<rparr>\<rparr>)"

text \<open>The row every skip arm pushes.\<close>

definition plain_row :: "('t, 'w) publisher \<Rightarrow> publisher_outcome \<Rightarrow> publisher_result" where
  "plain_row p outcome =
     \<lparr>res_name = p_name p, res_group = p_group p, res_required = p_required p, res_outcome = outcome,
      res_evidence = None, res_entry_skips = []\<rparr>"

subsection \<open>The arms of the skip cascade\<close>

definition one_way_door_arm ::
    "'t os \<Rightarrow> dispatch_options \<Rightarrow> ('t, 'w) publisher \<Rightarrow> ('t, 'w) dispatch_state \<Rightarrow> ('t, 'w) verdict" where
  "one_way_door_arm os opts p st =
     (if (p_group p = Manager \<or> p_group p = Submitter) \<and> gate_submitter opts
         \<and> submitter_gate_closed (ds_report st)
      then let st = say [Status (''skipping '' @ p_name p @ '' '' @ em_dash
                      @ '' gated by an earlier required failure (one-way-door protection)'')] st;
               st = record_row (plain_row p (Skipped SubmitterGated)) st;
               st = st\<lparr>ds_report := (ds_report st)\<lparr>submitter_gated := True\<rparr>\<rparr>
           in Decided False (take_snapshot os opts st)
      else Undecided st)"

definition deselect_arm ::
    "'t os \<Rightarrow> dispatch_options \<Rightarrow> ('t, 'w) publisher \<Rightarrow> ('t, 'w) dispatch_state \<Rightarrow> ('t, 'w) verdict" where
  "deselect_arm os opts p st =
     (if publisher_deselected (ds_ctx st) (p_name p)
      then let st = say [Status (deselected_reason (ds_ctx st) (p_name p))] st;
               st = record_row (plain_row p (Skipped Deselected)) st
           in Decided False (take_snapshot os opts st)
      else Undecided st)"

definition inactive_arm ::
    "'t os \<Rightarrow> dispatch_options \<Rightarrow> ('t, 'w) publisher \<Rightarrow> ('t, 'w) dispatch_state \<Rightarrow> ('t, 'w) verdict" where
  "inactive_arm os opts p st =
     (if p_config_fully_inactive p (ds_ctx st)
      then let st = say [Status (''skipping '' @ p_name p @ '' '' @ em_dash
                      @ '' every configured entry is inactive (skip/if evaluates false)'')] st;
               st = record_row (plain_row p (Skipped ConfigSkipped)) st
           in Decided False (take_snapshot os opts st)
      else Undecided st)"

definition nightly_arm ::
    "'t os \<Rightarrow> dispatch_options \<Rightarrow> ('t, 'w) publisher \<Rightarrow> ('t, 'w) dispatch_state \<Rightarrow> ('t, 'w) verdict" where
  "nightly_arm os opts p st =
     (if is_nightly (ds_ctx st) \<and> p_skips_on_nightly p
      then let st = say [Status (''skipping '' @ p_name p @ '' '' @ em_dash @ '' not published on --nightly'')] st;
               st = record_row (plain_row p (Skipped Nightly)) st
           in Decided False (take_snapshot os opts st)
      else Undecided st)"

definition is_simulated :: "('t, 'w) run_context \<Rightarrow> ('t, 'w) publisher \<Rightarrow> bool" where
  "is_simulated ctx p = list_ex (\<lambda>name. name = p_name p) (simulate_failure_publishers (options ctx))"

definition consult_reconcile ::
    "'t os \<Rightarrow> ('t, 'w) publisher \<Rightarrow> ('t, 'w) dispatch_state
      \<Rightarrow> (string, reconcile_state) result \<times> ('t, 'w) dispatch_state" where
  "consult_reconcile os p st =
     (let ctx = ds_ctx st; current_digests = snapshot_artifact_digests ctx
      in case ledger_fast_path os ctx (p_name p) current_digests of
           Some state \<Rightarrow>
             (Inr state, say [Verbose (p_name p @ '': ledger fast-path '' @ em_dash
                @ '' prior summary digests matched, skipping network reconcile probe'')] st)
         | None \<Rightarrow>
             (let (answer, ctx') = p_reconcile p ctx
              in (answer, say [EnterRetryScope (p_name p), CallReconcile (p_name p) (p_group p)]
                    (st\<lparr>ds_ctx := ctx'\<rparr>))))"

definition diverged_msg :: "string \<Rightarrow> string" where
  "diverged_msg detail = ''this version is already published upstream with DIFFERENT content '' @ em_dash
     @ '' bump the version and re-release. '' @ detail"

fun apply_reconcile ::
    "'t os \<Rightarrow> dispatch_options \<Rightarrow> ('t, 'w) publisher \<Rightarrow> (string, reconcile_state) result
      \<Rightarrow> ('t, 'w) dispatch_state \<Rightarrow> ('t, 'w) verdict" where
  "apply_reconcile os opts p (Inr (Complete note)) st =
     (let st = say [Status (''skipping '' @ p_name p @ '' '' @ em_dash
            @ '' already published for this version ('' @ note @ '')'')] st;
          st = record_row (plain_row p (Skipped AlreadyPublished)) st
      in Decided False (take_snapshot os opts st))"
| "apply_reconcile os opts p (Inr (Diverged detail)) st =
     (let st = say [if p_required p then ErrorLine (p_name p @ '': '' @ diverged_msg detail)
            else WarnLine (p_name p @ '': version already published with different content '' @ em_dash
              @ '' cannot republish (optional publisher, continuing): '' @ detail)] st;
          st = record_row (plain_row p (Failed (diverged_msg detail))) st
      in Decided (fail_fast opts) (take_snapshot os opts st))"
| "apply_reconcile os opts p (Inr Absent) st = Undecided st"
| "apply_reconcile os opts p (Inr (Unknown reason)) st =
     Undecided (say [Verbose (p_name p @ '': reconcile state unknown ('' @ reason
       @ ''); proceeding to publish'')] st)"
| "apply_reconcile os opts p (Inl err) st =
     Undecided (say [Verbose (p_name p @ '': reconcile probe failed ('' @ err
       @ ''); proceeding to publish'')] st)"

definition reconcile_arm ::
    "'t os \<Rightarrow> dispatch_options \<Rightarrow> bool \<Rightarrow> ('t, 'w) publisher \<Rightarrow> ('t, 'w) dispatch_state \<Rightarrow> ('t, 'w) verdict" where
  "reconcile_arm os opts simulated p st =
     (if simulated \<or> is_dry_run (ds_ctx st) then Undecided st
      else let (reconciled, st) = consult_reconcile os p st
           in apply_reconcile os opts p reconciled st)"

definition verify_gate_eval ::
    "'t os \<Rightarrow> dispatch_options \<Rightarrow> ('t, 'w) verify_gate option \<Rightarrow> ('t, 'w) publisher
      \<Rightarrow> ('t, 'w) dispatch_state \<Rightarrow> ('t, 'w) dispatch_state" where
  "verify_gate_eval os opts gate p st =
     (if p_group p = Submitter \<and> gate_submitter opts
      then let (ctx, report, evs) = ensure_verify_gate_evaluated gate (ds_ctx st) (ds_report st)
           in take_snapshot os opts (say evs (st\<lparr>ds_ctx := ctx, ds_report := report\<rparr>))
      else st)"

definition verify_gate_arm ::
    "'t os \<Rightarrow> dispatch_options \<Rightarrow> ('t, 'w) publisher \<Rightarrow> ('t, 'w) dispatch_state \<Rightarrow> ('t, 'w) verdict" where
  "verify_gate_arm os opts p st =
     (if p_group p = Submitter \<and> verify_gate_blocked (ds_report st)
      then let st = say [Status (''skipping '' @ p_name p @ '' '' @ em_dash
                      @ '' blocked by the pre-submitter verify-release gate'')] st;
               st = record_row (plain_row p (Skipped VerifyGateBlocked)) st
           in Decided False (take_snapshot os opts st)
      else Undecided st)"

text \<open>The call of \<open>p.run\<close> with its slots cleared before and taken after.\<close>

definition invoke_run ::
    "('t, 'w) publisher \<Rightarrow> ('t, 'w) run_context
      \<Rightarrow> publisher_outcome \<times> publish_evidence option \<times> ('t, 'w) run_context" where
  "invoke_run p ctx =
     (let (_, ctx) = take_pending_outcome ctx;
          (_, ctx) = take_pending_evidence ctx;
          (answer, ctx) = p_run p ctx
      in case answer of
           Inr evidence \<Rightarrow>
             (let (override, ctx) = take_pending_outcome ctx;
                  (_, ctx) = take_pending_evidence ctx
              in (case override of None \<Rightarrow> Succeeded | Some oc \<Rightarrow> oc,
                  Some (evidence\<lparr>artifact_digests := snapshot_artifact_digests ctx\<rparr>), ctx))
         | Inl err \<Rightarrow>
             (let (partial, ctx) = take_pending_evidence ctx in (Failed err, partial, ctx)))"

definition run_arm ::
    "'t os \<Rightarrow> dispatch_options \<Rightarrow> bool \<Rightarrow> ('t, 'w) publisher \<Rightarrow> ('t, 'w) dispatch_state
      \<Rightarrow> bool \<times> ('t, 'w) dispatch_state" where
  "run_arm os opts simulated p st =
     (let (outcome, evidence, st) =
            (if simulated then (Failed (''simulated failure: '' @ p_name p), None, st)
             else let (outcome, evidence, ctx) = invoke_run p (ds_ctx st)
                  in (outcome, evidence,
                      say [EnterRetryScope (p_name p), CallRun (p_name p) (p_group p)] (st\<lparr>ds_ctx := ctx\<rparr>)));
          row = \<lparr>res_name = p_name p, res_group = p_group p, res_required = p_required p,
                 res_outcome = outcome, res_evidence = evidence,
                 res_entry_skips = entry_skip_reasons (ds_ctx st) (p_name p)\<rparr>
      in (is_failed outcome \<and> fail_fast opts, take_snapshot os opts (record_row row st)))"

subsection \<open>The loop\<close>

fun or_else ::
    "('t, 'w) verdict \<Rightarrow> (('t, 'w) dispatch_state \<Rightarrow> bool \<times> ('t, 'w) dispatch_state)
      \<Rightarrow> bool \<times> ('t, 'w) dispatch_state" where
  "or_else (Decided b st) k = (b, st)"
| "or_else (Undecided st) k = k st"

definition dispatch_one ::
    "'t os \<Rightarrow> dispatch_options \<Rightarrow> ('t, 'w) verify_gate option \<Rightarrow> ('t, 'w) publisher
      \<Rightarrow> ('t, 'w) dispatch_state \<Rightarrow> bool \<times> ('t, 'w) dispatch_state" where
  "dispatch_one os opts gate p st =
     or_else (one_way_door_arm os opts p st) (\<lambda>st.
     or_else (deselect_arm os opts p st) (\<lambda>st.
     or_else (inactive_arm os opts p st) (\<lambda>st.
     or_else (nightly_arm os opts p st) (\<lambda>st.
       let simulated = is_simulated (ds_ctx st) p
       in or_else (reconcile_arm os opts simulated p st) (\<lambda>st.
          or_else (verify_gate_arm os opts p (verify_gate_eval os opts gate p st)) (\<lambda>st.
            run_arm os opts simulated p st))))))"

definition dispatch ::
    "'t os \<Rightarrow> ('t, 'w) verify_gate option \<Rightarrow> ('t, 'w) publisher list \<Rightarrow> ('t, 'w) run_context \<Rightarrow> dispatch_options
      \<Rightarrow> (string, publish_report) result \<times> ('t, 'w) run_context \<times> event list" where
  "dispatch os gate publishers ctx opts =
     (let report = (case publish_report ctx of None \<Rightarrow> default_report | Some r \<Rightarrow> r);
          st = \<lparr>ds_ctx = ctx\<lparr>publish_report := None\<rparr>, ds_report = report, ds_events = []\<rparr>;
          (_, st) = for_loop (\<lambda>grp. for_loop (dispatch_one os opts gate) (filter (\<lambda>p. p_group p = grp) publishers))
                      group_dispatch_order st
      in (Inr (ds_report st), ds_ctx st, ds_events st))"

section \<open>Properties\<close>

subsection \<open>The calls of a history\<close>

fun is_line :: "event \<Rightarrow> bool" where
  "is_line (Status _) = True"
| "is_line (Verbose _) = True"
| "is_line (WarnLine _) = True"
| "is_line (ErrorLine _) = True"
| "is_line (EnterRetryScope _) = True"
| "is_line _ = False"

abbreviation calls_of :: "event list \<Rightarrow> event list" where
  "calls_of evs \<equiv> filter (\<lambda>e. \<not> is_line e) evs"

definition recorded :: "event list \<Rightarrow> publisher_result list" where
  "recorded evs = List.map_filter (\<lambda>e. case e of Recorded r \<Rightarrow> Some r | _ \<Rightarrow> None) evs"

lemma recorded_simps [simp]:
  "recorded [] = []" "recorded (a @ b) = recorded a @ recorded b" "recorded [Recorded r] = [r]"
  "recorded (Recorded r # evs) = r # recorded evs"
  "recorded (CallRun n g # evs) = recorded evs" "recorded (CallReconcile n g # evs) = recorded evs"
  "recorded (CallVerifyGate # evs) = recorded evs"
  by (simp_all add: recorded_def List.map_filter_def)

lemma recorded_calls_of [simp]: "recorded (calls_of evs) = recorded evs"
proof (induction evs)
  case (Cons e evs)
  then show ?case by (cases e) (simp_all add: recorded_def List.map_filter_def)
qed simp

lemma set_recorded: "set (recorded evs) = {r. Recorded r \<in> set evs}"
proof (induction evs)
  case (Cons e evs)
  then show ?case by (cases e) (auto simp: recorded_def List.map_filter_def)
qed simp

lemma say_simps [simp]:
  "ds_ctx (say evs st) = ds_ctx st" "ds_report (say evs st) = ds_report st"
  "ds_events (say evs st) = ds_events st @ evs"
  by (simp_all add: say_def)

lemma record_row_simps [simp]:
  "ds_ctx (record_row row st) = ds_ctx st" "ds_report (record_row row st) = push_result row (ds_report st)"
  "ds_events (record_row row st) = ds_events st @ [Recorded row]"
  by (simp_all add: record_row_def)

lemma take_snapshot_simps [simp]:
  "ds_report (take_snapshot os opts st) = ds_report st"
  "calls_of (ds_events (take_snapshot os opts st)) = calls_of (ds_events st)"
  "options (ds_ctx (take_snapshot os opts st)) = options (ds_ctx st)"
  by (auto simp: take_snapshot_def split: sum.split)

lemma plain_row_simps [simp]:
  "res_name (plain_row p oc) = p_name p" "res_group (plain_row p oc) = p_group p"
  "res_required (plain_row p oc) = p_required p" "res_outcome (plain_row p oc) = oc"
  "res_evidence (plain_row p oc) = None"
  by (simp_all add: plain_row_def)

lemma verify_gate_calls:
  assumes "ensure_verify_gate_evaluated g ctx report = (ctx', report', evs)"
  shows "calls_of evs = [] \<or> calls_of evs = [CallVerifyGate] \<and> \<not> verify_gate_evaluated report"
  using assms by (cases rule: ensure_verify_gate_cases) (auto simp: filter_map o_def)

subsection \<open>One step of the loop\<close>

text \<open>
  What one publisher contributes: at most one probe, one gate evaluation and one run, in this
  order, then exactly one row; nothing at all when a guard stops it first.
\<close>

definition step_ok ::
    "dispatch_options \<Rightarrow> ('t, 'w) publisher \<Rightarrow> ('t, 'w) dispatch_state \<Rightarrow> bool \<Rightarrow> ('t, 'w) dispatch_state
      \<Rightarrow> bool \<Rightarrow> bool \<Rightarrow> bool \<Rightarrow> publisher_result \<Rightarrow> bool" where
  "step_ok opts p st b st' rc vg rn row \<longleftrightarrow>
     calls_of (ds_events st') = calls_of (ds_events st)
       @ (if rc then [CallReconcile (p_name p) (p_group p)] else [])
       @ (if vg then [CallVerifyGate] else [])
       @ (if rn then [CallRun (p_name p) (p_group p)] else []) @ [Recorded row]
     \<and> results (ds_report st') = results (ds_report st) @ [row]
     \<and> res_name row = p_name p \<and> res_group row = p_group p \<and> res_required row = p_required p
     \<and> (b \<longleftrightarrow> fail_fast opts \<and> is_failed (res_outcome row))
     \<and> (gate_submitter opts \<and> p_group p \<noteq> Assets \<and> submitter_gate_closed (ds_report st) \<longrightarrow>
          \<not> rc \<and> \<not> vg \<and> \<not> rn)
     \<and> (publisher_deselected (ds_ctx st) (p_name p) \<longrightarrow> \<not> rc \<and> \<not> vg \<and> \<not> rn)
     \<and> (is_dry_run (ds_ctx st) \<longrightarrow> \<not> rc)
     \<and> (vg \<longrightarrow> p_group p = Submitter \<and> \<not> verify_gate_evaluated (ds_report st) \<and> verify_gate_evaluated (ds_report st'))
     \<and> (rn \<and> p_group p = Submitter \<longrightarrow>
          \<not> verify_gate_blocked (ds_report st') \<and> (gate_submitter opts \<longrightarrow> verify_gate_evaluated (ds_report st')))
     \<and> (verify_gate_evaluated (ds_report st) \<longrightarrow>
          verify_gate_evaluated (ds_report st') \<and> verify_gate_blocked (ds_report st') = verify_gate_blocked (ds_report st))
     \<and> (verify_gate_blocked (ds_report st) \<longrightarrow> verify_gate_blocked (ds_report st'))
     \<and> (p_group p \<noteq> Submitter \<or> \<not> gate_submitter opts \<longrightarrow>
          verify_gate_blocked (ds_report st') = verify_gate_blocked (ds_report st))"

lemma run_arm_row:
  assumes "run_arm os opts simulated p st = (b, st')"
  obtains rn row where
    "calls_of (ds_events st') = calls_of (ds_events st)
       @ (if rn then [CallRun (p_name p) (p_group p)] else []) @ [Recorded row]"
    "ds_report st' = push_result row (ds_report st)"
    "res_name row = p_name p" "res_group row = p_group p" "res_required row = p_required p"
    "b \<longleftrightarrow> fail_fast opts \<and> is_failed (res_outcome row)"
proof -
  obtain oc ev st1 where pick:
      "(if simulated then (Failed (''simulated failure: '' @ p_name p), None, st)
        else let (outcome, evidence, ctx) = invoke_run p (ds_ctx st)
             in (outcome, evidence,
                 say [EnterRetryScope (p_name p), CallRun (p_name p) (p_group p)] (st\<lparr>ds_ctx := ctx\<rparr>)))
       = (oc, ev, st1)"
    by (metis prod_cases3)
  then have calls: "calls_of (ds_events st1) = calls_of (ds_events st)
        @ (if simulated then [] else [CallRun (p_name p) (p_group p)])" "ds_report st1 = ds_report st"
    by (auto split: if_splits prod.splits)
  let ?row = "\<lparr>res_name = p_name p, res_group = p_group p, res_required = p_required p,
                 res_outcome = oc, res_evidence = ev,
                 res_entry_skips = entry_skip_reasons (ds_ctx st1) (p_name p)\<rparr>"
  from assms have "b = (is_failed oc \<and> fail_fast opts)" "st' = take_snapshot os opts (record_row ?row st1)"
    unfolding run_arm_def pick by simp_all
  then show ?thesis
    using calls by (intro that [of "\<not> simulated" ?row]) auto
qed

lemma verify_gate_eval_facts:
  assumes "verify_gate_eval os opts gate p st = st1"
  obtains vg where "calls_of (ds_events st1) = calls_of (ds_events st) @ (if vg then [CallVerifyGate] else [])"
    "results (ds_report st1) = results (ds_report st)"
    "vg \<longrightarrow> p_group p = Submitter \<and> \<not> verify_gate_evaluated (ds_report st)"
    "gate_submitter opts \<and> p_group p = Submitter \<longrightarrow> verify_gate_evaluated (ds_report st1)"
    "verify_gate_evaluated (ds_report st) \<longrightarrow> ds_report st1 = ds_report st"
    "verify_gate_blocked (ds_report st) \<longrightarrow> verify_gate_blocked (ds_report st1)"
    "p_group p \<noteq> Submitter \<or> \<not> gate_submitter opts \<longrightarrow> ds_report st1 = ds_report st"
    "vg \<longrightarrow> verify_gate_evaluated (ds_report st1)"
proof (cases "p_group p = Submitter \<and> gate_submitter opts")
  case False
  with assms show ?thesis by (intro that [of False]) (auto simp: verify_gate_eval_def)
next
  case True
  obtain c r evs where ens: "ensure_verify_gate_evaluated gate (ds_ctx st) (ds_report st) = (c, r, evs)"
    by (metis prod_cases3)
  have st1: "st1 = take_snapshot os opts (say evs (st\<lparr>ds_ctx := c, ds_report := r\<rparr>))"
    using assms True by (simp add: verify_gate_eval_def ens)
  have same: "verify_gate_evaluated (ds_report st) \<Longrightarrow> r = ds_report st"
    using ens by (simp add: ensure_verify_gate_evaluated_def)
  show ?thesis
    using True verify_gate_calls [OF ens] verify_gate_keeps [OF ens] same
    by (intro that [of "calls_of evs \<noteq> []"]) (auto simp: st1)
qed

lemma consult_reconcile_facts:
  assumes "consult_reconcile os p st = (ans, st1)"
  obtains rc where "calls_of (ds_events st1) = calls_of (ds_events st)
       @ (if rc then [CallReconcile (p_name p) (p_group p)] else [])" "ds_report st1 = ds_report st"
proof (cases "ledger_fast_path os (ds_ctx st) (p_name p) (snapshot_artifact_digests (ds_ctx st))")
  case None
  with assms show ?thesis by (intro that [of True]) (auto simp: consult_reconcile_def split: prod.splits)
next
  case (Some state)
  with assms show ?thesis by (intro that [of False]) (auto simp: consult_reconcile_def)
qed

lemma apply_reconcile_facts:
  "case apply_reconcile os opts p ans st of
     Decided b st1 \<Rightarrow> (\<exists>oc. calls_of (ds_events st1) = calls_of (ds_events st) @ [Recorded (plain_row p oc)]
       \<and> ds_report st1 = push_result (plain_row p oc) (ds_report st)
       \<and> (b \<longleftrightarrow> fail_fast opts \<and> is_failed oc))
   | Undecided st1 \<Rightarrow> calls_of (ds_events st1) = calls_of (ds_events st) \<and> ds_report st1 = ds_report st"
proof (cases ans)
  case (Inr state)
  then show ?thesis
    by (cases state) (auto intro: exI [of _ "Skipped AlreadyPublished"] exI [of _ "Failed (diverged_msg _)"])
qed simp

lemma reconcile_arm_facts:
  obtains rc where "rc \<longrightarrow> \<not> is_dry_run (ds_ctx st)"
    "case reconcile_arm os opts simulated p st of
       Decided b st1 \<Rightarrow> (\<exists>oc. calls_of (ds_events st1) = calls_of (ds_events st)
           @ (if rc then [CallReconcile (p_name p) (p_group p)] else []) @ [Recorded (plain_row p oc)]
         \<and> ds_report st1 = push_result (plain_row p oc) (ds_report st)
         \<and> (b \<longleftrightarrow> fail_fast opts \<and> is_failed oc))
     | Undecided st1 \<Rightarrow> calls_of (ds_events st1) = calls_of (ds_events st)
           @ (if rc then [CallReconcile (p_name p) (p_group p)] else []) \<and> ds_report st1 = ds_report st"
proof (cases "simulated \<or> is_dry_run (ds_ctx st)")
  case True
  then show ?thesis by (intro that [of False]) (auto simp: reconcile_arm_def)
next
  case False
  obtain ans st0 where con: "consult_reconcile os p st = (ans, st0)" by (cases "consult_reconcile os p st")
  obtain rc where rc: "calls_of (ds_events st0) = calls_of (ds_events st)
       @ (if rc then [CallReconcile (p_name p) (p_group p)] else [])" "ds_report st0 = ds_report st"
    using consult_reconcile_facts [OF con] by blast
  have arm: "reconcile_arm os opts simulated p st = apply_reconcile os opts p ans st0"
    using False by (simp add: reconcile_arm_def con)
  show ?thesis
    using apply_reconcile_facts [where os = os and opts = opts and p = p and ans = ans and st = st0] False unfolding arm [symmetric]
    by (intro that [of rc]) (auto simp: rc split: verdict.splits)
qed

lemma skip_arm_step:
  assumes "ds_report st1 = push_result (plain_row p (Skipped reason)) (ds_report st)
       \<or> ds_report st1 = (push_result (plain_row p (Skipped reason)) (ds_report st))\<lparr>submitter_gated := True\<rparr>"
    and "calls_of (ds_events st1) = calls_of (ds_events st) @ [Recorded (plain_row p (Skipped reason))]"
  shows "step_ok opts p st False st1 False False False (plain_row p (Skipped reason))"
  using assms by (auto simp: step_ok_def)

lemma dispatch_one_step:
  assumes "dispatch_one os opts gate p st = (b, st')"
  shows "\<exists>rc vg rn row. step_ok opts p st b st' rc vg rn row"
proof (cases "(p_group p = Manager \<or> p_group p = Submitter) \<and> gate_submitter opts \<and> submitter_gate_closed (ds_report st)")
  case True
  with assms have "step_ok opts p st b st' False False False (plain_row p (Skipped SubmitterGated))"
    by (auto simp: dispatch_one_def one_way_door_arm_def intro!: skip_arm_step)
  then show ?thesis by blast
next
  case ungated: False
  consider (des) "publisher_deselected (ds_ctx st) (p_name p)"
    | (ina) "\<not> publisher_deselected (ds_ctx st) (p_name p)" "p_config_fully_inactive p (ds_ctx st)"
    | (nig) "\<not> publisher_deselected (ds_ctx st) (p_name p)" "\<not> p_config_fully_inactive p (ds_ctx st)"
        "is_nightly (ds_ctx st)" "p_skips_on_nightly p"
    | (live) "\<not> publisher_deselected (ds_ctx st) (p_name p)" "\<not> p_config_fully_inactive p (ds_ctx st)"
        "\<not> (is_nightly (ds_ctx st) \<and> p_skips_on_nightly p)"
    by blast
  then show ?thesis
  proof cases
    case des
    with assms ungated have "step_ok opts p st b st' False False False (plain_row p (Skipped Deselected))"
      by (auto simp: dispatch_one_def one_way_door_arm_def deselect_arm_def intro!: skip_arm_step split: if_splits)
    then show ?thesis by blast
  next
    case ina
    with assms ungated have "step_ok opts p st b st' False False False (plain_row p (Skipped ConfigSkipped))"
      by (auto simp: dispatch_one_def one_way_door_arm_def deselect_arm_def inactive_arm_def
          intro!: skip_arm_step split: if_splits)
    then show ?thesis by blast
  next
    case nig
    with assms ungated have "step_ok opts p st b st' False False False (plain_row p (Skipped Nightly))"
      by (auto simp: dispatch_one_def one_way_door_arm_def deselect_arm_def inactive_arm_def nightly_arm_def
          intro!: skip_arm_step split: if_splits)
    then show ?thesis by blast
  next
    case live
    let ?sim = "is_simulated (ds_ctx st) p"
    have open1: "\<not> (gate_submitter opts \<and> p_group p \<noteq> Assets \<and> submitter_gate_closed (ds_report st))"
      using ungated by (cases "p_group p") auto
    have tail: "or_else (reconcile_arm os opts ?sim p st) (\<lambda>st.
          or_else (verify_gate_arm os opts p (verify_gate_eval os opts gate p st)) (\<lambda>st.
            run_arm os opts ?sim p st)) = (b, st')"
      using assms ungated live
      by (auto simp: dispatch_one_def one_way_door_arm_def deselect_arm_def inactive_arm_def nightly_arm_def
          Let_def split: if_splits)
    obtain rc where rc: "rc \<longrightarrow> \<not> is_dry_run (ds_ctx st)" and
      arm: "case reconcile_arm os opts ?sim p st of
       Decided b st1 \<Rightarrow> (\<exists>oc. calls_of (ds_events st1) = calls_of (ds_events st)
           @ (if rc then [CallReconcile (p_name p) (p_group p)] else []) @ [Recorded (plain_row p oc)]
         \<and> ds_report st1 = push_result (plain_row p oc) (ds_report st)
         \<and> (b \<longleftrightarrow> fail_fast opts \<and> is_failed oc))
     | Undecided st1 \<Rightarrow> calls_of (ds_events st1) = calls_of (ds_events st)
           @ (if rc then [CallReconcile (p_name p) (p_group p)] else []) \<and> ds_report st1 = ds_report st"
      using reconcile_arm_facts by blast
    show ?thesis
    proof (cases "reconcile_arm os opts ?sim p st")
      case (Decided b1 st1)
      with tail have "b1 = b" "st1 = st'" by simp_all
      with arm Decided obtain oc where "calls_of (ds_events st') = calls_of (ds_events st)
           @ (if rc then [CallReconcile (p_name p) (p_group p)] else []) @ [Recorded (plain_row p oc)]"
         "ds_report st' = push_result (plain_row p oc) (ds_report st)" "b \<longleftrightarrow> fail_fast opts \<and> is_failed oc"
        by auto
      with open1 live rc have "step_ok opts p st b st' rc False False (plain_row p oc)"
        by (auto simp: step_ok_def)
      then show ?thesis by blast
    next
      case (Undecided st1)
      let ?st2 = "verify_gate_eval os opts gate p st1"
      have st1: "calls_of (ds_events st1) = calls_of (ds_events st)
           @ (if rc then [CallReconcile (p_name p) (p_group p)] else [])" "ds_report st1 = ds_report st"
        using arm Undecided by auto
      obtain vg where vg: "calls_of (ds_events ?st2) = calls_of (ds_events st1) @ (if vg then [CallVerifyGate] else [])"
        "results (ds_report ?st2) = results (ds_report st1)"
        "vg \<longrightarrow> p_group p = Submitter \<and> \<not> verify_gate_evaluated (ds_report st1)"
        "gate_submitter opts \<and> p_group p = Submitter \<longrightarrow> verify_gate_evaluated (ds_report ?st2)"
        "verify_gate_evaluated (ds_report st1) \<longrightarrow> ds_report ?st2 = ds_report st1"
        "verify_gate_blocked (ds_report st1) \<longrightarrow> verify_gate_blocked (ds_report ?st2)"
        "p_group p \<noteq> Submitter \<or> \<not> gate_submitter opts \<longrightarrow> ds_report ?st2 = ds_report st1"
        "vg \<longrightarrow> verify_gate_evaluated (ds_report ?st2)"
        using verify_gate_eval_facts [OF refl] by blast
      show ?thesis
      proof (cases "p_group p = Submitter \<and> verify_gate_blocked (ds_report ?st2)")
        case True
        let ?row = "plain_row p (Skipped VerifyGateBlocked)"
        have row: "calls_of (ds_events st') = calls_of (ds_events ?st2) @ [Recorded ?row]"
          "ds_report st' = push_result ?row (ds_report ?st2)" "b = False"
          using tail Undecided True by (auto simp: verify_gate_arm_def)
        have "step_ok opts p st b st' rc vg False ?row"
          unfolding step_ok_def row(2) push_result_flags results_push_result
          using row st1 vg open1 live rc True by auto
        then show ?thesis by blast
      next
        case False
        with tail Undecided have run: "run_arm os opts ?sim p ?st2 = (b, st')"
          by (auto simp: verify_gate_arm_def)
        obtain rn row where row: "calls_of (ds_events st') = calls_of (ds_events ?st2)
             @ (if rn then [CallRun (p_name p) (p_group p)] else []) @ [Recorded row]"
          "ds_report st' = push_result row (ds_report ?st2)"
          "res_name row = p_name p" "res_group row = p_group p" "res_required row = p_required p"
          "b \<longleftrightarrow> fail_fast opts \<and> is_failed (res_outcome row)"
          using run_arm_row [OF run] by blast
        have "step_ok opts p st b st' rc vg rn row"
          unfolding step_ok_def row(2) push_result_flags results_push_result
          using row st1 vg open1 live rc False by auto
        then show ?thesis by blast
      qed
    qed
  qed
qed

subsection \<open>The whole loop\<close>

definition dispatch_order :: "('t, 'w) publisher list \<Rightarrow> ('t, 'w) publisher list" where
  "dispatch_order publishers = concat (map (\<lambda>grp. filter (\<lambda>p. p_group p = grp) publishers) group_dispatch_order)"

definition seed_report :: "('t, 'w) run_context \<Rightarrow> publish_report" where
  "seed_report ctx = (case publish_report ctx of None \<Rightarrow> default_report | Some r \<Rightarrow> r)"

definition start_state :: "('t, 'w) run_context \<Rightarrow> ('t, 'w) dispatch_state" where
  "start_state ctx = \<lparr>ds_ctx = ctx\<lparr>publish_report := None\<rparr>, ds_report = seed_report ctx, ds_events = []\<rparr>"

lemma start_state_simps [simp]:
  "ds_report (start_state ctx) = seed_report ctx" "ds_events (start_state ctx) = []"
  "options (ds_ctx (start_state ctx)) = options ctx"
  by (simp_all add: start_state_def)

lemma dispatch_flat:
  assumes "dispatch os gate publishers ctx opts = (res, ctx', evs)"
  obtains b st where "for_loop (dispatch_one os opts gate) (dispatch_order publishers) (start_state ctx) = (b, st)"
    "res = Inr (ds_report st)" "ctx' = ds_ctx st" "evs = ds_events st"
  using assms
  by (auto simp: dispatch_def dispatch_order_def start_state_def seed_report_def for_loop_nested
      split: prod.splits option.splits)

lemma set_dispatch_order [simp]: "set (dispatch_order publishers) = set publishers"
proof -
  have "p_group p = Assets \<or> p_group p = Manager \<or> p_group p = Submitter" for p :: "('a, 'b) publisher"
    by (cases "p_group p") simp_all
  then show ?thesis by (auto simp: dispatch_order_def group_dispatch_order_def)
qed

text \<open>An invariant of every step holds at the end, wherever the loop stops.\<close>

lemma dispatch_invariant:
  assumes "dispatch os gate publishers ctx opts = (res, ctx', evs)" and "I (start_state ctx)"
    and "\<And>p st b st' rc vg rn row. p \<in> set publishers \<Longrightarrow> I st \<Longrightarrow>
           dispatch_one os opts gate p st = (b, st') \<Longrightarrow> step_ok opts p st b st' rc vg rn row \<Longrightarrow> I st'"
  shows "\<exists>st. I st \<and> res = Inr (ds_report st) \<and> ctx' = ds_ctx st \<and> evs = ds_events st"
proof -
  obtain b st where loop: "for_loop (dispatch_one os opts gate) (dispatch_order publishers) (start_state ctx) = (b, st)"
    and fin: "res = Inr (ds_report st)" "ctx' = ds_ctx st" "evs = ds_events st"
    using dispatch_flat [OF assms(1)] by blast
  have "I (snd (dispatch_one os opts gate p st))" if "p \<in> set (dispatch_order publishers)" "I st" for p st
  proof -
    obtain b st' where one: "dispatch_one os opts gate p st = (b, st')" by (cases "dispatch_one os opts gate p st")
    then obtain rc vg rn row where "step_ok opts p st b st' rc vg rn row" using dispatch_one_step by blast
    with assms(3) [of p st b st'] that one show ?thesis by simp
  qed
  then have "I st"
    using for_loop_invariant [of I "start_state ctx" "dispatch_order publishers"] assms(2) loop by force
  with fin show ?thesis by blast
qed

lemma step_ok_results:
  assumes "step_ok opts p st b st' rc vg rn row" "results (ds_report st) = seed @ recorded (ds_events st)"
  shows "results (ds_report st') = seed @ recorded (ds_events st')"
proof -
  from assms(1) have "recorded (calls_of (ds_events st')) = recorded (calls_of (ds_events st)) @ [row]"
    "results (ds_report st') = results (ds_report st) @ [row]"
    unfolding step_ok_def by auto
  with assms(2) show ?thesis by simp
qed

subsection \<open>Gate safety\<close>

definition broken :: "publisher_result list \<Rightarrow> bool" where
  "broken rows \<longleftrightarrow> (\<exists>r \<in> set rows. res_required r \<and> is_failed (res_outcome r))"

lemma gate_closed_broken: "submitter_gate_closed report \<longleftrightarrow> broken (results report)"
  by (simp add: submitter_gate_closed_iff broken_def)

fun gate_allows :: "publisher_result list \<Rightarrow> event list \<Rightarrow> event \<Rightarrow> bool" where
  "gate_allows seed pre (CallRun n g) \<longleftrightarrow> g = Assets \<or> \<not> broken (seed @ recorded pre)"
| "gate_allows seed pre (CallReconcile n g) \<longleftrightarrow> g = Assets \<or> \<not> broken (seed @ recorded pre)"
| "gate_allows seed pre CallVerifyGate \<longleftrightarrow> \<not> broken (seed @ recorded pre)"
| "gate_allows seed pre _ \<longleftrightarrow> True"

lemma step_ok_gate_guard:
  assumes step: "step_ok opts p st b st' rc vg rn row" and "gate_submitter opts"
    and res: "results (ds_report st) = seed @ recorded (ds_events st)"
    and guard: "guarded (gate_allows seed) (calls_of (ds_events st))"
  shows "guarded (gate_allows seed) (calls_of (ds_events st'))"
proof -
  let ?h = "calls_of (ds_events st)"
  have calls: "calls_of (ds_events st') = ?h
       @ (if rc then [CallReconcile (p_name p) (p_group p)] else [])
       @ (if vg then [CallVerifyGate] else [])
       @ (if rn then [CallRun (p_name p) (p_group p)] else []) @ [Recorded row]"
    and stop: "p_group p \<noteq> Assets \<and> broken (seed @ recorded ?h) \<longrightarrow> \<not> rc \<and> \<not> vg \<and> \<not> rn"
    and sub: "vg \<longrightarrow> p_group p = Submitter"
    using step assms(2) res unfolding step_ok_def gate_closed_broken by auto
  show ?thesis unfolding calls using guard stop sub by (cases rc; cases vg; cases rn) auto
qed

lemma dispatch_gate_guard:
  fixes ctx :: "('t, 'w) run_context"
  assumes "dispatch os gate publishers ctx opts = (res, ctx', evs)" and "gate_submitter opts"
  shows "guarded (gate_allows (results (seed_report ctx))) evs"
proof -
  let ?seed = "results (seed_report ctx)"
  let ?I = "\<lambda>st :: ('t, 'w) dispatch_state. results (ds_report st) = ?seed @ recorded (ds_events st)
      \<and> guarded (gate_allows ?seed) (calls_of (ds_events st))"
  have "\<exists>st. ?I st \<and> res = Inr (ds_report st) \<and> ctx' = ds_ctx st \<and> evs = ds_events st"
  proof (rule dispatch_invariant [where I = ?I, OF assms(1)])
    fix p st b st' rc vg rn row
    assume "?I st" and "step_ok opts p st b st' rc vg rn row"
    then show "?I st'" using step_ok_results step_ok_gate_guard [OF _ assms(2)] by blast
  qed simp
  then have "guarded (gate_allows ?seed) (calls_of evs)" by auto
  then show ?thesis
  proof (rule guarded_filter)
    fix pre e
    assume "gate_allows ?seed (calls_of pre) e"
    then show "gate_allows ?seed pre e" by (cases e) simp_all
  next
    fix pre e
    assume "\<not> \<not> is_line e"
    then show "gate_allows ?seed pre e" by (cases e) simp_all
  qed
qed

text \<open>
  C1. No one-way door after a required failure: with the gate armed, once the report holds a
  failed row of a required publisher -- seeded by an earlier stage or recorded earlier in this
  dispatch -- no Manager or Submitter publisher is run or probed any more, and the verify gate is
  not asked, whatever the publishers do.
\<close>
theorem no_one_way_door_after_required_failure:
  assumes "dispatch os gate publishers ctx opts = (res, ctx', evs)" and "gate_submitter opts"
    and "evs = pre @ call # post"
    and "Recorded r \<in> set pre \<or> (\<exists>seed. publish_report ctx = Some seed \<and> r \<in> set (results seed))"
    and "res_required r" and "res_outcome r = Failed msg"
  shows "call \<noteq> CallRun name Manager \<and> call \<noteq> CallRun name Submitter
     \<and> call \<noteq> CallReconcile name Manager \<and> call \<noteq> CallReconcile name Submitter \<and> call \<noteq> CallVerifyGate"
proof -
  have "gate_allows (results (seed_report ctx)) pre call"
    using dispatch_gate_guard [OF assms(1,2)] assms(3) unfolding guarded_def by blast
  moreover have "r \<in> set (results (seed_report ctx) @ recorded pre)"
    using assms(4) by (auto simp: set_recorded seed_report_def)
  then have "broken (results (seed_report ctx) @ recorded pre)"
    using assms(5,6) unfolding broken_def by (metis is_failed.simps(1))
  ultimately show ?thesis by auto
qed

text \<open>A publisher whose run answers a fixed result and whose other methods are the trait's defaults.\<close>

definition stub_publisher ::
    "string \<Rightarrow> publisher_group \<Rightarrow> bool \<Rightarrow> (string, publish_evidence) result \<Rightarrow> (doc, unit) publisher" where
  "stub_publisher name grp required answer =
     \<lparr>p_name = name, p_group = grp, p_required = required, p_run = (\<lambda>ctx. (answer, ctx)),
      p_rollback = default_rollback, p_preflight = default_preflight, p_reconcile = default_reconcile,
      p_rollback_scope_needed = None, p_missing_rollback_scope = (\<lambda>_. None),
      p_config_fully_inactive = (\<lambda>_. False), p_skips_on_nightly = False, p_retain_on_rollback = False\<rparr>"

lemmas dispatch_eval = dispatch_def dispatch_one_def one_way_door_arm_def deselect_arm_def inactive_arm_def
  nightly_arm_def reconcile_arm_def consult_reconcile_def verify_gate_eval_def verify_gate_arm_def run_arm_def
  invoke_run_def take_snapshot_def stub_publisher_def group_dispatch_order_def default_dispatch_options_def
  default_report_def default_reconcile_def take_pending_outcome_def take_pending_evidence_def
  publisher_deselected_iff is_simulated_def ledger_fast_path_def collect_run_summary_paths_def layout_roots_def
  summaries_in_def mem_os_def ensure_verify_gate_evaluated_def entry_skip_reasons_def snapshot_artifact_digests_def
  btree_collect_def List.map_filter_def submitter_gate_closed_iff test_context_def test_options_def ctx_defs
  record_row_def say_def push_result_def plain_row_def Let_def

lemma stub_dispatch_history:
  "snd (snd (dispatch mem_os None
       [stub_publisher ''cargo'' Submitter True (Inr (new_evidence ''cargo'')),
        stub_publisher ''blob'' Assets True (Inl ''HTTP 503'')]
       (test_context :: (doc, unit) run_context) default_dispatch_options)) =
     [EnterRetryScope ''blob'', CallReconcile ''blob'' Assets, EnterRetryScope ''blob'', CallRun ''blob'' Assets,
      Recorded (plain_row (stub_publisher ''blob'' Assets True (Inl ''HTTP 503'')) (Failed ''HTTP 503'')),
      Status (''skipping cargo '' @ em_dash @ '' gated by an earlier required failure (one-way-door protection)''),
      Recorded (plain_row (stub_publisher ''cargo'' Submitter True (Inr (new_evidence ''cargo''))) (Skipped SubmitterGated))]"
  by (simp add: dispatch_eval)

theorem no_one_way_door_after_required_failure_witness:
  "\<exists>pre line post. snd (snd (dispatch mem_os None
       [stub_publisher ''cargo'' Submitter True (Inr (new_evidence ''cargo'')),
        stub_publisher ''blob'' Assets True (Inl ''HTTP 503'')]
       (test_context :: (doc, unit) run_context) default_dispatch_options)) = pre @ line # post
     \<and> line \<noteq> CallRun ''cargo'' Submitter"
proof -
  let ?blob = "stub_publisher ''blob'' Assets True (Inl ''HTTP 503'')"
  let ?row = "plain_row ?blob (Failed ''HTTP 503'')"
  let ?d = "dispatch mem_os None
       [stub_publisher ''cargo'' Submitter True (Inr (new_evidence ''cargo'')), ?blob]
       (test_context :: (doc, unit) run_context) default_dispatch_options"
  obtain res ctx' evs where d: "?d = (res, ctx', evs)" by (metis prod_cases3)
  then have "evs = [EnterRetryScope ''blob'', CallReconcile ''blob'' Assets, EnterRetryScope ''blob'',
      CallRun ''blob'' Assets, Recorded ?row]
    @ Status (''skipping cargo '' @ em_dash @ '' gated by an earlier required failure (one-way-door protection)'')
    # [Recorded (plain_row (stub_publisher ''cargo'' Submitter True (Inr (new_evidence ''cargo''))) (Skipped SubmitterGated))]"
    (is "_ = ?pre @ ?line # ?post")
    using stub_dispatch_history by simp
  moreover from no_one_way_door_after_required_failure [OF d _ this, of ?row "''HTTP 503''" "''cargo''"]
  have "?line \<noteq> CallRun ''cargo'' Submitter"
    by (simp add: default_dispatch_options_def stub_publisher_def)
  ultimately show ?thesis using d by (intro exI [of _ ?pre] exI [of _ ?line] exI [of _ ?post]) simp
qed

subsection \<open>Rows\<close>

fun group_rank :: "publisher_group \<Rightarrow> nat" where
  "group_rank Assets = 0"
| "group_rank Manager = 1"
| "group_rank Submitter = 2"

abbreviation row_key :: "publisher_result \<Rightarrow> string \<times> publisher_group \<times> bool" where
  "row_key r \<equiv> (res_name r, res_group r, res_required r)"

abbreviation publisher_key :: "('t, 'w) publisher \<Rightarrow> string \<times> publisher_group \<times> bool" where
  "publisher_key p \<equiv> (p_name p, p_group p, p_required p)"

lemma dispatch_order_sorted: "sorted (map (\<lambda>p. group_rank (p_group p)) (dispatch_order publishers))"
proof -
  have const: "sorted (map (\<lambda>p. group_rank (p_group p)) (filter (\<lambda>p. p_group p = grp) ps))"
    for grp and ps :: "('a, 'b) publisher list"
    by (induction ps) auto
  show ?thesis
    by (auto simp: dispatch_order_def group_dispatch_order_def sorted_append const)
qed

lemma mset_dispatch_order: "mset (dispatch_order publishers) = mset publishers"
proof (induction publishers)
  case (Cons p ps)
  then show ?case by (cases "p_group p") (simp_all add: dispatch_order_def group_dispatch_order_def)
qed (simp add: dispatch_order_def group_dispatch_order_def)

lemma loop_rows:
  assumes "for_loop (dispatch_one os opts gate) ps st = (b, st')"
    and "results (ds_report st) = seed"
  shows "\<exists>rows. results (ds_report st') = seed @ rows
     \<and> map row_key rows = map publisher_key (take (length rows) ps) \<and> length rows \<le> length ps
     \<and> (if b then fail_fast opts \<and> rows \<noteq> [] \<and> is_failed (res_outcome (last rows)) else length rows = length ps)"
  using assms
proof (induction ps arbitrary: st seed)
  case (Cons p ps)
  obtain b1 st1 where one: "dispatch_one os opts gate p st = (b1, st1)" by (cases "dispatch_one os opts gate p st")
  then obtain rc vg rn row where step: "step_ok opts p st b1 st1 rc vg rn row" using dispatch_one_step by blast
  then have row: "results (ds_report st1) = (seed @ [row])" "row_key row = publisher_key p"
    "b1 \<longleftrightarrow> fail_fast opts \<and> is_failed (res_outcome row)"
    using Cons.prems(2) unfolding step_ok_def by auto
  show ?case
  proof (cases b1)
    case True
    with Cons.prems one row show ?thesis by (intro exI [of _ "[row]"]) auto
  next
    case False
    with Cons.prems one have "for_loop (dispatch_one os opts gate) ps st1 = (b, st')" by simp
    from Cons.IH [OF this row(1)] obtain rows where rows: "results (ds_report st') = (seed @ [row]) @ rows"
      "map row_key rows = map publisher_key (take (length rows) ps)" "length rows \<le> length ps"
      "if b then fail_fast opts \<and> rows \<noteq> [] \<and> is_failed (res_outcome (last rows)) else length rows = length ps"
      by blast
    with row show ?thesis by (intro exI [of _ "row # rows"]) (auto split: if_splits)
  qed
qed auto

text \<open>
  C2. The report enumerates the run: dispatch never fails, it keeps every seeded row, and it
  appends one row per publisher, in the order Assets, Manager, Submitter and in the registry's
  order within a group, carrying that publisher's name, group and requirement. It stops early
  only under \<open>fail_fast\<close>, and then right after a failed row.
\<close>
theorem dispatch_one_row_per_publisher:
  assumes "dispatch os gate publishers ctx opts = (res, ctx', evs)"
  shows "\<exists>report rows. res = Inr report \<and> results report = results (seed_report ctx) @ rows
     \<and> map row_key rows = map publisher_key (take (length rows) (dispatch_order publishers))
     \<and> sorted (map (\<lambda>r. group_rank (res_group r)) rows)
     \<and> mset (dispatch_order publishers) = mset publishers
     \<and> (length rows = length publishers
        \<or> fail_fast opts \<and> rows \<noteq> [] \<and> is_failed (res_outcome (last rows)))"
proof -
  obtain b st where loop: "for_loop (dispatch_one os opts gate) (dispatch_order publishers) (start_state ctx) = (b, st)"
    and res: "res = Inr (ds_report st)"
    using dispatch_flat [OF assms] by blast
  from loop_rows [OF loop refl] obtain rows where rows: "results (ds_report st) = results (seed_report ctx) @ rows"
      "map row_key rows = map publisher_key (take (length rows) (dispatch_order publishers))"
      "if b then fail_fast opts \<and> rows \<noteq> [] \<and> is_failed (res_outcome (last rows))
       else length rows = length (dispatch_order publishers)"
    by auto
  have "map (\<lambda>r. group_rank (res_group r)) rows = map (\<lambda>k. group_rank (fst (snd k))) (map row_key rows)"
    by simp
  also have "\<dots> = take (length rows) (map (\<lambda>p. group_rank (p_group p)) (dispatch_order publishers))"
    unfolding rows(2) by (simp add: take_map)
  finally have "sorted (map (\<lambda>r. group_rank (res_group r)) rows)"
    by (simp add: sorted_wrt_take dispatch_order_sorted)
  moreover have "length (dispatch_order publishers) = length publishers"
    by (metis mset_dispatch_order size_mset)
  ultimately show ?thesis using res rows mset_dispatch_order by (auto split: if_splits)
qed

theorem dispatch_one_row_per_publisher_witness:
  "\<exists>report rows. fst (dispatch mem_os None
       [stub_publisher ''cargo'' Submitter True (Inr (new_evidence ''cargo'')),
        stub_publisher ''blob'' Assets True (Inl ''HTTP 503'')]
       (test_context :: (doc, unit) run_context) default_dispatch_options) = Inr report
     \<and> results report = rows \<and> length rows = 2"
proof -
  let ?ps = "[stub_publisher ''cargo'' Submitter True (Inr (new_evidence ''cargo'')),
        stub_publisher ''blob'' Assets True (Inl ''HTTP 503'')]"
  let ?d = "dispatch mem_os None ?ps (test_context :: (doc, unit) run_context) default_dispatch_options"
  have "?d = (fst ?d, fst (snd ?d), snd (snd ?d))" by simp
  from dispatch_one_row_per_publisher [OF this] show ?thesis
    by (auto simp: default_dispatch_options_def seed_report_def test_context_def default_report_def)
qed

subsection \<open>The verify gate in the loop\<close>

abbreviation gate_asks :: "event list \<Rightarrow> nat" where
  "gate_asks evs \<equiv> length (filter (\<lambda>e. e = CallVerifyGate) evs)"

lemma gate_asks_calls_of: "gate_asks (calls_of evs) = gate_asks evs"
proof (induction evs)
  case (Cons e evs)
  then show ?case by (cases e) auto
qed simp

lemma run_in_calls_of: "CallRun n g \<in> set (calls_of evs) \<longleftrightarrow> CallRun n g \<in> set evs"
  by auto

definition verify_inv :: "dispatch_options \<Rightarrow> bool \<Rightarrow> ('t, 'w) dispatch_state \<Rightarrow> bool" where
  "verify_inv opts seeded st \<longleftrightarrow>
     gate_asks (calls_of (ds_events st)) \<le> (if verify_gate_evaluated (ds_report st) \<and> \<not> seeded then 1 else 0)
     \<and> (seeded \<longrightarrow> verify_gate_evaluated (ds_report st))
     \<and> ((\<exists>n. CallRun n Submitter \<in> set (calls_of (ds_events st))) \<longrightarrow>
          \<not> verify_gate_blocked (ds_report st) \<and> (gate_submitter opts \<longrightarrow> verify_gate_evaluated (ds_report st)))"

lemma step_ok_verify_inv:
  assumes "step_ok opts p st b st' rc vg rn row" and inv: "verify_inv opts seeded st"
  shows "verify_inv opts seeded st'"
proof -
  have calls: "calls_of (ds_events st') = calls_of (ds_events st)
       @ (if rc then [CallReconcile (p_name p) (p_group p)] else [])
       @ (if vg then [CallVerifyGate] else [])
       @ (if rn then [CallRun (p_name p) (p_group p)] else []) @ [Recorded row]"
    and vg: "vg \<longrightarrow> p_group p = Submitter \<and> \<not> verify_gate_evaluated (ds_report st) \<and> verify_gate_evaluated (ds_report st')"
    and rn: "rn \<and> p_group p = Submitter \<longrightarrow>
          \<not> verify_gate_blocked (ds_report st') \<and> (gate_submitter opts \<longrightarrow> verify_gate_evaluated (ds_report st'))"
    and ev: "verify_gate_evaluated (ds_report st) \<longrightarrow>
          verify_gate_evaluated (ds_report st') \<and> verify_gate_blocked (ds_report st') = verify_gate_blocked (ds_report st)"
    and bl: "p_group p \<noteq> Submitter \<or> \<not> gate_submitter opts \<longrightarrow>
          verify_gate_blocked (ds_report st') = verify_gate_blocked (ds_report st)"
    using assms(1) unfolding step_ok_def by blast+
  have asks: "gate_asks (calls_of (ds_events st')) = gate_asks (calls_of (ds_events st)) + (if vg then 1 else 0)"
    unfolding calls by (cases rc; cases vg; cases rn) simp_all
  have runs: "CallRun n Submitter \<in> set (calls_of (ds_events st')) \<longleftrightarrow>
      CallRun n Submitter \<in> set (calls_of (ds_events st)) \<or> rn \<and> n = p_name p \<and> p_group p = Submitter" for n
    unfolding calls by (cases rc; cases vg; cases rn) auto
  have "gate_asks (calls_of (ds_events st')) \<le> (if verify_gate_evaluated (ds_report st') \<and> \<not> seeded then 1 else 0)"
    unfolding asks using inv vg ev unfolding verify_inv_def by (cases vg; cases seeded) (auto split: if_splits)
  moreover have "seeded \<longrightarrow> verify_gate_evaluated (ds_report st')"
    using inv ev unfolding verify_inv_def by blast
  moreover have "(\<exists>n. CallRun n Submitter \<in> set (calls_of (ds_events st'))) \<longrightarrow>
          \<not> verify_gate_blocked (ds_report st') \<and> (gate_submitter opts \<longrightarrow> verify_gate_evaluated (ds_report st'))"
    unfolding runs using inv rn ev bl unfolding verify_inv_def by metis
  ultimately show ?thesis unfolding verify_inv_def by blast
qed

text \<open>
  C3. Verify before the one-way doors: during a dispatch the verify gate is asked at most once,
  and not at all when an earlier stage already evaluated it; when the report ends blocked, no
  Submitter publisher was run; and with the gate armed, a Submitter publisher that was run found
  the gate evaluated.
\<close>
theorem dispatch_verifies_before_submitters:
  fixes ctx :: "('t, 'w) run_context"
  assumes "dispatch os gate publishers ctx opts = (Inr report, ctx', evs)"
  shows "gate_asks evs \<le> (if verify_gate_evaluated (seed_report ctx) then 0 else 1)
     \<and> (verify_gate_blocked report \<longrightarrow> CallRun name Submitter \<notin> set evs)
     \<and> (gate_submitter opts \<and> CallRun name Submitter \<in> set evs \<longrightarrow> verify_gate_evaluated report)"
proof -
  let ?I = "verify_inv opts (verify_gate_evaluated (seed_report ctx)) :: ('t, 'w) dispatch_state \<Rightarrow> bool"
  have "\<exists>st. ?I st \<and> (Inr report :: (string, publish_report) result) = Inr (ds_report st) \<and> ctx' = ds_ctx st \<and> evs = ds_events st"
  proof (rule dispatch_invariant [where I = ?I, OF assms])
    show "?I (start_state ctx)" by (simp add: verify_inv_def)
  qed (rule step_ok_verify_inv)
  then obtain st where "?I st" "report = ds_report st" "evs = ds_events st" by auto
  then show ?thesis
    unfolding verify_inv_def gate_asks_calls_of run_in_calls_of by (auto split: if_splits)
qed

theorem dispatch_verifies_before_submitters_witness:
  "\<exists>report ctx' evs. dispatch mem_os (Some (\<lambda>ctx. (Inr False, ctx)))
       [stub_publisher ''cargo'' Submitter True (Inr (new_evidence ''cargo''))]
       (test_context :: (doc, unit) run_context) default_dispatch_options = (Inr report, ctx', evs)
     \<and> verify_gate_blocked report \<and> CallRun ''cargo'' Submitter \<notin> set evs"
proof -
  let ?d = "dispatch mem_os (Some (\<lambda>ctx. (Inr False, ctx)))
       [stub_publisher ''cargo'' Submitter True (Inr (new_evidence ''cargo''))]
       (test_context :: (doc, unit) run_context) default_dispatch_options"
  obtain report ctx' evs where d: "?d = (Inr report, ctx', evs)"
    by (cases ?d) (auto simp: dispatch_def split: prod.splits)
  have "verify_gate_blocked (case fst ?d of Inr r \<Rightarrow> r)"
    by (simp add: dispatch_eval)
  with d have "verify_gate_blocked report" by simp
  moreover from this dispatch_verifies_before_submitters [OF d, of "''cargo''"]
  have "CallRun ''cargo'' Submitter \<notin> set evs" by blast
  ultimately show ?thesis using d by blast
qed

subsection \<open>The operator's selection\<close>

text \<open>
  Publishers and the verify gate receive the context mutably; what the selection relies on is that
  they leave the command-line options alone.
\<close>

definition keeps_options :: "('t, 'w) publisher \<Rightarrow> bool" where
  "keeps_options p \<longleftrightarrow>
     (\<forall>ctx. options (snd (p_run p ctx)) = options ctx \<and> options (snd (p_reconcile p ctx)) = options ctx)"

definition gate_keeps_options :: "('t, 'w) verify_gate option \<Rightarrow> bool" where
  "gate_keeps_options gate \<longleftrightarrow> (\<forall>g ctx. gate = Some g \<longrightarrow> options (snd (g ctx)) = options ctx)"

lemma invoke_run_options:
  assumes "keeps_options p" "invoke_run p ctx = (oc, ev, ctx')"
  shows "options ctx' = options ctx"
proof -
  let ?c = "ctx\<lparr>pending_outcome := None, pending_evidence := None\<rparr>"
  obtain a c where run: "p_run p ?c = (a, c)" by (cases "p_run p ?c")
  moreover from assms(1) have "options (snd (p_run p ?c)) = options ?c" unfolding keeps_options_def by blast
  ultimately have "options c = options ctx" by simp
  with assms(2) run show ?thesis
    by (cases a) (auto simp: invoke_run_def take_pending_outcome_def take_pending_evidence_def)
qed

lemma run_arm_options:
  assumes "keeps_options p"
  shows "options (ds_ctx (snd (run_arm os opts simulated p st))) = options (ds_ctx st)"
proof -
  obtain oc ev c where run: "invoke_run p (ds_ctx st) = (oc, ev, c)" by (metis prod_cases3)
  with assms have "options c = options (ds_ctx st)" by (rule invoke_run_options)
  with run show ?thesis by (simp add: run_arm_def Let_def)
qed

lemma reconcile_arm_options:
  assumes "keeps_options p"
  shows "case reconcile_arm os opts simulated p st of
      Decided b st1 \<Rightarrow> options (ds_ctx st1) = options (ds_ctx st) | Undecided st1 \<Rightarrow> options (ds_ctx st1) = options (ds_ctx st)"
proof -
  obtain ans st0 where con: "consult_reconcile os p st = (ans, st0)" by (cases "consult_reconcile os p st")
  have "options (snd (p_reconcile p (ds_ctx st))) = options (ds_ctx st)"
    using assms unfolding keeps_options_def by blast
  with con have st0: "options (ds_ctx st0) = options (ds_ctx st)"
    by (auto simp: consult_reconcile_def Let_def split: option.splits prod.splits)
  have "case apply_reconcile os opts p ans st0 of
      Decided b st1 \<Rightarrow> options (ds_ctx st1) = options (ds_ctx st0) | Undecided st1 \<Rightarrow> options (ds_ctx st1) = options (ds_ctx st0)"
  proof (cases ans)
    case (Inr state)
    then show ?thesis by (cases state) simp_all
  qed simp
  with st0 con show ?thesis by (auto simp: reconcile_arm_def split: verdict.splits)
qed

lemma verify_gate_eval_options:
  assumes "gate_keeps_options gate"
  shows "options (ds_ctx (verify_gate_eval os opts gate p st)) = options (ds_ctx st)"
proof -
  obtain c r evs where ens: "ensure_verify_gate_evaluated gate (ds_ctx st) (ds_report st) = (c, r, evs)"
    by (metis prod_cases3)
  then have "options c = options (ds_ctx st)"
  proof (cases rule: ensure_verify_gate_cases)
    case (asked g answer lines)
    then have "c = snd (g (ds_ctx st))" by simp
    with assms asked show ?thesis unfolding gate_keeps_options_def by metis
  qed simp_all
  then show ?thesis by (simp add: verify_gate_eval_def ens)
qed

lemma dispatch_one_options:
  assumes "keeps_options p" "gate_keeps_options gate"
  shows "options (ds_ctx (snd (dispatch_one os opts gate p st))) = options (ds_ctx st)"
proof -
  let ?tail = "\<lambda>st sim. or_else (reconcile_arm os opts sim p st) (\<lambda>st.
          or_else (verify_gate_arm os opts p (verify_gate_eval os opts gate p st)) (\<lambda>st.
            run_arm os opts sim p st))"
  have "options (ds_ctx (snd (?tail st sim))) = options (ds_ctx st)" for st sim
  proof (cases "reconcile_arm os opts sim p st")
    case (Decided b st1)
    with reconcile_arm_options [OF assms(1), where os = os and opts = opts and simulated = sim and st = st] show ?thesis by simp
  next
    case (Undecided st1)
    with reconcile_arm_options [OF assms(1), where os = os and opts = opts and simulated = sim and st = st]
    have st1: "options (ds_ctx st1) = options (ds_ctx st)" by simp
    show ?thesis
    proof (cases "p_group p = Submitter \<and> verify_gate_blocked (ds_report (verify_gate_eval os opts gate p st1))")
      case True
      with Undecided st1 show ?thesis
        by (simp add: verify_gate_arm_def verify_gate_eval_options [OF assms(2)])
    next
      case False
      then have "verify_gate_arm os opts p (verify_gate_eval os opts gate p st1)
          = Undecided (verify_gate_eval os opts gate p st1)"
        by (auto simp: verify_gate_arm_def)
      with Undecided st1 show ?thesis
        by (simp add: run_arm_options [OF assms(1)] verify_gate_eval_options [OF assms(2)])
    qed
  qed
  then show ?thesis
    by (simp add: dispatch_one_def one_way_door_arm_def deselect_arm_def inactive_arm_def nightly_arm_def Let_def)
qed

text \<open>
  C4. The operator's selection is final: when publishers and the verify gate leave the
  command-line options alone, a publisher the operator deselected -- by \<open>--skip\<close>, or by not
  being on a non-empty \<open>--publishers\<close> list -- is neither run nor probed, and a dry run probes
  nothing.
\<close>
theorem deselected_publishers_never_called:
  fixes ctx :: "('t, 'w) run_context"
  assumes "dispatch os gate publishers ctx opts = (res, ctx', evs)"
    and "\<forall>p \<in> set publishers. keeps_options p" and "gate_keeps_options gate"
  shows "(publisher_deselected ctx name \<longrightarrow>
       CallRun name grp \<notin> set evs \<and> CallReconcile name grp \<notin> set evs)
     \<and> (is_dry_run ctx \<longrightarrow> CallReconcile name grp \<notin> set evs)"
proof -
  let ?I = "\<lambda>st :: ('t, 'w) dispatch_state. options (ds_ctx st) = options ctx
      \<and> (\<forall>n g. CallRun n g \<in> set (calls_of (ds_events st)) \<longrightarrow> \<not> publisher_deselected ctx n)
      \<and> (\<forall>n g. CallReconcile n g \<in> set (calls_of (ds_events st)) \<longrightarrow> \<not> publisher_deselected ctx n \<and> \<not> is_dry_run ctx)"
  have "\<exists>st. ?I st \<and> res = Inr (ds_report st) \<and> ctx' = ds_ctx st \<and> evs = ds_events st"
  proof (rule dispatch_invariant [where I = ?I, OF assms(1)])
    fix p st b st' rc vg rn row
    assume p: "p \<in> set publishers" and I: "?I st" and one: "dispatch_one os opts gate p st = (b, st')"
      and step: "step_ok opts p st b st' rc vg rn row"
    have same: "publisher_deselected (ds_ctx st) (p_name p) = publisher_deselected ctx (p_name p)"
      "is_dry_run (ds_ctx st) = is_dry_run ctx"
      using I by (simp_all add: publisher_deselected_iff is_dry_run_def)
    have "options (ds_ctx st') = options ctx"
      using dispatch_one_options [of p gate os opts st] assms(2,3) p one I by simp
    moreover have "calls_of (ds_events st') = calls_of (ds_events st)
       @ (if rc then [CallReconcile (p_name p) (p_group p)] else [])
       @ (if vg then [CallVerifyGate] else [])
       @ (if rn then [CallRun (p_name p) (p_group p)] else []) @ [Recorded row]"
      and "publisher_deselected ctx (p_name p) \<longrightarrow> \<not> rc \<and> \<not> rn" "is_dry_run ctx \<longrightarrow> \<not> rc"
      using step unfolding step_ok_def same by blast+
    ultimately show "?I st'" using I by (cases rc; cases vg; cases rn) simp_all
  qed simp
  then show ?thesis by auto
qed

theorem deselected_publishers_never_called_witness:
  "CallRun ''cargo'' Submitter \<notin> set (snd (snd (dispatch mem_os None
       [stub_publisher ''cargo'' Submitter True (Inr (new_evidence ''cargo''))]
       ((test_context :: (doc, unit) run_context)\<lparr>options := test_options\<lparr>skip_stages := [''cargo'']\<rparr>\<rparr>)
       default_dispatch_options)))"
proof -
  let ?ctx = "(test_context :: (doc, unit) run_context)\<lparr>options := test_options\<lparr>skip_stages := [''cargo'']\<rparr>\<rparr>"
  let ?ps = "[stub_publisher ''cargo'' Submitter True (Inr (new_evidence ''cargo''))]"
  let ?d = "dispatch mem_os None ?ps ?ctx default_dispatch_options"
  have "?d = (fst ?d, fst (snd ?d), snd (snd ?d))" by simp
  moreover have "\<forall>p \<in> set ?ps. keeps_options p"
    by (simp add: keeps_options_def stub_publisher_def default_reconcile_def)
  moreover have "gate_keeps_options (None :: (doc, unit) verify_gate option)"
    by (simp add: gate_keeps_options_def)
  moreover have "publisher_deselected ?ctx ''cargo''" by (simp add: publisher_deselected_iff)
  ultimately show ?thesis using deselected_publishers_never_called by blast
qed

subsection \<open>The ledger\<close>

lemma first_some_Some: "first_some f xs = Some y \<Longrightarrow> \<exists>x \<in> set xs. f x = Some y"
  by (induction xs) (auto split: option.splits)

lemma first_some_None: "first_some f xs = None \<longleftrightarrow> (\<forall>x \<in> set xs. f x = None)"
  by (induction xs) (auto split: option.splits)

text \<open>
  C5. The ledger proves only what it recorded: the fast path answers exactly when some readable
  summary of this tag, with no withdrawal of the publisher recorded beside it, holds a succeeded
  or pending row of the publisher whose evidence names at least one artifact and whose every
  recorded digest equals the current digest of that artifact; the answer is always
  \<open>Complete\<close>, so a missing, foreign or rebuilt artifact is never taken for published.
\<close>
theorem ledger_fast_path_exact:
  "(ledger_fast_path os ctx name digests \<noteq> None \<longleftrightarrow>
     (\<exists>path \<in> set (collect_run_summary_paths os (files ctx) (dist ctx)). \<exists>text summary row evidence.
        files ctx path = Some text \<and> parse_run_summary_lenient os text = Some summary
        \<and> rs_tag summary = (case map_of (template_vars ctx) ''Tag'' of None \<Rightarrow> [] | Some t \<Rightarrow> t)
        \<and> \<not> withdrawn_beside os (files ctx) path name
        \<and> row \<in> set (rs_results summary) \<and> rsr_name row = name
        \<and> (rsr_status row = ''succeeded'' \<or> starts_with (rsr_status row) ''pending-'')
        \<and> rsr_evidence row = Some evidence \<and> artifact_digests evidence \<noteq> []
        \<and> (\<forall>(n, d) \<in> set (artifact_digests evidence). map_of digests n = Some d)))
   \<and> (\<forall>state. ledger_fast_path os ctx name digests = Some state \<longrightarrow> (\<exists>note. state = Complete note))"
proof -
  have find: "List.find P xs \<noteq> None \<longleftrightarrow> (\<exists>x \<in> set xs. P x)" for P :: "run_summary_result \<Rightarrow> bool" and xs
    by (metis find_None_iff)
  have row: "ledger_row_proves digests name r \<longleftrightarrow> rsr_name r = name
        \<and> (rsr_status r = ''succeeded'' \<or> starts_with (rsr_status r) ''pending-'')
        \<and> (\<exists>evidence. rsr_evidence r = Some evidence \<and> artifact_digests evidence \<noteq> []
            \<and> (\<forall>(n, d) \<in> set (artifact_digests evidence). map_of digests n = Some d))" for r
    by (auto simp: ledger_row_proves_def list_all_iff split: option.splits)
  have one: "ledger_in_summary os ctx name digests path \<noteq> None \<longleftrightarrow>
      (\<exists>text summary. files ctx path = Some text \<and> parse_run_summary_lenient os text = Some summary
        \<and> rs_tag summary = (case map_of (template_vars ctx) ''Tag'' of None \<Rightarrow> [] | Some t \<Rightarrow> t)
        \<and> \<not> withdrawn_beside os (files ctx) path name
        \<and> (\<exists>r \<in> set (rs_results summary). ledger_row_proves digests name r))" for path
    unfolding find [symmetric] by (auto simp: ledger_in_summary_def split: option.splits)
  have "ledger_fast_path os ctx name digests \<noteq> None \<longleftrightarrow>
      (\<exists>path \<in> set (collect_run_summary_paths os (files ctx) (dist ctx)).
         ledger_in_summary os ctx name digests path \<noteq> None)"
    unfolding ledger_fast_path_def first_some_None by simp
  moreover have "\<exists>note. state = Complete note" if "ledger_fast_path os ctx name digests = Some state" for state
    using that first_some_Some unfolding ledger_fast_path_def
    by (fastforce simp: ledger_in_summary_def split: option.splits if_splits)
  ultimately show ?thesis unfolding one row by blast
qed

theorem ledger_fast_path_exact_witness:
  "\<exists>ctx :: (doc, unit) run_context.
     ledger_fast_path (mem_os\<lparr>os_read_dir := (\<lambda>fs dir. if dir = ''dist'' then Some [''run-v1''] else None)\<rparr>)
       ctx ''npm'' [(''a.tgz'', ''sha256:00'')] \<noteq> None"
proof -
  let ?os = "mem_os\<lparr>os_read_dir := (\<lambda>fs dir. if dir = ''dist'' then Some [''run-v1''] else None)\<rparr>"
  let ?ev = "(new_evidence ''npm'')\<lparr>artifact_digests := [(''a.tgz'', ''sha256:00'')]\<rparr>"
  let ?row = "\<lparr>rsr_name = ''npm'', rsr_group = Submitter, rsr_required = True, rsr_status = ''succeeded'',
     rsr_evidence = Some ?ev, rsr_entry_skips = []\<rparr>"
  let ?sum = "(from_context_with_report (test_context :: (doc, unit) run_context) None)\<lparr>rs_results := [?row]\<rparr>"
  let ?path = "''dist/run-v1/summary.json''"
  let ?ctx = "(test_context :: (doc, unit) run_context)\<lparr>files := (\<lambda>p. if p = ?path then Some (SummaryDoc ?sum) else None)\<rparr>"
  have "?path \<in> set (collect_run_summary_paths ?os (files ?ctx) (dist ?ctx))"
    by (simp add: collect_run_summary_paths_def layout_roots_def summaries_in_def path_join_def
        summary_json_name_def run_dir_prefix_def starts_with_def mem_os_def test_context_def)
  moreover have "parse_run_summary_lenient ?os (SummaryDoc ?sum) = Some ?sum"
    by (simp add: parse_run_summary_lenient_def mem_os_def)
  moreover have "rs_tag ?sum = []" "template_vars ?ctx = []"
    by (simp_all add: from_context_with_report_def test_context_def)
  moreover have "\<not> withdrawn_beside ?os (files ?ctx) ?path ''npm''"
    by (simp add: withdrawn_beside_def with_file_name_def parent_dir_def path_join_def rollback_json_name_def)
  ultimately have "ledger_fast_path ?os ?ctx ''npm'' [(''a.tgz'', ''sha256:00'')] \<noteq> None"
    by (subst ledger_fast_path_exact [THEN conjunct1])
      (rule bexI [of _ ?path], intro exI [of _ "SummaryDoc ?sum"] exI [of _ ?sum] exI [of _ ?row] exI [of _ ?ev], simp_all)
  then show ?thesis by blast
qed

end
