(* ===== verification/Rollback.thy ===== *)
theory Rollback
  imports Dispatch
begin

section \<open>Withdrawal and the persisted report\<close>

text \<open>
  Models \<open>crates/stage-publish/src/rollback.rs\<close> (which rows a withdrawal replays, one rollback
  step, the whole pass with its persisted state, the read-only preview) and the persistence of the
  report in \<open>report.rs\<close> (folding an earlier run's outstanding work into a new report, and
  writing it beside a superseded rollback state). Publishers come in through the contract of
  theory \<open>Publisher\<close>; the list of stage-owned publishers the registry builds is a parameter.
  Of an error chain the outermost message is kept where the cause comes from the operating system
  or from the JSON parser.

  The lemmas show that a pass replays exactly the previewed rows, changes nothing but their
  outcomes, that a row once rolled back is never replayed, that a repeated pass starts from what
  the previous one left, and that no earlier run's work is dropped by a later report.
\<close>

subsection \<open>Candidates\<close>

definition is_candidate :: "publisher_result \<Rightarrow> bool" where
  "is_candidate r =
     (case res_group r of
        Submitter \<Rightarrow>
          (case res_outcome r of Failed _ \<Rightarrow> True | RollbackFailed _ \<Rightarrow> True | RollbackSkippedNoScope \<Rightarrow> True
           | _ \<Rightarrow> False)
      | _ \<Rightarrow>
          (case res_outcome r of
             Succeeded \<Rightarrow> True
           | RollbackFailed _ \<Rightarrow> True
           | RollbackSkippedNoScope \<Rightarrow> True
           | Failed _ \<Rightarrow> (case res_evidence r of None \<Rightarrow> False | Some e \<Rightarrow> records_published_work e)
           | _ \<Rightarrow> False))"

definition candidate_rows :: "publisher_result list \<Rightarrow> nat list" where
  "candidate_rows rows = map fst (filter (\<lambda>(i, r). is_candidate r) (List.enumerate 0 rows))"

definition rollback_candidates :: "publish_report \<Rightarrow> nat list" where
  "rollback_candidates report = candidate_rows (results report)"

subsection \<open>One step\<close>

datatype rollback_disposition = DRolledBack | DFailed | DNotFound | DSkippedNoScope | DRetained

definition execute_rollback_step ::
    "publisher_result \<Rightarrow> publish_evidence \<Rightarrow> ('t, 'w) publisher list \<Rightarrow> ('t, 'w) publisher list
      \<Rightarrow> ('t, 'w) run_context \<Rightarrow> string \<Rightarrow> string
      \<Rightarrow> publisher_outcome \<times> rollback_disposition \<times> ('t, 'w) run_context \<times> event list" where
  "execute_rollback_step row evidence publishers aux ctx prefix1 reason =
     (let name = res_name row; current = res_outcome row
      in case List.find (\<lambda>p. p_name p = name) (publishers @ aux) of
           None \<Rightarrow>
             (RollbackFailed ''publisher not found in current registry'', DNotFound, ctx,
              [WarnLine (''skipped rollback for '' @ quoted name @ '' '' @ em_dash @ '' publisher not in current registry'')])
         | Some publisher \<Rightarrow>
             if p_retain_on_rollback publisher
             then (current, DRetained, ctx,
                   [Status (''skipped rollback for '' @ quoted name @ '' '' @ em_dash @ '' retain_on_rollback is set'')])
             else case p_missing_rollback_scope publisher ctx of
               Some label \<Rightarrow>
                 (RollbackSkippedNoScope, DSkippedNoScope, ctx,
                  [WarnLine (warn_scope_unavailable_msg prefix1 name label)])
             | None \<Rightarrow>
                 (let was_failure = (res_group row = Submitter \<and> is_failed current);
                      before = [Status (''invoking rollback for '' @ quoted name), EnterRetryScope name, CallRollback name];
                      (answer, ctx) = p_rollback publisher ctx evidence
                  in case answer of
                       Inr _ \<Rightarrow>
                         (if was_failure then current else RolledBack, DRolledBack, ctx,
                          before @ [FireOnRollback name (res_group row) (res_required row) False [] reason])
                     | Inl msg \<Rightarrow>
                         (RollbackFailed msg, DFailed, ctx,
                          before @ [WarnLine (''rollback for '' @ quoted name @ '' failed: '' @ msg),
                            FireOnRollback name (res_group row) (res_required row) True msg reason])))"

subsection \<open>Loading the prior state\<close>

definition prior_state_exists :: "('t, 'w) run_context \<Rightarrow> string \<Rightarrow> bool" where
  "prior_state_exists ctx run_id \<longleftrightarrow>
     files ctx (rollback_path ctx run_id) \<noteq> None \<or> files ctx (report_path_for ctx run_id) \<noteq> None"

definition load_prior_state ::
    "'t os \<Rightarrow> ('t, 'w) run_context \<Rightarrow> string \<Rightarrow> bool \<Rightarrow> (string, publish_report) result \<times> event list" where
  "load_prior_state os ctx run_id log =
     (let prior_state = rollback_path ctx run_id;
          (path, source_label, is_rollback_state, evs) =
            (if files ctx prior_state \<noteq> None
             then (prior_state, ''prior rollback state'', True,
                   if log then [Status (''resuming from prior rollback state at '' @ prior_state)] else [])
             else let report = report_path_for ctx run_id
                  in (report, ''prior report'', False,
                      if log then [Status (''loading prior report (first pass) from '' @ report)] else []))
      in case files ctx path of
           None \<Rightarrow> (Inl (''failed to read '' @ source_label @ '' at '' @ path), evs)
         | Some text \<Rightarrow>
             (case os_parse_report os text of
                Some report \<Rightarrow> (Inr report, evs)
              | None \<Rightarrow>
                  (Inl (''failed to parse '' @ source_label @ '' at '' @ path
                     @ (if is_rollback_state then ''; delete the file to force a full re-roll from report.json'' else [])),
                   evs)))"

definition planned_rollback_names ::
    "'t os \<Rightarrow> ('t, 'w) run_context \<Rightarrow> string \<Rightarrow> (string, string list) result" where
  "planned_rollback_names os ctx run_id =
     (case validate_run_id run_id of
        Inl e \<Rightarrow> Inl e
      | Inr _ \<Rightarrow>
          (case fst (load_prior_state os ctx run_id False) of
             Inl e \<Rightarrow> Inl e
           | Inr report \<Rightarrow>
               Inr (concat (map (\<lambda>rows. map (\<lambda>i. res_name (rows ! i)) (candidate_rows rows))
                 [results report, carried_forward report]))))"

subsection \<open>The pass\<close>

record ('t, 'w) rollback_state =
  rb_ctx :: "('t, 'w) run_context"
  rb_results :: "publisher_result list"
  rb_rolled_back :: nat
  rb_failed :: nat
  rb_not_found :: nat
  rb_skipped_no_scope :: nat
  rb_events :: "event list"

text \<open>\<open>report.results[i].outcome = outcome\<close>; the index comes from the same list, so it is in range.\<close>

definition set_outcome :: "nat \<Rightarrow> publisher_outcome \<Rightarrow> publisher_result list \<Rightarrow> publisher_result list" where
  "set_outcome i outcome rows = rows[i := (rows ! i)\<lparr>res_outcome := outcome\<rparr>]"

definition rollback_row ::
    "('t, 'w) publisher list \<Rightarrow> ('t, 'w) publisher list \<Rightarrow> nat \<Rightarrow> ('t, 'w) rollback_state \<Rightarrow> ('t, 'w) rollback_state" where
  "rollback_row publishers aux i st =
     (let row = rb_results st ! i
      in case res_evidence row of
           None \<Rightarrow>
             st\<lparr>rb_failed := rb_failed st + 1,
                rb_results := set_outcome i (RollbackFailed ''no evidence in prior report'') (rb_results st),
                rb_events := rb_events st @ [WarnLine (''skipped rollback for '' @ quoted (res_name row) @ '' '' @ em_dash
                  @ '' no evidence in prior report'')]\<rparr>
         | Some evidence \<Rightarrow>
             (let (outcome, disposition, ctx, evs) =
                    execute_rollback_step row evidence publishers aux (rb_ctx st) ''rollback'' [];
                  st = (case disposition of
                          DRolledBack \<Rightarrow> st\<lparr>rb_rolled_back := rb_rolled_back st + 1\<rparr>
                        | DFailed \<Rightarrow> st\<lparr>rb_failed := rb_failed st + 1\<rparr>
                        | DNotFound \<Rightarrow> st\<lparr>rb_not_found := rb_not_found st + 1\<rparr>
                        | DSkippedNoScope \<Rightarrow> st\<lparr>rb_skipped_no_scope := rb_skipped_no_scope st + 1\<rparr>
                        | DRetained \<Rightarrow> st)
              in st\<lparr>rb_ctx := ctx, rb_results := set_outcome i outcome (rb_results st),
                    rb_events := rb_events st @ evs\<rparr>))"

definition persist_rollback ::
    "'t os \<Rightarrow> ('t, 'w) run_context \<Rightarrow> string \<Rightarrow> publish_report
      \<Rightarrow> (string, publish_report) result \<times> ('t, 'w) run_context \<times> event list" where
  "persist_rollback os ctx run_id report =
     (let out_path = rollback_path ctx run_id
      in case os_create_dir_all os (files ctx) (parent_dir out_path) of
           Inl e \<Rightarrow> (Inl (''failed to create rollback output dir '' @ parent_dir out_path @ '': '' @ e), ctx, [])
         | Inr fs1 \<Rightarrow>
             (case os_report_json os report of
                Inl e \<Rightarrow> (Inl (''failed to serialize rollback report: '' @ e), ctx\<lparr>files := fs1\<rparr>, [])
              | Inr text \<Rightarrow>
                  (case os_write os fs1 out_path text of
                     Inl e \<Rightarrow> (Inl (''failed to write rollback state to '' @ out_path @ '': '' @ e), ctx\<lparr>files := fs1\<rparr>, [])
                   | Inr fs2 \<Rightarrow>
                       (let (fs3, evs) = mark_withdrawn_in_summary os
                              (path_join (run_dir ctx run_id) summary_json_name) report fs2
                        in (Inr report, ctx\<lparr>files := fs3\<rparr>, Status (''wrote '' @ out_path) # evs)))))"

definition run_with_publishers ::
    "'t os \<Rightarrow> ('t, 'w) publisher list \<Rightarrow> ('t, 'w) run_context \<Rightarrow> string \<Rightarrow> ('t, 'w) publisher list
      \<Rightarrow> (string, publish_report) result \<times> ('t, 'w) run_context \<times> event list" where
  "run_with_publishers os aux ctx run_id publishers =
     (case validate_run_id run_id of
        Inl e \<Rightarrow> (Inl e, ctx, [])
      | Inr _ \<Rightarrow>
          (case load_prior_state os ctx run_id True of
             (Inl e, evs) \<Rightarrow> (Inl e, ctx, evs)
           | (Inr report, evs) \<Rightarrow>
               (let own_rows = length (results report);
                    rows = results report @ carried_forward report;
                    target_indices = candidate_rows rows;
                    opening = (if target_indices = []
                       then [WarnLine ''no rollback-eligible entries in prior report; nothing to do'']
                       else [Status (''dispatching rollback for '' @ count_noun (length target_indices) ''target'' ''targets'')]);
                    st = fold (rollback_row publishers aux) target_indices
                      \<lparr>rb_ctx = ctx, rb_results = rows, rb_rolled_back = 0, rb_failed = 0, rb_not_found = 0,
                       rb_skipped_no_scope = 0, rb_events = evs @ opening\<rparr>;
                    closing = [Status (''rollback complete '' @ em_dash @ '' '' @ show_nat (rb_rolled_back st)
                      @ '' rolled back, '' @ show_nat (rb_failed st) @ '' failed, '' @ show_nat (rb_not_found st)
                      @ '' not found, '' @ show_nat (rb_skipped_no_scope st) @ '' skipped-no-scope'')];
                    report = report\<lparr>results := take own_rows (rb_results st),
                                    carried_forward := drop own_rows (rb_results st)\<rparr>;
                    (answer, ctx, said) = persist_rollback os (rb_ctx st) run_id report
                in (answer, ctx, rb_events st @ closing @ said))))"

subsection \<open>Carrying an earlier run's work forward\<close>

fun carry_into :: "publisher_result list \<Rightarrow> publisher_result \<Rightarrow> publish_evidence \<Rightarrow> publisher_result list" where
  "carry_into [] earlier earlier_evidence = [earlier]"
| "carry_into (r # rs) earlier earlier_evidence =
     (if res_name r = res_name earlier
      then (case res_evidence r of
              None \<Rightarrow> earlier
            | Some e \<Rightarrow> (case absorb_prior e earlier_evidence of
                (e', True) \<Rightarrow> r\<lparr>res_evidence := Some e'\<rparr>
              | (_, False) \<Rightarrow> earlier)) # rs
      else r # carry_into rs earlier earlier_evidence)"

definition carry_row :: "publish_report \<Rightarrow> publisher_result \<Rightarrow> publish_evidence \<Rightarrow> publish_report" where
  "carry_row report earlier earlier_evidence =
     report\<lparr>carried_forward := carry_into (carried_forward report) earlier earlier_evidence\<rparr>"

definition ran_again :: "publish_report \<Rightarrow> publisher_result \<Rightarrow> bool" where
  "ran_again report earlier =
     list_ex (\<lambda>r. res_name r = res_name earlier
        \<and> (case res_outcome r of Succeeded \<Rightarrow> True | Failed _ \<Rightarrow> True | Skipped AlreadyPublished \<Rightarrow> True | _ \<Rightarrow> False))
       (results report)"

text \<open>
  The report's own row for the publisher, if it is a candidate that recorded work and the earlier
  evidence joins it: \<open>None\<close> when nothing joined.
\<close>

definition join_own_row :: "publish_report \<Rightarrow> publisher_result \<Rightarrow> publish_evidence \<Rightarrow> publish_report option" where
  "join_own_row report earlier earlier_evidence =
     (case List.find (\<lambda>c. res_name (results report ! c) = res_name earlier) (rollback_candidates report) of
        None \<Rightarrow> None
      | Some c \<Rightarrow>
          (case res_evidence (results report ! c) of
             None \<Rightarrow> None
           | Some mine \<Rightarrow>
               if \<not> records_published_work mine then None
               else (case absorb_prior mine earlier_evidence of
                       (_, False) \<Rightarrow> None
                     | (mine', True) \<Rightarrow>
                         Some (report\<lparr>results := (results report)[c := (results report ! c)\<lparr>res_evidence := Some mine'\<rparr>]\<rparr>))))"

definition carry_one :: "publisher_result \<Rightarrow> publish_report \<Rightarrow> publish_report" where
  "carry_one earlier report =
     (case res_evidence earlier of
        None \<Rightarrow> report
      | Some earlier_evidence \<Rightarrow>
          if res_group earlier = Submitter
          then (if ran_again report earlier then report else carry_row report earlier earlier_evidence)
          else (case join_own_row report earlier earlier_evidence of
                  Some report' \<Rightarrow> report'
                | None \<Rightarrow> carry_row report earlier earlier_evidence))"

definition carry_prior_work :: "publish_report \<Rightarrow> publish_report \<Rightarrow> publish_report" where
  "carry_prior_work report prior =
     fold (\<lambda>rows. fold (\<lambda>i. carry_one (rows ! i)) (candidate_rows rows)) [carried_forward prior, results prior] report"

subsection \<open>Writing the report\<close>

definition unreadable_aside_path :: "'t os \<Rightarrow> string \<Rightarrow> string" where
  "unreadable_aside_path os path = path @ ''.unreadable-'' @ show_nat (os_unix_now os)"

text \<open>The prior state folded in, moved aside when it cannot be read; \<open>None\<close> is the early return.\<close>

definition fold_prior ::
    "'t os \<Rightarrow> ('t, 'w) run_context \<Rightarrow> string \<Rightarrow> 't fs \<Rightarrow> publish_report \<Rightarrow> (publish_report \<times> 't fs) option \<times> event list" where
  "fold_prior os ctx run_id fs report =
     (let ctx = ctx\<lparr>files := fs\<rparr>; path = report_path_for ctx run_id
      in case fst (load_prior_state os ctx run_id False) of
           Inr prior \<Rightarrow> (Some (carry_prior_work report prior, fs), [])
         | Inl e \<Rightarrow>
             (let aside = unreadable_aside_path os path
              in case os_rename os fs path aside of
                   Inr fs' \<Rightarrow> (Some (report, fs'),
                     [WarnLine (''moved the earlier run-report for '' @ quoted run_id @ '' to '' @ aside @ '' '' @ em_dash
                        @ '' it could not be read to carry its published work forward: '' @ e)])
                 | Inl rename_err \<Rightarrow> (None,
                     [WarnLine (''kept the earlier run-report for '' @ quoted run_id @ '' '' @ em_dash
                        @ '' it could not be read to carry its published work forward ('' @ e
                        @ '') and could not be moved to '' @ aside @ '': '' @ rename_err)])))"

definition commit_report ::
    "'t os \<Rightarrow> ('t, 'w) run_context \<Rightarrow> string \<Rightarrow> bool \<Rightarrow> 't fs \<Rightarrow> publish_report \<Rightarrow> 't fs \<times> event list" where
  "commit_report os ctx run_id had_prior fs report =
     (let path = report_path_for ctx run_id
      in case os_report_json os report of
           Inl e \<Rightarrow> (fs, [WarnLine (''failed to serialize run-report for '' @ path @ '': '' @ e)])
         | Inr text \<Rightarrow>
             if had_prior \<and> fs path = Some text then (fs, [])
             else (case os_write os fs path text of
                     Inl e \<Rightarrow> (fs, [WarnLine (''failed to write run-report to '' @ path @ '': '' @ e)])
                   | Inr fs1 \<Rightarrow>
                       (let stale = rollback_path ctx run_id; done = Status (''wrote run-report to '' @ path)
                        in if had_prior \<and> fs1 stale \<noteq> None
                           then (case os_remove os fs1 stale of
                                   Inr fs2 \<Rightarrow> (fs2, [done])
                                 | Inl e \<Rightarrow> (fs1, [WarnLine (''failed to remove superseded rollback state '' @ stale @ '': '' @ e
                                       @ ''; delete it before the next `anodizer tag rollback`''), done]))
                           else (fs1, [done]))))"

definition write_report_to_run_dir :: "'t os \<Rightarrow> ('t, 'w) run_context \<Rightarrow> 't fs \<times> event list" where
  "write_report_to_run_dir os ctx =
     (let fs = files ctx
      in if is_snapshot ctx \<or> is_dry_run ctx then (fs, [])
         else case publish_report ctx of
           None \<Rightarrow> (fs, [])
         | Some report \<Rightarrow>
             if results report = [] then (fs, [])
             else let run_id = derive_run_id ctx
                  in case validate_run_id run_id of
                       Inl e \<Rightarrow> (fs, [WarnLine (''skipped run-report write '' @ em_dash @ '' derived run_id ''
                                  @ quoted run_id @ '' failed validation: '' @ e)])
                     | Inr _ \<Rightarrow>
                         (case os_create_dir_all os fs (run_dir ctx run_id) of
                            Inl e \<Rightarrow> (fs, [WarnLine (''failed to create run-report dir '' @ run_dir ctx run_id @ '': '' @ e)])
                          | Inr fs \<Rightarrow>
                              (let had_prior = (run_id \<noteq> no_git_run_id \<and> prior_state_exists (ctx\<lparr>files := fs\<rparr>) run_id)
                               in case (if had_prior then fold_prior os ctx run_id fs report else (Some (report, fs), [])) of
                                    (None, evs) \<Rightarrow> (fs, evs)
                                  | (Some (report, fs), evs) \<Rightarrow>
                                      (let (fs, said) = commit_report os ctx run_id had_prior fs report
                                       in (fs, evs @ said)))))"

definition load_prior_report :: "'t os \<Rightarrow> ('t, 'w) run_context \<Rightarrow> string \<Rightarrow> (string, publish_report) result" where
  "load_prior_report os ctx run_id =
     (let path = report_path_for ctx run_id
      in case files ctx path of
           None \<Rightarrow> Inl (''no prior report found at '' @ path @ '' (run_id='' @ run_id @ ''). The announce-only flow consumes a `report.json` written by a successful prior release run; re-run `anodizer release` end-to-end first so the run dir exists.'')
         | Some raw \<Rightarrow>
             (case os_parse_report os raw of
                None \<Rightarrow> Inl (''failed to parse prior report at '' @ path @ '' (run_id='' @ run_id @ '')'')
              | Some report \<Rightarrow> Inr report))"

section \<open>Properties\<close>

subsection \<open>Candidate rows\<close>

lemma map_candidate_rows: "map (\<lambda>i. f (rows ! i)) (candidate_rows rows) = map f (filter is_candidate rows)"
proof -
  have "map (\<lambda>i. f ((xs @ rows) ! i)) (map fst (filter (\<lambda>(i, r). is_candidate r) (List.enumerate (length xs) rows)))
      = map f (filter is_candidate rows)" for xs
  proof (induction rows arbitrary: xs)
    case (Cons r rows)
    from Cons.IH [of "xs @ [r]"] show ?case by simp
  qed simp
  from this [of "[]"] show ?thesis by (simp add: candidate_rows_def)
qed

lemma set_candidate_rows: "i \<in> set (candidate_rows rows) \<longleftrightarrow> i < length rows \<and> is_candidate (rows ! i)"
  by (force simp: candidate_rows_def in_set_enumerate_eq image_iff)

lemma rolled_back_not_candidate: "res_outcome r = RolledBack \<Longrightarrow> \<not> is_candidate r"
  by (cases "res_group r") (simp_all add: is_candidate_def)

lemma skipped_not_candidate: "res_outcome r = Skipped reason \<Longrightarrow> \<not> is_candidate r"
  by (cases "res_group r") (simp_all add: is_candidate_def)

subsection \<open>One row\<close>

fun replay_outcome :: "publisher_result \<Rightarrow> publisher_outcome \<Rightarrow> bool" where
  "replay_outcome row RolledBack = True"
| "replay_outcome row (RollbackFailed _) = True"
| "replay_outcome row RollbackSkippedNoScope = True"
| "replay_outcome row oc \<longleftrightarrow> oc = res_outcome row"

lemma replay_outcome_same: "replay_outcome row (res_outcome row)"
  by (cases "res_outcome row") simp_all

lemma execute_rollback_step_facts:
  assumes "execute_rollback_step row evidence publishers aux ctx prefix1 reason = (oc, disp, ctx', evs)"
  shows "replay_outcome row oc \<and> (CallRollback n \<in> set evs \<longrightarrow> n = res_name row
      \<and> (\<exists>p \<in> set (publishers @ aux). p_name p = n \<and> \<not> p_retain_on_rollback p \<and> p_missing_rollback_scope p ctx = None))"
proof (cases "List.find (\<lambda>p. p_name p = res_name row) (publishers @ aux)")
  case None
  with assms show ?thesis by (auto simp: execute_rollback_step_def)
next
  case (Some p)
  note p = find_Some_mem [OF Some] find_SomeD [OF Some]
  show ?thesis
  proof (cases "p_retain_on_rollback p")
    case True
    with assms Some show ?thesis by (auto simp: execute_rollback_step_def replay_outcome_same)
  next
    case keep: False
    show ?thesis
    proof (cases "p_missing_rollback_scope p ctx")
      case missing: (Some label)
      with assms Some keep show ?thesis by (auto simp: execute_rollback_step_def)
    next
      case scope: None
      obtain answer c where ans: "p_rollback p ctx evidence = (answer, c)" by (cases "p_rollback p ctx evidence")
      have "replay_outcome row oc" "\<forall>m. CallRollback m \<in> set evs \<longrightarrow> m = res_name row"
        using assms unfolding execute_rollback_step_def Let_def Some option.case
        by (cases answer; simp add: keep scope ans; auto simp: replay_outcome_same)+
      with p keep scope show ?thesis by blast
    qed
  qed
qed

lemma set_outcome_simps [simp]:
  "length (set_outcome i oc rows) = length rows"
  "j \<noteq> i \<Longrightarrow> set_outcome i oc rows ! j = rows ! j"
  "i < length rows \<Longrightarrow> set_outcome i oc rows ! i = (rows ! i)\<lparr>res_outcome := oc\<rparr>"
  by (simp_all add: set_outcome_def)

lemma rollback_row_facts:
  obtains oc evs where "rb_results (rollback_row publishers aux i st) = set_outcome i oc (rb_results st)"
    "replay_outcome (rb_results st ! i) oc"
    "rb_events (rollback_row publishers aux i st) = rb_events st @ evs"
    "\<And>n. CallRollback n \<in> set evs \<Longrightarrow> n = res_name (rb_results st ! i)"
proof (cases "res_evidence (rb_results st ! i)")
  case None
  then show ?thesis
    by (intro that [of "RollbackFailed ''no evidence in prior report''"]) (auto simp: rollback_row_def Let_def)
next
  case (Some evidence)
  obtain oc disp ctx' evs where step: "execute_rollback_step (rb_results st ! i) evidence publishers aux (rb_ctx st)
      ''rollback'' [] = (oc, disp, ctx', evs)" by (metis prod_cases4)
  show ?thesis
    using execute_rollback_step_facts [OF step]
    by (intro that [of oc evs]) (auto simp: rollback_row_def Let_def Some step split: rollback_disposition.splits)
qed

text \<open>What a pass may do to a row.\<close>

definition replayed :: "publisher_result \<Rightarrow> publisher_result \<Rightarrow> bool" where
  "replayed old new \<longleftrightarrow> (\<not> is_candidate old \<longrightarrow> new = old)
     \<and> (\<exists>oc. new = old\<lparr>res_outcome := oc\<rparr> \<and> replay_outcome old oc)"

lemma replayed_refl: "replayed row row"
  by (auto simp: replayed_def replay_outcome_same intro: exI [of _ "res_outcome row"])

lemma fold_rollback_rows:
  assumes "distinct is" and "\<forall>i \<in> set is. i < length (rb_results st) \<and> is_candidate (rb_results st ! i)"
  shows "list_all2 replayed (rb_results st) (rb_results (fold (rollback_row publishers aux) is st))
     \<and> (\<forall>n. CallRollback n \<in> set (rb_events (fold (rollback_row publishers aux) is st)) \<longrightarrow>
          CallRollback n \<in> set (rb_events st) \<or> (\<exists>i \<in> set is. n = res_name (rb_results st ! i)))
     \<and> (\<forall>j. j \<notin> set is \<longrightarrow> rb_results (fold (rollback_row publishers aux) is st) ! j = rb_results st ! j)"
  using assms
proof (induction "is" arbitrary: st)
  case Nil
  then show ?case by (simp add: list_all2_conv_all_nth replayed_refl)
next
  case (Cons i "is")
  let ?st = "rollback_row publishers aux i st"
  let ?fin = "fold (rollback_row publishers aux) is ?st"
  obtain oc evs where row: "rb_results ?st = set_outcome i oc (rb_results st)" "replay_outcome (rb_results st ! i) oc"
    "rb_events ?st = rb_events st @ evs" "\<And>n. CallRollback n \<in> set evs \<Longrightarrow> n = res_name (rb_results st ! i)"
    using rollback_row_facts by blast
  have other: "rb_results ?st ! j = rb_results st ! j" if "j \<noteq> i" for j using row(1) that by simp
  have pre: "\<forall>j \<in> set is. j < length (rb_results ?st) \<and> is_candidate (rb_results ?st ! j)"
  proof
    fix j assume j: "j \<in> set is"
    with Cons.prems(1) have "j \<noteq> i" by auto
    with other [of j] Cons.prems(2) j row(1) show "j < length (rb_results ?st) \<and> is_candidate (rb_results ?st ! j)" by simp
  qed
  from Cons.IH [OF _ pre] Cons.prems(1)
  have IH: "list_all2 replayed (rb_results ?st) (rb_results ?fin)"
    "\<forall>n. CallRollback n \<in> set (rb_events ?fin) \<longrightarrow>
          CallRollback n \<in> set (rb_events ?st) \<or> (\<exists>i \<in> set is. n = res_name (rb_results ?st ! i))"
    "\<forall>j. j \<notin> set is \<longrightarrow> rb_results ?fin ! j = rb_results ?st ! j" by simp_all
  have "replayed (rb_results st ! j) (rb_results ?fin ! j)" if j: "j < length (rb_results st)" for j
  proof (cases "j = i")
    case True
    with IH(3) Cons.prems(1) row j have "rb_results ?fin ! j = (rb_results st ! i)\<lparr>res_outcome := oc\<rparr>" by simp
    with True Cons.prems(2) row(2) show ?thesis by (auto simp: replayed_def)
  next
    case False
    have "replayed (rb_results ?st ! j) (rb_results ?fin ! j)"
      using IH(1) j row(1) by (simp add: list_all2_conv_all_nth)
    with other [OF False] show ?thesis by simp
  qed
  moreover have "length (rb_results ?fin) = length (rb_results st)"
    using IH(1) row(1) by (simp add: list_all2_conv_all_nth)
  ultimately have "list_all2 replayed (rb_results st) (rb_results ?fin)"
    by (simp add: list_all2_conv_all_nth)
  moreover have "CallRollback n \<in> set (rb_events st) \<or> (\<exists>k \<in> set (i # is). n = res_name (rb_results st ! k))"
    if "CallRollback n \<in> set (rb_events ?fin)" for n
    using IH(2) that row(3,4) other Cons.prems(1) by (metis UnE distinct.simps(2) list.set_intros set_append)
  ultimately show ?case using IH(3) other by auto
qed

lemma distinct_candidate_rows: "distinct (candidate_rows rows)"
  unfolding candidate_rows_def by (simp add: distinct_map_filter)

subsection \<open>The pass\<close>

text \<open>The report a successful pass returns is its prior state with rows replayed.\<close>

lemma persist_rollback_ok:
  assumes "persist_rollback os ctx run_id report = (Inr report', ctx', evs)"
  obtains fs1 tx fs2 fs3 said where
    "os_create_dir_all os (files ctx) (parent_dir (rollback_path ctx run_id)) = Inr fs1"
    "os_report_json os report = Inr tx"
    "os_write os fs1 (rollback_path ctx run_id) tx = Inr fs2"
    "mark_withdrawn_in_summary os (path_join (run_dir ctx run_id) summary_json_name) report fs2 = (fs3, said)"
    "ctx' = ctx\<lparr>files := fs3\<rparr>" "report' = report" "evs = Status (''wrote '' @ rollback_path ctx run_id) # said"
proof -
  obtain fs1 where 1: "os_create_dir_all os (files ctx) (parent_dir (rollback_path ctx run_id)) = Inr fs1"
    using assms by (cases "os_create_dir_all os (files ctx) (parent_dir (rollback_path ctx run_id))")
      (simp_all add: persist_rollback_def)
  obtain tx where 2: "os_report_json os report = Inr tx"
    using assms 1 by (cases "os_report_json os report") (simp_all add: persist_rollback_def)
  obtain fs2 where 3: "os_write os fs1 (rollback_path ctx run_id) tx = Inr fs2"
    using assms 1 2 by (cases "os_write os fs1 (rollback_path ctx run_id) tx") (simp_all add: persist_rollback_def)
  obtain fs3 said where 4:
    "mark_withdrawn_in_summary os (path_join (run_dir ctx run_id) summary_json_name) report fs2 = (fs3, said)"
    by (cases "mark_withdrawn_in_summary os (path_join (run_dir ctx run_id) summary_json_name) report fs2")
  from assms 1 2 3 4 have "ctx' = ctx\<lparr>files := fs3\<rparr>" "report' = report"
    "evs = Status (''wrote '' @ rollback_path ctx run_id) # said"
    by (simp_all add: persist_rollback_def Let_def)
  with 1 2 3 4 show ?thesis by (rule that)
qed

lemma mark_withdrawn_events: "CallRollback n \<notin> set (snd (mark_withdrawn_in_summary os path report fs))"
  by (auto simp: mark_withdrawn_in_summary_def split: option.split sum.split prod.split)

lemma persist_rollback_report:
  assumes "persist_rollback os ctx run_id report = (Inr report', ctx', evs)"
  shows "report' = report \<and> (\<forall>n. CallRollback n \<notin> set evs)"
  using assms 
proof (rule persist_rollback_ok)
  fix fs2 fs3 said
  assume "mark_withdrawn_in_summary os (path_join (run_dir ctx run_id) summary_json_name) report fs2 = (fs3, said)"
    and "report' = report" and "evs = Status (''wrote '' @ rollback_path ctx run_id) # said"
  then show ?thesis
    using mark_withdrawn_events [of _ os "path_join (run_dir ctx run_id) summary_json_name" report fs2] by simp
qed

lemma load_prior_state_events: "CallRollback n \<notin> set (snd (load_prior_state os ctx run_id log))"
  by (auto simp: load_prior_state_def Let_def split: option.splits)

lemma load_prior_state_log: "fst (load_prior_state os ctx run_id log) = fst (load_prior_state os ctx run_id log')"
  by (auto simp: load_prior_state_def Let_def split: option.splits)

lemma run_with_publishers_cases:
  assumes "run_with_publishers os aux ctx run_id publishers = (Inr report', ctx', evs)"
  obtains prior st evs1 said where "validate_run_id run_id = Inr ()"
    "fst (load_prior_state os ctx run_id False) = Inr prior"
    "st = fold (rollback_row publishers aux) (candidate_rows (results prior @ carried_forward prior))
        \<lparr>rb_ctx = ctx, rb_results = results prior @ carried_forward prior, rb_rolled_back = 0, rb_failed = 0,
         rb_not_found = 0, rb_skipped_no_scope = 0, rb_events = evs1\<rparr>"
    "report' = prior\<lparr>results := take (length (results prior)) (rb_results st),
        carried_forward := drop (length (results prior)) (rb_results st)\<rparr>"
    "\<forall>n. CallRollback n \<notin> set evs1"
    "\<forall>n. CallRollback n \<in> set evs \<longleftrightarrow> CallRollback n \<in> set (rb_events st)"
    "persist_rollback os (rb_ctx st) run_id report' = (Inr report', ctx', said)"
proof -
  obtain res levs where load: "load_prior_state os ctx run_id True = (res, levs)"
    by (cases "load_prior_state os ctx run_id True")
  have valid: "validate_run_id run_id = Inr ()"
    using assms by (auto simp: run_with_publishers_def split: sum.splits)
  obtain prior where res: "res = Inr prior"
    using assms valid load by (cases res) (auto simp: run_with_publishers_def)
  let ?rows = "results prior @ carried_forward prior"
  define greeting where "greeting = (if candidate_rows ?rows = []
     then [WarnLine ''no rollback-eligible entries in prior report; nothing to do'']
     else [Status (''dispatching rollback for '' @ count_noun (length (candidate_rows ?rows)) ''target'' ''targets'')])"
  define st where "st = fold (rollback_row publishers aux) (candidate_rows ?rows)
        \<lparr>rb_ctx = ctx, rb_results = ?rows, rb_rolled_back = 0, rb_failed = 0,
         rb_not_found = 0, rb_skipped_no_scope = 0, rb_events = levs @ greeting\<rparr>"
  let ?rep = "prior\<lparr>results := take (length (results prior)) (rb_results st),
        carried_forward := drop (length (results prior)) (rb_results st)\<rparr>"
  obtain ans c said where per: "persist_rollback os (rb_ctx st) run_id ?rep = (ans, c, said)" by (metis prod_cases3)
  obtain closing where "run_with_publishers os aux ctx run_id publishers = (ans, c, rb_events st @ [Status closing] @ said)"
    using valid load res per unfolding run_with_publishers_def st_def greeting_def by (simp add: Let_def)
  with assms have fin: "ans = Inr report'" "c = ctx'" "evs = rb_events st @ [Status closing] @ said" by simp_all
  with per persist_rollback_report have rep: "report' = ?rep" "\<forall>n. CallRollback n \<notin> set said" by metis+
  have no_calls: "\<forall>n. CallRollback n \<notin> set (levs @ greeting)"
    using load_prior_state_events [of _ os ctx run_id True] load by (auto simp: greeting_def)
  show ?thesis
    using that [OF valid _ st_def rep(1) no_calls, of said] fin per [folded rep(1)] rep(2) load res
      load_prior_state_log [of os ctx run_id False True] by auto
qed

lemma pass_replays:
  assumes "run_with_publishers os aux ctx run_id publishers = (Inr report', ctx', evs)"
    and "fst (load_prior_state os ctx run_id False) = Inr prior"
  shows "list_all2 replayed (results prior @ carried_forward prior) (results report' @ carried_forward report')
     \<and> length (results report') = length (results prior)
     \<and> (\<forall>n. CallRollback n \<in> set evs \<longrightarrow>
          (\<exists>row \<in> set (results prior @ carried_forward prior). is_candidate row \<and> res_name row = n))"
  using assms(1)
proof (cases rule: run_with_publishers_cases)
  case (1 prior' st evs1 said)
  then have prior: "prior' = prior" using assms(2) by simp
  let ?rows = "results prior @ carried_forward prior"
  have rows: "list_all2 replayed ?rows (rb_results st)"
    and calls: "\<forall>n. CallRollback n \<in> set (rb_events st) \<longrightarrow>
         CallRollback n \<in> set evs1 \<or> (\<exists>i \<in> set (candidate_rows ?rows). n = res_name (?rows ! i))"
    using fold_rollback_rows [OF distinct_candidate_rows, of ?rows
        "\<lparr>rb_ctx = ctx, rb_results = ?rows, rb_rolled_back = 0, rb_failed = 0,
         rb_not_found = 0, rb_skipped_no_scope = 0, rb_events = evs1\<rparr>" publishers aux]
    unfolding 1(3) prior by (simp_all add: set_candidate_rows)
  have len: "length (rb_results st) = length ?rows" using list_all2_lengthD [OF rows] by simp
  have "results report' @ carried_forward report' = rb_results st"
    and "length (results report') = length (results prior)"
    using 1(4) prior len by simp_all
  moreover have "\<exists>row \<in> set ?rows. is_candidate row \<and> res_name row = n" if "CallRollback n \<in> set evs" for n
    using calls 1(5,6) that by (metis nth_mem set_candidate_rows)
  ultimately show ?thesis using rows by simp
qed

text \<open>
  C7. A withdrawal replays exactly what its preview names and touches nothing else: every row
  keeps its place, name, group, requirement and evidence; a row that is not a candidate is
  unchanged; a replayed row ends rolled back, failed to roll back, skipped for lack of scope, or
  as it was; and a publisher's rollback is only called for a name in the preview.
\<close>
theorem withdrawal_matches_preview:
  assumes "run_with_publishers os aux ctx run_id publishers = (Inr report', ctx', evs)"
  shows "\<exists>prior. fst (load_prior_state os ctx run_id False) = Inr prior
     \<and> planned_rollback_names os ctx run_id
         = Inr (map res_name (filter is_candidate (results prior @ carried_forward prior)))
     \<and> list_all2 replayed (results prior @ carried_forward prior) (results report' @ carried_forward report')
     \<and> length (results report') = length (results prior)
     \<and> (CallRollback name \<in> set evs \<longrightarrow>
          name \<in> set (map res_name (filter is_candidate (results prior @ carried_forward prior))))"
proof -
  obtain prior where valid: "validate_run_id run_id = Inr ()"
    and prior: "fst (load_prior_state os ctx run_id False) = Inr prior"
    using run_with_publishers_cases [OF assms] by metis
  have "planned_rollback_names os ctx run_id
         = Inr (map res_name (filter is_candidate (results prior @ carried_forward prior)))"
    by (simp add: planned_rollback_names_def valid prior map_candidate_rows)
  with pass_replays [OF assms prior] prior show ?thesis by auto
qed

lemma mem_run_succeeds:
  assumes "validate_run_id run_id = Inr ()" and "fst (load_prior_state mem_os ctx run_id False) = Inr prior"
  shows "\<exists>report' ctx' evs. run_with_publishers mem_os aux ctx run_id publishers = (Inr report', ctx', evs)"
proof -
  obtain levs where load: "load_prior_state mem_os ctx run_id True = (Inr prior, levs)"
    using assms(2) load_prior_state_log [of mem_os ctx run_id False True]
    by (cases "load_prior_state mem_os ctx run_id True") simp
  have persist: "fst (persist_rollback mem_os cx run_id r) = Inr r" for cx :: "(doc, 'a) run_context" and r
    by (simp add: persist_rollback_def mem_os_def Let_def case_prod_beta)
  have "\<exists>r. fst (run_with_publishers mem_os aux ctx run_id publishers) = Inr r"
    unfolding run_with_publishers_def assms(1) load by (simp add: Let_def case_prod_beta persist)
  then show ?thesis by (metis prod.collapse)
qed

text \<open>A run directory holding a report with one published tap.\<close>

definition tap_report :: publish_report where
  "tap_report = default_report\<lparr>results := [\<lparr>res_name = ''homebrew'', res_group = Manager, res_required = True,
     res_outcome = Succeeded, res_evidence = Some (new_evidence ''homebrew''), res_entry_skips = []\<rparr>]\<rparr>"

definition tap_context :: "(doc, unit) run_context" where
  "tap_context = test_context\<lparr>files := (\<lambda>p. if p = ''dist/run-v1.0.0/report.json'' then Some (ReportDoc tap_report) else None)\<rparr>"

lemma tap_loads: "fst (load_prior_state mem_os tap_context ''v1.0.0'' log) = Inr tap_report"
  by (simp add: load_prior_state_def rollback_path_def report_path_for_def run_dir_def path_join_def run_dir_prefix_def
      rollback_json_name_def report_json_name_def tap_context_def test_context_def mem_os_def Let_def)

lemma tap_id_valid: "validate_run_id ''v1.0.0'' = Inr ()"
  by (simp add: validate_run_id_ok is_ascii_alphanumeric_def)

theorem withdrawal_matches_preview_witness:
  "planned_rollback_names mem_os tap_context ''v1.0.0'' = Inr [''homebrew'']"
proof -
  obtain report' ctx' evs where run: "run_with_publishers mem_os [] tap_context ''v1.0.0''
      [stub_publisher ''homebrew'' Manager True (Inr (new_evidence ''homebrew''))] = (Inr report', ctx', evs)"
    using mem_run_succeeds [OF tap_id_valid tap_loads] by blast
  from withdrawal_matches_preview [OF run, of "''homebrew''"]
  have "planned_rollback_names mem_os tap_context ''v1.0.0''
      = Inr (map res_name (filter is_candidate (results tap_report @ carried_forward tap_report)))"
    unfolding tap_loads by blast
  then show ?thesis by (simp add: tap_report_def default_report_def is_candidate_def)
qed

subsection \<open>Repeated passes\<close>

context lawful_os begin

lemma mark_withdrawn_elsewhere:
  assumes "mark_withdrawn_in_summary os path report fs = (fs', evs)" and "p \<noteq> path"
  shows "fs' p = fs p"
  using assms write_summary_elsewhere
  by (auto simp: mark_withdrawn_in_summary_def split: option.splits if_splits sum.splits prod.splits)

lemma persist_rollback_stores:
  assumes "persist_rollback os ctx run_id report = (Inr report', ctx', evs)"
  shows "Option.bind (files ctx' (rollback_path ctx' run_id)) (os_parse_report os) = Some report'"
    and "dist ctx' = dist ctx"
proof -
  obtain fs1 tx fs2 fs3 said where json: "os_report_json os report = Inr tx"
    and wr: "os_write os fs1 (rollback_path ctx run_id) tx = Inr fs2"
    and mark: "mark_withdrawn_in_summary os (path_join (run_dir ctx run_id) summary_json_name) report fs2 = (fs3, said)"
    and fin: "ctx' = ctx\<lparr>files := fs3\<rparr>" "report' = report"
    using assms by (rule persist_rollback_ok)
  have ne: "rollback_path ctx run_id \<noteq> path_join (run_dir ctx run_id) summary_json_name"
    by (simp add: rollback_path_def path_join_def rollback_json_name_def summary_json_name_def)
  have "fs3 (rollback_path ctx run_id) = Some tx"
    using mark_withdrawn_elsewhere [OF mark ne] write_stores [OF wr] by simp
  moreover have "rollback_path ctx' run_id = rollback_path ctx run_id"
    by (simp add: fin rollback_path_def run_dir_def)
  ultimately show "Option.bind (files ctx' (rollback_path ctx' run_id)) (os_parse_report os) = Some report'"
    using fin report_codec [OF json] by simp
  show "dist ctx' = dist ctx" by (simp add: fin)
qed

lemma run_then_load:
  assumes "run_with_publishers os aux ctx run_id publishers = (Inr report', ctx', evs)"
  shows "fst (load_prior_state os ctx' run_id log) = Inr report'"
  using assms
proof (cases rule: run_with_publishers_cases)
  case (1 prior st evs1 said)
  from persist_rollback_stores(1) [OF 1(7)] obtain tx where
    "files ctx' (rollback_path ctx' run_id) = Some tx" "os_parse_report os tx = Some report'"
    by (auto simp: bind_eq_Some_conv)
  then show ?thesis by (simp add: load_prior_state_def Let_def)
qed

lemma run_marks_withdrawn:
  assumes "run_with_publishers os aux ctx run_id publishers = (Inr report', ctx', evs)"
  shows "withdrawn_beside os (files ctx') (path_join (run_dir ctx' run_id) summary_json_name) name \<longleftrightarrow>
     (\<exists>row \<in> set (results report' @ carried_forward report'). res_name row = name
        \<and> is_withdrawal_outcome (res_outcome row))"
  using assms
proof (cases rule: run_with_publishers_cases)
  case (1 prior st evs1 said)
  from persist_rollback_stores(1) [OF 1(7)] obtain tx where
    t: "files ctx' (rollback_path ctx' run_id) = Some tx" "os_parse_report os tx = Some report'"
    by (auto simp: bind_eq_Some_conv)
  have "with_file_name (path_join (run_dir ctx' run_id) summary_json_name) rollback_json_name = rollback_path ctx' run_id"
    by (simp add: with_file_name_def rollback_path_def)
  with t show ?thesis by (auto simp: withdrawn_beside_def list_ex_iff)
qed

end

text \<open>
  C6. A repeated withdrawal converges: the second pass starts from exactly the state the first
  one left, so it calls no publisher's rollback for a row that was rolled back -- every call is for
  a row still outstanding -- and every publisher the first pass decided is recorded as withdrawn
  beside the run's summary, where the ledger fast path looks before it trusts that summary.
\<close>
theorem repeated_withdrawal_converges:
  assumes "lawful_os os"
    and "run_with_publishers os aux ctx run_id publishers = (Inr report1, ctx1, evs1)"
    and "run_with_publishers os aux ctx1 run_id publishers = (Inr report2, ctx2, evs2)"
  shows "fst (load_prior_state os ctx1 run_id False) = Inr report1
     \<and> (CallRollback name \<in> set evs2 \<longrightarrow>
          (\<exists>row \<in> set (results report1 @ carried_forward report1).
             res_name row = name \<and> is_candidate row \<and> res_outcome row \<noteq> RolledBack))
     \<and> list_all2 (\<lambda>r1 r2. res_outcome r1 = RolledBack \<longrightarrow> r2 = r1)
         (results report1 @ carried_forward report1) (results report2 @ carried_forward report2)
     \<and> (\<forall>row \<in> set (results report1 @ carried_forward report1). is_withdrawal_outcome (res_outcome row) \<longrightarrow>
          withdrawn_beside os (files ctx1) (path_join (run_dir ctx1 run_id) summary_json_name) (res_name row))"
proof -
  have load: "fst (load_prior_state os ctx1 run_id False) = Inr report1"
    by (rule lawful_os.run_then_load [OF assms(1,2)])
  from pass_replays [OF assms(3) load]
  have "list_all2 replayed (results report1 @ carried_forward report1) (results report2 @ carried_forward report2)"
    and "CallRollback name \<in> set evs2 \<longrightarrow>
          (\<exists>row \<in> set (results report1 @ carried_forward report1). is_candidate row \<and> res_name row = name)"
    by auto
  moreover from this(1) have "list_all2 (\<lambda>r1 r2. res_outcome r1 = RolledBack \<longrightarrow> r2 = r1)
         (results report1 @ carried_forward report1) (results report2 @ carried_forward report2)"
    by (rule list_all2_mono) (auto simp: replayed_def rolled_back_not_candidate)
  ultimately show ?thesis
    using load rolled_back_not_candidate lawful_os.run_marks_withdrawn [OF assms(1,2)] by blast
qed

theorem repeated_withdrawal_converges_witness:
  "\<exists>report1 ctx1 evs1. run_with_publishers mem_os [] tap_context ''v1.0.0''
       [stub_publisher ''homebrew'' Manager True (Inr (new_evidence ''homebrew''))] = (Inr report1, ctx1, evs1)
     \<and> fst (load_prior_state mem_os ctx1 ''v1.0.0'' False) = Inr report1"
proof -
  let ?ps = "[stub_publisher ''homebrew'' Manager True (Inr (new_evidence ''homebrew''))]"
  obtain report1 ctx1 evs1 where run1: "run_with_publishers mem_os [] tap_context ''v1.0.0'' ?ps = (Inr report1, ctx1, evs1)"
    using mem_run_succeeds [OF tap_id_valid tap_loads] by blast
  obtain report2 ctx2 evs2 where run2: "run_with_publishers mem_os [] ctx1 ''v1.0.0'' ?ps = (Inr report2, ctx2, evs2)"
    using mem_run_succeeds [OF tap_id_valid mem.run_then_load [OF run1]] by blast
  from repeated_withdrawal_converges [OF mem.lawful_os_axioms run1 run2] run1 show ?thesis by blast
qed

subsection \<open>Carried work\<close>

text \<open>The items named by the evidence of a list of rows.\<close>

definition row_items :: "publisher_result \<Rightarrow> publish_evidence_extra set" where
  "row_items r = (case res_evidence r of None \<Rightarrow> {} | Some e \<Rightarrow> work_items (extra e))"

definition rows_items :: "publisher_result list \<Rightarrow> publish_evidence_extra set" where
  "rows_items rows = (\<Union>r \<in> set rows. row_items r)"

definition report_items :: "publish_report \<Rightarrow> publish_evidence_extra set" where
  "report_items report = rows_items (results report) \<union> rows_items (carried_forward report)"

lemma rows_items_simps [simp]:
  "rows_items [] = {}" "rows_items (r # rows) = row_items r \<union> rows_items rows"
  "rows_items (xs @ ys) = rows_items xs \<union> rows_items ys"
  by (auto simp: rows_items_def)

lemma absorb_joins:
  assumes "absorb_extra (extra x) (extra y) \<noteq> None"
  obtains x' where "absorb_prior x y = (x', True)"
  using assms that by (cases "absorb_prior x y") (metis (full_types) absorb_prior_fails(3))

text \<open>The row that stands for a publisher among the carried ones, and what carrying a row makes of it.\<close>

abbreviation named :: "string \<Rightarrow> publisher_result list \<Rightarrow> publisher_result option" where
  "named n \<equiv> List.find (\<lambda>r. res_name r = n)"

definition carried_join :: "publisher_result option \<Rightarrow> publisher_result \<Rightarrow> publish_evidence \<Rightarrow> publisher_result" where
  "carried_join carried earlier ev =
     (case carried of
        None \<Rightarrow> earlier
      | Some r \<Rightarrow> (case res_evidence r of
            None \<Rightarrow> earlier
          | Some e \<Rightarrow> (case absorb_prior e ev of
              (e', True) \<Rightarrow> r\<lparr>res_evidence := Some e'\<rparr>
            | (_, False) \<Rightarrow> earlier)))"

lemma named_carry_into:
  "named n (carry_into rows earlier ev) =
     (if n = res_name earlier then Some (carried_join (named n rows) earlier ev) else named n rows)"
  by (induction rows) (auto simp: carried_join_def split: option.splits prod.splits bool.splits)

lemma carry_into_names: "res_name ` set (carry_into rows earlier ev) = insert (res_name earlier) (res_name ` set rows)"
  by (induction rows) (auto split: option.splits prod.splits bool.splits)

text \<open>A row keeps being a candidate when an earlier record joins its evidence.\<close>

lemma joined_candidate:
  assumes "is_candidate r" "res_evidence r = Some e" "absorb_prior e ev = (e', True)"
  shows "is_candidate (r\<lparr>res_evidence := Some e'\<rparr>)"
  using assms absorb_prior_records [OF assms(3)]
  by (auto simp: is_candidate_def split: publisher_group.splits publisher_outcome.splits)

lemma carry_into_candidates:
  assumes "\<forall>r \<in> set rows. is_candidate r" "is_candidate earlier"
  shows "\<forall>r \<in> set (carry_into rows earlier ev). is_candidate r"
  using assms(1)
  by (induction rows) (auto simp: assms(2) joined_candidate split: option.splits prod.splits bool.splits)

lemma join_own_row_facts:
  assumes "join_own_row report earlier ev = Some report'" and "res_evidence earlier = Some ev"
  shows "rows_items (results report') = rows_items (results report) \<union> row_items earlier"
    and "carried_forward report' = carried_forward report"
    and "map (\<lambda>r. (res_name r, res_outcome r)) (results report') = map (\<lambda>r. (res_name r, res_outcome r)) (results report)"
    and "map (\<lambda>r. (res_name r, is_candidate r)) (results report') = map (\<lambda>r. (res_name r, is_candidate r)) (results report)"
    and "(res_name earlier, True) \<in> set (map (\<lambda>r. (res_name r, is_candidate r)) (results report))"
proof -
  obtain c where c: "List.find (\<lambda>c. res_name (results report ! c) = res_name earlier) (rollback_candidates report) = Some c"
    using assms(1) by (auto simp: join_own_row_def split: option.splits)
  obtain mine where mine: "res_evidence (results report ! c) = Some mine"
    using assms(1) c by (auto simp: join_own_row_def split: option.splits)
  obtain mine' where join: "absorb_prior mine ev = (mine', True)"
    and report': "report' = report\<lparr>results := (results report)[c := (results report ! c)\<lparr>res_evidence := Some mine'\<rparr>]\<rparr>"
    using assms(1) c mine by (auto simp: join_own_row_def split: option.splits if_splits prod.splits bool.splits)
  have lt: "c < length (results report)"
    using find_Some_mem [OF c] by (simp add: rollback_candidates_def set_candidate_rows)
  have cand: "is_candidate (results report ! c)" "res_name (results report ! c) = res_name earlier"
    using find_Some_mem [OF c] c by (auto simp: rollback_candidates_def set_candidate_rows find_Some_iff)
  with lt show "(res_name earlier, True) \<in> set (map (\<lambda>r. (res_name r, is_candidate r)) (results report))"
    by (force simp: set_conv_nth)
  show "map (\<lambda>r. (res_name r, is_candidate r)) (results report') = map (\<lambda>r. (res_name r, is_candidate r)) (results report)"
    using lt cand(1) joined_candidate [OF cand(1) mine join]
    by (intro nth_equalityI) (auto simp: report' nth_list_update)
  have items: "work_items (extra mine') = work_items (extra mine) \<union> work_items (extra ev)"
    by (simp add: work_items_def absorb_prior_items [OF join])
  let ?R = "results report" and ?x = "(results report ! c)\<lparr>res_evidence := Some mine'\<rparr>"
  have "rows_items (results report') = rows_items (take c ?R) \<union> (row_items ?x \<union> rows_items (drop (Suc c) ?R))"
    by (simp add: report' upd_conv_take_nth_drop [OF lt])
  moreover have "rows_items ?R = rows_items (take c ?R) \<union> (row_items (?R ! c) \<union> rows_items (drop (Suc c) ?R))"
    using id_take_nth_drop [OF lt] by (metis rows_items_simps(2,3))
  ultimately show "rows_items (results report') = rows_items (results report) \<union> row_items earlier"
    using mine items assms(2) by (auto simp: row_items_def)
  show "carried_forward report' = carried_forward report" by (simp add: report')
  show "map (\<lambda>r. (res_name r, res_outcome r)) (results report') = map (\<lambda>r. (res_name r, res_outcome r)) (results report)"
    using lt by (intro nth_equalityI) (auto simp: report' nth_list_update)
qed

abbreviation outcome_key :: "publisher_result \<Rightarrow> string \<times> publisher_outcome" where
  "outcome_key r \<equiv> (res_name r, res_outcome r)"

lemma ran_again_key:
  assumes "map outcome_key (results a) = map outcome_key (results b)"
  shows "ran_again a earlier = ran_again b earlier"
proof -
  have "ran_again r earlier = list_ex (\<lambda>(n, oc). n = res_name earlier
        \<and> (case oc of Succeeded \<Rightarrow> True | Failed _ \<Rightarrow> True | Skipped AlreadyPublished \<Rightarrow> True | _ \<Rightarrow> False))
       (map outcome_key (results r))" for r
    by (simp add: ran_again_def list_ex_iff)
  with assms show ?thesis by simp
qed

text \<open>
  What an earlier run's evidence needs to survive the rows still to come: its items are in this run's
  own rows, or in the row carried for the publisher, which then accepts whatever that evidence accepts.
\<close>

definition holds_work :: "publish_report \<Rightarrow> string \<Rightarrow> publish_evidence \<Rightarrow> bool" where
  "holds_work report n ev \<longleftrightarrow>
     work_items (extra ev) \<subseteq> rows_items (results report)
     \<or> (\<exists>r e. named n (carried_forward report) = Some r \<and> res_evidence r = Some e
          \<and> work_items (extra ev) \<subseteq> work_items (extra e)
          \<and> (\<forall>f. absorb_extra (extra ev) f \<noteq> None \<longrightarrow> absorb_extra (extra e) f \<noteq> None))"

lemma holds_work_items: "holds_work report n ev \<Longrightarrow> work_items (extra ev) \<subseteq> report_items report"
  by (fastforce simp: holds_work_def report_items_def rows_items_def row_items_def dest: find_Some_mem)

lemma absorb_prior_work_items:
  "absorb_prior e ev = (e', True) \<Longrightarrow> work_items (extra e') = work_items (extra e) \<union> work_items (extra ev)"
  by (simp add: work_items_def absorb_prior_items)

lemma carried_join_holds:
  assumes "res_evidence earlier = Some ev"
  shows "\<exists>e. res_evidence (carried_join carried earlier ev) = Some e \<and> work_items (extra ev) \<subseteq> work_items (extra e)
     \<and> (\<forall>f. absorb_extra (extra ev) f \<noteq> None \<longrightarrow> absorb_extra (extra e) f \<noteq> None)"
proof (cases "\<exists>r e e'. carried = Some r \<and> res_evidence r = Some e \<and> absorb_prior e ev = (e', True)")
  case True
  then obtain r e e' where "carried = Some r" "res_evidence r = Some e" and join: "absorb_prior e ev = (e', True)" by blast
  then show ?thesis
    using absorb_prior_work_items [OF join] absorb_prior_kind_of_prior [OF join] by (simp add: carried_join_def)
next
  case False
  then have "carried_join carried earlier ev = earlier"
    by (auto simp: carried_join_def split: option.splits prod.splits bool.splits)
  with assms show ?thesis by simp
qed

lemma carry_row_establishes:
  assumes "res_evidence earlier = Some ev"
  shows "holds_work (carry_row report earlier ev) (res_name earlier) ev"
  using carried_join_holds [OF assms] by (simp add: holds_work_def carry_row_def named_carry_into)

lemma carry_row_keeps:
  assumes "holds_work report n ev" and "n = res_name b \<Longrightarrow> absorb_extra (extra ev) (extra y) \<noteq> None"
  shows "holds_work (carry_row report b y) n ev"
  using assms(1) [unfolded holds_work_def]
proof (elim disjE exE conjE)
  fix r e
  assume r: "named n (carried_forward report) = Some r" "res_evidence r = Some e"
    and sub: "work_items (extra ev) \<subseteq> work_items (extra e)"
    and kind: "\<forall>f. absorb_extra (extra ev) f \<noteq> None \<longrightarrow> absorb_extra (extra e) f \<noteq> None"
  show ?thesis
  proof (cases "n = res_name b")
    case True
    with assms(2) kind obtain e' where join: "absorb_prior e y = (e', True)" by (meson absorb_joins)
    with True r sub kind absorb_prior_kind [OF join] absorb_prior_work_items [OF join] show ?thesis
      by (auto simp: holds_work_def carry_row_def named_carry_into carried_join_def)
  next
    case False
    with r sub kind show ?thesis by (auto simp: holds_work_def carry_row_def named_carry_into)
  qed
qed (simp add: holds_work_def carry_row_def)

text \<open>The publishers a withdrawal of the report would call upon.\<close>

definition withdrawable :: "publish_report \<Rightarrow> string set" where
  "withdrawable report = res_name ` set (filter is_candidate (results report @ carried_forward report))"

lemma withdrawable_alt:
  "withdrawable report = {n. (n, True) \<in> set (map (\<lambda>r. (res_name r, is_candidate r)) (results report))}
     \<union> res_name ` set (filter is_candidate (carried_forward report))"
  by (auto simp: withdrawable_def)

definition carries_candidates :: "publish_report \<Rightarrow> bool" where
  "carries_candidates report \<longleftrightarrow> (\<forall>r \<in> set (carried_forward report). is_candidate r)"

lemma carry_row_candidates:
  assumes "carries_candidates report" "is_candidate b"
  shows "carries_candidates (carry_row report b y)"
    and "withdrawable (carry_row report b y) = insert (res_name b) (withdrawable report)"
proof -
  have all: "\<forall>r \<in> set (carry_into (carried_forward report) b y). is_candidate r"
    using assms by (intro carry_into_candidates) (simp_all add: carries_candidates_def)
  then show "carries_candidates (carry_row report b y)" by (simp add: carries_candidates_def carry_row_def)
  have "filter is_candidate (carry_into (carried_forward report) b y) = carry_into (carried_forward report) b y"
    "filter is_candidate (carried_forward report) = carried_forward report"
    using all assms(1) by (simp_all add: carries_candidates_def)
  then show "withdrawable (carry_row report b y) = insert (res_name b) (withdrawable report)"
    by (simp add: withdrawable_alt carry_row_def carry_into_names)
qed

text \<open>One earlier row: it is passed over, it joins this run's own row, or it is carried.\<close>

lemma carry_one_cases:
  obtains (over) "carry_one b report = report" "res_evidence b = None \<or> res_group b = Submitter \<and> ran_again report b"
  | (join) y where "res_evidence b = Some y" "join_own_row report b y = Some (carry_one b report)"
  | (carry) y where "res_evidence b = Some y" "carry_one b report = carry_row report b y"
proof (cases "res_evidence b")
  case None
  with that(1) show ?thesis by (simp add: carry_one_def)
next
  case (Some y)
  with that show ?thesis
    by (cases "join_own_row report b y"; cases "res_group b = Submitter"; cases "ran_again report b") (auto simp: carry_one_def)
qed

lemma carry_one_own:
  "rows_items (results report) \<subseteq> rows_items (results (carry_one b report))"
  "map outcome_key (results (carry_one b report)) = map outcome_key (results report)"
  by (cases rule: carry_one_cases [of b report]; auto simp: carry_row_def join_own_row_facts)+

lemma carry_one_candidates:
  assumes "carries_candidates report" "is_candidate b"
  shows "carries_candidates (carry_one b report) \<and> withdrawable report \<subseteq> withdrawable (carry_one b report)
     \<and> (res_evidence b = None \<or> res_group b = Submitter \<and> ran_again report b
          \<or> res_name b \<in> withdrawable (carry_one b report))"
proof (cases rule: carry_one_cases [of b report])
  case (join y)
  from join_own_row_facts(2,4,5) [OF join(2,1)] assms(1) show ?thesis
    by (auto simp: withdrawable_alt carries_candidates_def)
next
  case (carry y)
  with carry_row_candidates [OF assms, of y] show ?thesis by auto
qed (use assms in auto)

lemma carry_one_establishes:
  assumes "res_evidence b = Some y" "\<not> (res_group b = Submitter \<and> ran_again report b)"
  shows "holds_work (carry_one b report) (res_name b) y"
proof (cases rule: carry_one_cases [of b report])
  case (join y')
  from join_own_row_facts(1) [OF join(2,1)] join(1) assms(1) show ?thesis
    by (auto simp: holds_work_def row_items_def)
qed (use assms carry_row_establishes in auto)

lemma carry_one_keeps:
  assumes "holds_work report n ev"
    and "\<And>y. n = res_name b \<Longrightarrow> res_evidence b = Some y \<Longrightarrow> absorb_extra (extra ev) (extra y) \<noteq> None"
  shows "holds_work (carry_one b report) n ev"
proof (cases rule: carry_one_cases [of b report])
  case (join y)
  from join_own_row_facts(1,2) [OF join(2,1)] assms(1) show ?thesis by (auto simp: holds_work_def)
next
  case (carry y)
  with carry_row_keeps [OF assms(1), of b y] assms(2) show ?thesis by auto
qed (use assms in auto)

lemma fold_carry_own:
  "rows_items (results report) \<subseteq> rows_items (results (fold carry_one es report))"
  "map outcome_key (results (fold carry_one es report)) = map outcome_key (results report)"
  using carry_one_own by (induction es arbitrary: report) fastforce+

lemma fold_carry_keeps:
  assumes "holds_work report n ev"
    and "\<forall>b \<in> set es. \<forall>y. n = res_name b \<and> res_evidence b = Some y \<longrightarrow> absorb_extra (extra ev) (extra y) \<noteq> None"
  shows "holds_work (fold carry_one es report) n ev"
  using assms
proof (induction es arbitrary: report)
  case (Cons b es)
  have "holds_work (carry_one b report) n ev" by (rule carry_one_keeps) (use Cons.prems in auto)
  with Cons show ?case by simp
qed simp

lemma fold_carry_candidates:
  assumes "carries_candidates report" "\<forall>b \<in> set es. is_candidate b"
  shows "carries_candidates (fold carry_one es report) \<and> withdrawable report \<subseteq> withdrawable (fold carry_one es report)"
  using assms carry_one_candidates by (induction es arbitrary: report) (simp, fastforce)

lemma fold_ran_again: "ran_again (fold carry_one es report) b = ran_again report b"
  by (intro ran_again_key fold_carry_own(2))

definition prior_candidates :: "publish_report \<Rightarrow> publisher_result list" where
  "prior_candidates prior = filter is_candidate (carried_forward prior) @ filter is_candidate (results prior)"

lemma carry_prior_work_fold: "carry_prior_work report prior = fold carry_one (prior_candidates prior) report"
proof -
  have "fold (\<lambda>i. carry_one (rows ! i)) (candidate_rows rows) r = fold carry_one (filter is_candidate rows) r" for rows r
    using map_candidate_rows [of "\<lambda>x. x" rows] by (metis (no_types, lifting) comp_def fold_cong fold_map list.map_ident)
  then show ?thesis by (simp add: carry_prior_work_def prior_candidates_def)
qed

text \<open>A later row of the same publisher holds evidence that this evidence cannot take in.\<close>

definition superseded :: "publisher_result \<Rightarrow> publish_evidence \<Rightarrow> publisher_result list \<Rightarrow> bool" where
  "superseded row ev later =
     list_ex (\<lambda>b. res_name b = res_name row \<and>
       (case res_evidence b of None \<Rightarrow> False | Some y \<Rightarrow> absorb_extra (extra ev) (extra y) = None)) later"

lemma fold_carry_row:
  assumes "carries_candidates report" and "\<forall>b \<in> set (before @ row # later). is_candidate b"
    and "res_evidence row = Some ev" and "\<not> (res_group row = Submitter \<and> ran_again report row)"
  shows "res_name row \<in> withdrawable (fold carry_one (before @ row # later) report)
     \<and> (work_items (extra ev) \<subseteq> report_items (fold carry_one (before @ row # later) report) \<or> superseded row ev later)"
proof
  let ?mid = "fold carry_one before report" and ?next = "carry_one row (fold carry_one before report)"
  have again: "\<not> (res_group row = Submitter \<and> ran_again ?mid row)" using assms(4) by (simp add: fold_ran_again)
  have "carries_candidates ?mid" using fold_carry_candidates [OF assms(1), of before] assms(2) by simp
  from carry_one_candidates [OF this, of row] again assms(2,3)
  have next_ok: "carries_candidates ?next" "res_name row \<in> withdrawable ?next" by auto
  with fold_carry_candidates [OF next_ok(1), of later] assms(2)
  show "res_name row \<in> withdrawable (fold carry_one (before @ row # later) report)" by auto
  have "holds_work ?next (res_name row) ev" by (rule carry_one_establishes [OF assms(3) again])
  then have "holds_work (fold carry_one later ?next) (res_name row) ev" if "\<not> superseded row ev later"
    by (rule fold_carry_keeps) (use that in \<open>auto simp: superseded_def list_ex_iff\<close>)
  from holds_work_items [OF this]
  show "work_items (extra ev) \<subseteq> report_items (fold carry_one (before @ row # later) report) \<or> superseded row ev later"
    by auto
qed

text \<open>
  C8. A re-run keeps its own rows -- their names and outcomes unchanged, every item they name still
  named -- and takes in the earlier run's. For each row of an earlier run that is a rollback
  candidate with evidence, other than a row of a Submitter which this run reached again, the
  publisher can still be withdrawn from the new report, and the new report names every item of the
  row's evidence unless a later row of the earlier report, for the same publisher, holds evidence of
  a kind that cannot join it, which then takes its place.
\<close>
theorem rerun_loses_no_work:
  assumes "carries_candidates report"
  shows "rows_items (results report) \<subseteq> rows_items (results (carry_prior_work report prior))
     \<and> map outcome_key (results (carry_prior_work report prior)) = map outcome_key (results report)
     \<and> (\<forall>before row later ev.
          prior_candidates prior = before @ row # later \<and> res_evidence row = Some ev
            \<and> \<not> (res_group row = Submitter \<and> ran_again report row) \<longrightarrow>
          res_name row \<in> withdrawable (carry_prior_work report prior)
          \<and> (work_items (extra ev) \<subseteq> report_items (carry_prior_work report prior) \<or> superseded row ev later))"
proof -
  have "\<forall>b \<in> set (prior_candidates prior). is_candidate b" by (auto simp: prior_candidates_def)
  with fold_carry_row [OF assms] show ?thesis
    by (auto simp: carry_prior_work_fold fold_carry_own subsetD [OF fold_carry_own(1)])
qed

theorem rerun_loses_no_work_witness:
  "let old = tap_report\<lparr>results := [\<lparr>res_name = ''npm'', res_group = Assets, res_required = True,
         res_outcome = Failed ''second package'', res_evidence = Some ((new_evidence ''npm'')\<lparr>extra := Npm [npm_pkg ''demo'']\<rparr>),
         res_entry_skips = []\<rparr>]\<rparr>
   in Npm [npm_pkg ''demo''] \<in> report_items (carry_prior_work default_report old)
      \<and> ''npm'' \<in> withdrawable (carry_prior_work default_report old)"
proof -
  let ?row = "\<lparr>res_name = ''npm'', res_group = Assets, res_required = True,
         res_outcome = Failed ''second package'', res_evidence = Some ((new_evidence ''npm'')\<lparr>extra := Npm [npm_pkg ''demo'']\<rparr>),
         res_entry_skips = []\<rparr>"
  let ?old = "tap_report\<lparr>results := [?row]\<rparr>"
  have "carries_candidates default_report" by (simp add: carries_candidates_def default_report_def)
  moreover have "prior_candidates ?old = [] @ ?row # []"
    by (simp add: prior_candidates_def tap_report_def default_report_def is_candidate_def records_published_work_def)
  moreover have "\<not> superseded ?row ((new_evidence ''npm'')\<lparr>extra := Npm [npm_pkg ''demo'']\<rparr>) []"
    by (simp add: superseded_def)
  ultimately have "res_name ?row \<in> withdrawable (carry_prior_work default_report ?old)
    \<and> work_items (extra ((new_evidence ''npm'')\<lparr>extra := Npm [npm_pkg ''demo'']\<rparr>)) \<subseteq> report_items (carry_prior_work default_report ?old)"
    using rerun_loses_no_work [of default_report ?old] by fastforce
  then show ?thesis by (auto simp: work_items_def Let_def)
qed

text \<open>
  The exception is real: an earlier run's row whose evidence cannot join replaces the row already
  carried for the publisher, and the items of the replaced row are named no more.
\<close>

lemma carry_replaces_other_kind:
  "carry_into [\<lparr>res_name = ''custom'', res_group = Manager, res_required = False, res_outcome = Succeeded,
       res_evidence = Some ((new_evidence ''custom'')\<lparr>extra := Npm [npm_pkg ''demo'']\<rparr>), res_entry_skips = []\<rparr>]
     \<lparr>res_name = ''custom'', res_group = Manager, res_required = False, res_outcome = Succeeded,
       res_evidence = Some ((new_evidence ''custom'')\<lparr>primary_ref := Some ''r''\<rparr>), res_entry_skips = []\<rparr>
     ((new_evidence ''custom'')\<lparr>primary_ref := Some ''r''\<rparr>)
   = [\<lparr>res_name = ''custom'', res_group = Manager, res_required = False, res_outcome = Succeeded,
       res_evidence = Some ((new_evidence ''custom'')\<lparr>primary_ref := Some ''r''\<rparr>), res_entry_skips = []\<rparr>]"
  by (simp add: absorb_prior_def new_evidence_def)

end
