(* ===== verification/SemVer.thy ===== *)
theory SemVer
  imports Prelude "HOL-Library.Monad_Syntax"
begin

section \<open>Semantic versions and tag names (\<open>crates/core/src/git/semver.rs\<close>)\<close>

text \<open>
  The \<open>SemVer\<close> struct with its \<open>Ord\<close>, the strict parser, and the two functions that locate the
  version inside a prefixed tag. The three regular expressions of the file are anchored or
  end-anchored, and their groups are delimited by characters the groups exclude, so each has one
  match decision; the captures are computed by scanning left to right. \<open>u64\<close> fields are naturals
  below \<open>2 ^ 64\<close> (\<open>semver_wf\<close>), because the code only parses and compares them.

  Main results: the parser inverts the printer, every parsed value is well formed, the comparison
  is a lawful order on versions and refines the precedence of SemVer 2.0.0 section 11, and a
  family prefix without a dot never hides the version of a tag.
\<close>

subsection \<open>The struct and its printers\<close>

record sem_ver =
  major :: nat
  minor :: nat
  patch :: nat
  prerelease :: "string option"
  build_metadata :: "string option"

definition is_prerelease :: "sem_ver \<Rightarrow> bool" where
  "is_prerelease v = (prerelease v \<noteq> None)"

definition raw_version_string :: "sem_ver \<Rightarrow> string" where
  "raw_version_string v =
     show_nat (major v) @ ''.'' @ show_nat (minor v) @ ''.'' @ show_nat (patch v)"

definition version_string :: "sem_ver \<Rightarrow> string" where
  "version_string v =
     raw_version_string v
     @ (case prerelease v of None \<Rightarrow> [] | Some pre \<Rightarrow> ''-'' @ pre)
     @ (case build_metadata v of None \<Rightarrow> [] | Some meta \<Rightarrow> ''+'' @ meta)"

text \<open>\<open>PartialEq\<close> ignores the build metadata.\<close>

definition semver_eq :: "sem_ver \<Rightarrow> sem_ver \<Rightarrow> bool" where
  "semver_eq a b \<longleftrightarrow>
     major a = major b \<and> minor a = minor b \<and> patch a = patch b \<and> prerelease a = prerelease b"

subsection \<open>Precedence\<close>

definition ident_cmp :: "string \<Rightarrow> string \<Rightarrow> ordering" where
  "ident_cmp a b =
     (case (parse_u64 a, parse_u64 b) of
        (Some an, Some bn) \<Rightarrow> cmp_of an bn
      | (Some _, None) \<Rightarrow> Less
      | (None, Some _) \<Rightarrow> Greater
      | (None, None) \<Rightarrow> cmp_of a b)"

text \<open>The loop over the zipped identifiers, and the length comparison after it.\<close>

definition compare_prerelease :: "string \<Rightarrow> string \<Rightarrow> ordering" where
  "compare_prerelease a b = lex_cmp ident_cmp (split_char CHR ''.'' a) (split_char CHR ''.'' b)"

definition prerelease_cmp :: "string option \<Rightarrow> string option \<Rightarrow> ordering" where
  "prerelease_cmp p q =
     (case (p, q) of
        (Some _, None) \<Rightarrow> Less
      | (None, Some _) \<Rightarrow> Greater
      | (Some a, Some b) \<Rightarrow> compare_prerelease a b
      | (None, None) \<Rightarrow> Equal)"

definition semver_cmp :: "sem_ver \<Rightarrow> sem_ver \<Rightarrow> ordering" where
  "semver_cmp a b =
     then_cmp (cmp_of (major a) (major b))
       (then_cmp (cmp_of (minor a) (minor b))
         (then_cmp (cmp_of (patch a) (patch b))
           (prerelease_cmp (prerelease a) (prerelease b))))"

subsection \<open>The strict parser\<close>

datatype semver_error = NotSemver string | ParseIntError string

definition expect :: "char \<Rightarrow> string \<Rightarrow> string option" where
  "expect c s = (case s of [] \<Rightarrow> None | x # r \<Rightarrow> if x = c then Some r else None)"

definition digits1 :: "string \<Rightarrow> (string \<times> string) option" where
  "digits1 s =
     (let ds = takeWhile is_ascii_digit s
      in if ds = [] then None else Some (ds, dropWhile is_ascii_digit s))"

text \<open>\<open>(?:\+(.+))?$\<close>: \<open>.\<close> does not match a line feed.\<close>

definition build_capture :: "string \<Rightarrow> string option option" where
  "build_capture r =
     (case r of [] \<Rightarrow> Some None
      | c # b \<Rightarrow> if c = CHR ''+'' \<and> b \<noteq> [] \<and> CHR 0x0A \<notin> set b then Some (Some b) else None)"

text \<open>\<open>(?:-([^+]+))?(?:\+(.+))?$\<close>\<close>

definition suffix_captures :: "string \<Rightarrow> (string option \<times> string option) option" where
  "suffix_captures r =
     (case expect CHR ''-'' r of
        None \<Rightarrow> map_option (Pair None) (build_capture r)
      | Some r' \<Rightarrow>
          (let pre = takeWhile (\<lambda>c. c \<noteq> CHR ''+'') r'
           in if pre = [] then None
              else map_option (Pair (Some pre)) (build_capture (dropWhile (\<lambda>c. c \<noteq> CHR ''+'') r'))))"

text \<open>\<open>(\d+)\.(\d+)\.(\d+)\<close> and the suffix groups, without the leading \<open>v?\<close>.\<close>

definition version_captures ::
  "string \<Rightarrow> (string \<times> string \<times> string \<times> string option \<times> string option) option" where
  "version_captures s = do {
     (ma, r1) \<leftarrow> digits1 s;
     r2 \<leftarrow> expect CHR ''.'' r1;
     (mi, r3) \<leftarrow> digits1 r2;
     r4 \<leftarrow> expect CHR ''.'' r3;
     (pa, r5) \<leftarrow> digits1 r4;
     (pre, meta) \<leftarrow> suffix_captures r5;
     Some (ma, mi, pa, pre, meta)
   }"

definition drop_v :: "string \<Rightarrow> string" where
  "drop_v s = (case expect CHR ''v'' s of None \<Rightarrow> s | Some r \<Rightarrow> r)"

definition parse_field :: "string \<Rightarrow> (semver_error, nat) result" where
  "parse_field ds = (case parse_u64 ds of None \<Rightarrow> Inl (ParseIntError ds) | Some n \<Rightarrow> Inr n)"

definition parse_semver :: "string \<Rightarrow> (semver_error, sem_ver) result" where
  "parse_semver tag =
     (case version_captures (drop_v tag) of
        None \<Rightarrow> Inl (NotSemver tag)
      | Some (ma, mi, pa, pre, meta) \<Rightarrow>
          (case parse_field ma of Inl e \<Rightarrow> Inl e
           | Inr m \<Rightarrow>
             (case parse_field mi of Inl e \<Rightarrow> Inl e
              | Inr n \<Rightarrow>
                (case parse_field pa of Inl e \<Rightarrow> Inl e
                 | Inr p \<Rightarrow>
                     Inr \<lparr>major = m, minor = n, patch = p, prerelease = pre, build_metadata = meta\<rparr>))))"

subsection \<open>Versions inside prefixed tags\<close>

definition is_tag_sep :: "char \<Rightarrow> bool" where
  "is_tag_sep c \<longleftrightarrow> c = CHR ''-'' \<or> c = CHR ''_'' \<or> c = CHR ''/''"

text \<open>\<open>PREFIX_RE\<close>: the leftmost separator after which the rest of the tag is a version.\<close>

fun prefix_capture :: "string \<Rightarrow> string option" where
  "prefix_capture [] = None"
| "prefix_capture (c # cs) =
     (if is_tag_sep c \<and> version_captures (drop_v cs) \<noteq> None then Some cs else prefix_capture cs)"

definition parse_semver_tag :: "string \<Rightarrow> (semver_error, sem_ver) result" where
  "parse_semver_tag tag =
     (case parse_semver tag of
        Inr sv \<Rightarrow> Inr sv
      | Inl _ \<Rightarrow> (case prefix_capture tag of
                   Some t \<Rightarrow> parse_semver t
                 | None \<Rightarrow> Inl (NotSemver tag)))"

definition version_from_tag :: "string \<Rightarrow> string option" where
  "version_from_tag tag =
     (if tag = [] then None
      else map_option version_string (ok_opt (parse_semver_tag tag)))"

text \<open>
  \<open>FAMILY_RE\<close>: the empty alternative is tried first; otherwise the greedy \<open>.*\<close> selects the
  rightmost separator (not past a line feed) after which the rest is a version. The result is the
  length of the prefix up to and including the separator, and the rest.
\<close>

fun family_tail :: "string \<Rightarrow> (nat \<times> string) option" where
  "family_tail [] = None"
| "family_tail (c # cs) =
     (if c = CHR 0x0A then None
      else (case family_tail cs of
              Some (n, t) \<Rightarrow> Some (Suc n, t)
            | None \<Rightarrow> if is_tag_sep c \<and> version_captures (drop_v cs) \<noteq> None
                       then Some (1, cs) else None))"

definition split_tag_family :: "string \<Rightarrow> (string \<times> sem_ver) option" where
  "split_tag_family tag =
     (case (if version_captures (drop_v tag) \<noteq> None then Some (0, tag) else family_tail tag) of
        None \<Rightarrow> None
      | Some (n, t) \<Rightarrow>
          map_option (Pair (take (n + (length t - length (drop_v t))) tag))
            (ok_opt (parse_semver (drop_v t))))"

subsection \<open>Well-formed versions and the round trip\<close>

definition semver_wf :: "sem_ver \<Rightarrow> bool" where
  "semver_wf v \<longleftrightarrow>
     major v < 2 ^ 64 \<and> minor v < 2 ^ 64 \<and> patch v < 2 ^ 64
     \<and> (case prerelease v of None \<Rightarrow> True | Some p \<Rightarrow> p \<noteq> [] \<and> CHR ''+'' \<notin> set p)
     \<and> (case build_metadata v of None \<Rightarrow> True | Some b \<Rightarrow> b \<noteq> [] \<and> CHR 0x0A \<notin> set b)"

lemma expect_Cons [simp]: "expect c (c # r) = Some r"
  by (simp add: expect_def)

lemma expect_Some [simp]: "expect c s = Some r \<longleftrightarrow> s = c # r"
  by (auto simp: expect_def split: list.splits)

lemma digit_classes [simp]:
  "\<not> is_ascii_digit CHR ''.''" "\<not> is_ascii_digit CHR ''-''" "\<not> is_ascii_digit CHR ''+''"
  "\<not> is_ascii_digit CHR ''v''" "\<not> is_ascii_digit CHR ''_''" "\<not> is_ascii_digit CHR ''/''"
  by (simp_all add: is_ascii_digit_def)

lemma digits1_append:
  assumes "list_all is_ascii_digit ds" and "ds \<noteq> []" and "r = [] \<or> \<not> is_ascii_digit (hd r)"
  shows "digits1 (ds @ r) = Some (ds, r)"
proof -
  have all: "\<And>x. x \<in> set ds \<Longrightarrow> is_ascii_digit x"
    using assms(1) by (simp add: list_all_iff)
  have "takeWhile is_ascii_digit r = [] \<and> dropWhile is_ascii_digit r = r"
    using assms(3) by (cases r) auto
  with all assms(2) show ?thesis
    by (simp add: digits1_def takeWhile_append2 dropWhile_append2)
qed

lemma digits1_show:
  "r = [] \<or> \<not> is_ascii_digit (hd r) \<Longrightarrow> digits1 (show_nat n @ r) = Some (show_nat n, r)"
  by (rule digits1_append) (simp_all add: show_nat_digits)

lemma digits1_Some:
  "digits1 s = Some (ds, r) \<Longrightarrow> s = ds @ r \<and> ds \<noteq> [] \<and> list_all is_ascii_digit ds"
  by (auto simp: digits1_def Let_def list_all_iff dest: set_takeWhileD split: if_splits)

lemma build_capture_print:
  "(case b of None \<Rightarrow> True | Some m \<Rightarrow> m \<noteq> [] \<and> CHR 0x0A \<notin> set m) \<Longrightarrow>
   build_capture (case b of None \<Rightarrow> [] | Some m \<Rightarrow> ''+'' @ m) = Some b"
  by (cases b) (simp_all add: build_capture_def)

lemma suffix_captures_print:
  assumes "case p of None \<Rightarrow> True | Some m \<Rightarrow> m \<noteq> [] \<and> CHR ''+'' \<notin> set m"
    and "case b of None \<Rightarrow> True | Some m \<Rightarrow> m \<noteq> [] \<and> CHR 0x0A \<notin> set m"
  shows "suffix_captures ((case p of None \<Rightarrow> [] | Some m \<Rightarrow> ''-'' @ m)
           @ (case b of None \<Rightarrow> [] | Some m \<Rightarrow> ''+'' @ m)) = Some (p, b)" (is "_ (_ @ ?b) = _")
proof (cases p)
  case None
  have "expect CHR ''-'' ?b = None" by (cases b) (simp_all add: expect_def)
  with None build_capture_print [OF assms(2)] show ?thesis by (simp add: suffix_captures_def)
next
  case (Some m)
  with assms(1) have m: "m \<noteq> []" "\<And>c. c \<in> set m \<Longrightarrow> c \<noteq> CHR ''+''" by auto
  have "takeWhile (\<lambda>c. c \<noteq> CHR ''+'') ?b = []" "dropWhile (\<lambda>c. c \<noteq> CHR ''+'') ?b = ?b"
    by (cases b; simp)+
  with m have "takeWhile (\<lambda>c. c \<noteq> CHR ''+'') (m @ ?b) = m"
      "dropWhile (\<lambda>c. c \<noteq> CHR ''+'') (m @ ?b) = ?b"
    by (simp_all add: takeWhile_append2 dropWhile_append2)
  with Some m build_capture_print [OF assms(2)] show ?thesis by (simp add: suffix_captures_def)
qed

lemma version_captures_print:
  assumes "semver_wf v"
  shows "version_captures (version_string v)
         = Some (show_nat (major v), show_nat (minor v), show_nat (patch v),
                 prerelease v, build_metadata v)"
proof -
  let ?sfx = "(case prerelease v of None \<Rightarrow> [] | Some m \<Rightarrow> ''-'' @ m)
              @ (case build_metadata v of None \<Rightarrow> [] | Some m \<Rightarrow> ''+'' @ m)"
  have nd: "?sfx = [] \<or> \<not> is_ascii_digit (hd ?sfx)"
    by (cases "prerelease v"; cases "build_metadata v") simp_all
  have "suffix_captures ?sfx = Some (prerelease v, build_metadata v)"
    using assms by (intro suffix_captures_print) (simp_all add: semver_wf_def)
  then show ?thesis using digits1_show [OF nd]
    by (simp add: version_captures_def version_string_def raw_version_string_def digits1_show)
qed

lemma show_nat_Cons_digit: "show_nat n @ r = c # r' \<Longrightarrow> is_ascii_digit c"
  using show_nat_digits [of n] by (cases "show_nat n") auto

lemma version_string_hd: "\<exists>c r. version_string v = c # r \<and> is_ascii_digit c"
  using show_nat_digits [of "major v"]
  by (cases "show_nat (major v)") (auto simp: version_string_def raw_version_string_def)

lemma drop_v_print [simp]: "drop_v (version_string v) = version_string v"
  using version_string_hd [of v]
  by (auto simp: drop_v_def expect_def split: if_splits)

lemma drop_v_v [simp]: "drop_v (CHR ''v'' # s) = s"
  by (simp add: drop_v_def)

lemma drop_v_cases: "drop_v s = s \<or> s = CHR ''v'' # drop_v s"
  by (auto simp: drop_v_def expect_def split: list.splits if_splits)

lemma parse_field_show: "n < 2 ^ 64 \<Longrightarrow> parse_field (show_nat n) = Inr n"
  by (simp add: parse_field_def parse_u64_show)

lemma parse_semver_drop_v:
  assumes "drop_v s = version_string v" and "semver_wf v"
  shows "parse_semver s = Inr v"
  using assms
  by (simp add: parse_semver_def version_captures_print parse_field_show semver_wf_def)

lemma parse_semver_print: "semver_wf v \<Longrightarrow> parse_semver (version_string v) = Inr v"
  by (rule parse_semver_drop_v) simp_all

lemma build_capture_wf:
  "build_capture r = Some (Some b) \<Longrightarrow> b \<noteq> [] \<and> CHR 0x0A \<notin> set b"
  by (auto simp: build_capture_def split: list.splits if_splits)

lemma suffix_captures_wf:
  assumes "suffix_captures r = Some (p, b)"
  shows "(case p of None \<Rightarrow> True | Some m \<Rightarrow> m \<noteq> [] \<and> CHR ''+'' \<notin> set m)
    \<and> (case b of None \<Rightarrow> True | Some m \<Rightarrow> m \<noteq> [] \<and> CHR 0x0A \<notin> set m)"
  using assms
  by (auto simp: suffix_captures_def Let_def dest: build_capture_wf set_takeWhileD
      split: option.splits if_splits)

lemma parse_field_bound: "parse_field s = Inr n \<Longrightarrow> n < 2 ^ 64"
  by (auto simp: parse_field_def dest: parse_u64_bound split: option.splits)

lemma version_captures_suffix:
  "version_captures s = Some (ma, mi, pa, p, b) \<Longrightarrow> \<exists>r. suffix_captures r = Some (p, b)"
  by (auto simp: version_captures_def bind_eq_Some_conv)

lemma parse_semver_wf: "parse_semver s = Inr v \<Longrightarrow> semver_wf v"
  by (auto simp: parse_semver_def semver_wf_def
      dest!: version_captures_suffix suffix_captures_wf dest: parse_field_bound
      split: option.splits prod.splits sum.splits)

subsection \<open>The comparison is a lawful order\<close>

interpretation ident_ord: rust_ord ident_cmp
proof unfold_locales
  fix x y
  show "ident_cmp y x = reverse_ord (ident_cmp x y)"
    using linorder_ord.swap [of x y] linorder_ord.swap [of "the (parse_u64 x)" "the (parse_u64 y)"]
    by (auto simp: ident_cmp_def cmp_of_def split: option.splits)
next
  fix x y z
  assume "ident_cmp x y \<noteq> Greater" and "ident_cmp y z \<noteq> Greater"
  then show "ident_cmp x z \<noteq> Greater"
    by (auto simp: ident_cmp_def split: option.splits)
qed

interpretation prerelease_ord: rust_ord prerelease_cmp
proof unfold_locales
  fix x y
  show "prerelease_cmp y x = reverse_ord (prerelease_cmp x y)"
    by (auto simp: prerelease_cmp_def compare_prerelease_def split: option.splits
        intro: ident_ord.lex_swap)
next
  fix x y z
  assume "prerelease_cmp x y \<noteq> Greater" and "prerelease_cmp y z \<noteq> Greater"
  then show "prerelease_cmp x z \<noteq> Greater"
    by (auto simp: prerelease_cmp_def compare_prerelease_def split: option.splits
        dest: ident_ord.lex_trans)
qed

lemmas field_ord = rust_ord_on [OF linorder_ord.rust_ord_axioms]

lemma semver_cmp_rust_ord: "rust_ord semver_cmp"
proof -
  have "rust_ord (\<lambda>a b :: sem_ver. then_cmp (cmp_of (major a) (major b))
       (then_cmp (cmp_of (minor a) (minor b))
         (then_cmp (cmp_of (patch a) (patch b))
           (prerelease_cmp (prerelease a) (prerelease b)))))"
    by (intro rust_ord_then field_ord rust_ord_on [OF prerelease_ord.rust_ord_axioms])
  then show ?thesis by (simp add: semver_cmp_def [abs_def])
qed

interpretation semver_ord: rust_ord semver_cmp
  by (rule semver_cmp_rust_ord)

text \<open>A release outranks each of its prereleases.\<close>

lemma prerelease_below_release:
  "major a = major b \<Longrightarrow> minor a = minor b \<Longrightarrow> patch a = patch b \<Longrightarrow>
   is_prerelease a \<Longrightarrow> \<not> is_prerelease b \<Longrightarrow> semver_cmp a b = Less"
  by (auto simp: semver_cmp_def is_prerelease_def prerelease_cmp_def ord_simps)

subsection \<open>Precedence as SemVer 2.0.0 section 11 states it\<close>

datatype ident = Numeric nat | Alnum string

definition classify :: "string \<Rightarrow> ident" where
  "classify s = (if s \<noteq> [] \<and> list_all is_ascii_digit s then Numeric (digits_val s) else Alnum s)"

fun ident_less :: "ident \<Rightarrow> ident \<Rightarrow> bool" where
  "ident_less (Numeric a) (Numeric b) = (a < b)"
| "ident_less (Numeric _) (Alnum _) = True"
| "ident_less (Alnum _) (Numeric _) = False"
| "ident_less (Alnum a) (Alnum b) = (a < b)"

definition idents_of :: "string \<Rightarrow> ident list" where
  "idents_of p = map classify (split_char CHR ''.'' p)"

text \<open>
  The first identifiers that differ decide; a list that runs out first is the smaller one.
\<close>

definition precedes :: "ident list \<Rightarrow> ident list \<Rightarrow> bool" where
  "precedes xs ys \<longleftrightarrow>
     (\<exists>i < length ys. (\<forall>j < i. xs ! j = ys ! j)
        \<and> (i = length xs \<or> i < length xs \<and> ident_less (xs ! i) (ys ! i)))"

text \<open>The identifiers the code treats as the specification does.\<close>

definition ident_fits :: "string \<Rightarrow> bool" where
  "ident_fits s \<longleftrightarrow>
     (case s of [] \<Rightarrow> True | c # _ \<Rightarrow> c \<noteq> CHR ''+'')
     \<and> (list_all is_ascii_digit s \<longrightarrow> digits_val s < 2 ^ 64)"

definition prerelease_fits :: "string \<Rightarrow> bool" where
  "prerelease_fits p \<longleftrightarrow> list_all ident_fits (split_char CHR ''.'' p)"

lemma parse_u64_classify:
  "ident_fits s \<Longrightarrow> parse_u64 s = (case classify s of Numeric n \<Rightarrow> Some n | Alnum _ \<Rightarrow> None)"
  by (cases s) (auto simp: ident_fits_def classify_def parse_u64_def)

lemma classify_Alnum: "classify s = Alnum t \<Longrightarrow> t = s"
  by (simp add: classify_def split: if_splits)

lemma ident_cmp_classify:
  assumes "ident_fits a" and "ident_fits b"
  shows "ident_cmp a b = Less \<longleftrightarrow> ident_less (classify a) (classify b)"
    and "ident_cmp a b = Equal \<longleftrightarrow> classify a = classify b"
  using assms
  by (auto simp: ident_cmp_def parse_u64_classify dest: classify_Alnum split: ident.splits)

lemma fits_nth:
  "prerelease_fits p \<Longrightarrow> i < length (split_char CHR ''.'' p) \<Longrightarrow> ident_fits (split_char CHR ''.'' p ! i)"
  by (simp add: prerelease_fits_def list_all_length)

lemma compare_prerelease_equal:
  assumes "prerelease_fits p" and "prerelease_fits q"
  shows "compare_prerelease p q = Equal \<longleftrightarrow> idents_of p = idents_of q"
  using assms
  by (auto simp: compare_prerelease_def ident_ord.lex_eq_iff idents_of_def list_all2_conv_all_nth
      list_eq_iff_nth_eq ident_cmp_classify fits_nth)

lemma compare_prerelease_less:
  assumes p: "prerelease_fits p" and q: "prerelease_fits q"
  shows "compare_prerelease p q = Less \<longleftrightarrow> precedes (idents_of p) (idents_of q)"
proof -
  let ?P = "split_char CHR ''.'' p" and ?Q = "split_char CHR ''.'' q"
  have *: "((\<forall>j < i. ident_cmp (?P ! j) (?Q ! j) = Equal)
       \<and> (i = length ?P \<or> i < length ?P \<and> ident_cmp (?P ! i) (?Q ! i) = Less)) \<longleftrightarrow>
     ((\<forall>j < i. idents_of p ! j = idents_of q ! j)
       \<and> (i = length ?P \<or> i < length ?P \<and> ident_less (idents_of p ! i) (idents_of q ! i)))"
    if i: "i < length ?Q" for i
  proof (cases "i \<le> length ?P")
    case True
    have "ident_cmp (?P ! j) (?Q ! j) = Equal \<longleftrightarrow> idents_of p ! j = idents_of q ! j" if "j < i" for j
      using that i True p q by (simp add: ident_cmp_classify fits_nth idents_of_def)
    moreover have "ident_cmp (?P ! i) (?Q ! i) = Less
        \<longleftrightarrow> ident_less (idents_of p ! i) (idents_of q ! i)" if "i < length ?P"
      using that i p q by (simp add: ident_cmp_classify fits_nth idents_of_def)
    ultimately show ?thesis by auto
  next
    case False
    then show ?thesis by auto
  qed
  have len: "length (idents_of p) = length ?P" "length (idents_of q) = length ?Q"
    by (simp_all add: idents_of_def)
  show ?thesis
    unfolding compare_prerelease_def ident_ord.lex_less_iff precedes_def len
    by (rule ex_cong1, rule conj_cong [OF HOL.refl], rule *)
qed

subsection \<open>Equality\<close>

definition canonical_ident :: "string \<Rightarrow> bool" where
  "canonical_ident s \<longleftrightarrow>
     ident_fits s \<and> (s \<noteq> [] \<and> list_all is_ascii_digit s \<longrightarrow> s = show_nat (digits_val s))"

definition canonical_pre :: "string option \<Rightarrow> bool" where
  "canonical_pre p =
     (case p of None \<Rightarrow> True | Some s \<Rightarrow> list_all canonical_ident (split_char CHR ''.'' s))"

lemma canonical_fits: "canonical_pre (Some p) \<Longrightarrow> prerelease_fits p"
  by (auto simp: canonical_pre_def prerelease_fits_def canonical_ident_def list_all_iff)

lemma classify_inj:
  "canonical_ident a \<Longrightarrow> canonical_ident b \<Longrightarrow> classify a = classify b \<Longrightarrow> a = b"
  by (auto simp: classify_def canonical_ident_def split: if_splits)

lemma idents_of_inj:
  assumes "canonical_pre (Some p)" and "canonical_pre (Some q)" and "idents_of p = idents_of q"
  shows "p = q"
proof -
  have "inj_on classify {s. canonical_ident s}" using classify_inj by (auto intro: inj_onI)
  then have "inj_on (map classify) {l. set l \<subseteq> {s. canonical_ident s}}"
    by (auto intro!: inj_onI simp: map_inj_on inj_on_subset dest: map_inj_on)
  with assms have "split_char CHR ''.'' p = split_char CHR ''.'' q"
    by (auto simp: idents_of_def canonical_pre_def list_all_iff dest: inj_onD)
  then show ?thesis by (rule split_char_inj)
qed

lemma prerelease_cmp_Equal_iff:
  assumes "canonical_pre p" and "canonical_pre q"
  shows "prerelease_cmp p q = Equal \<longleftrightarrow> p = q"
proof (cases "p = q")
  case True
  then show ?thesis by (simp add: prerelease_ord.refl)
next
  case False
  then show ?thesis
    using assms idents_of_inj compare_prerelease_equal canonical_fits
    by (auto simp: prerelease_cmp_def split: option.splits)
qed

subsection \<open>Locating the version of a prefixed tag\<close>

lemma version_captures_shape:
  "version_captures s \<noteq> None \<Longrightarrow> \<exists>ds r. s = ds @ CHR ''.'' # r \<and> list_all is_ascii_digit ds"
  by (auto simp: version_captures_def bind_eq_Some_conv dest!: digits1_Some)

lemma is_tag_sep_char: "is_tag_sep c \<Longrightarrow> \<not> is_ascii_digit c \<and> c \<noteq> CHR ''v'' \<and> c \<noteq> CHR ''.''"
  by (auto simp: is_tag_sep_def)

lemma captures_prefix_None:
  assumes "CHR ''.'' \<notin> set p" and "is_tag_sep c"
  shows "version_captures (drop_v (p @ c # t)) = None"
proof (rule ccontr)
  assume "version_captures (drop_v (p @ c # t)) \<noteq> None"
  then obtain ds r where ds: "drop_v (p @ c # t) = ds @ CHR ''.'' # r" "list_all is_ascii_digit ds"
    using version_captures_shape by blast
  obtain w where w: "p @ c # t = w @ CHR ''.'' # r" "set w \<subseteq> insert CHR ''v'' (set ds)"
    using drop_v_cases [of "p @ c # t"] ds(1) by (metis append_Cons set_ConsD subsetI insertI1 insertI2)
  have nd: "\<And>x. x \<in> set w \<Longrightarrow> x \<noteq> CHR ''.''"
    using w(2) ds(2) by (force simp: list_all_iff)
  have "takeWhile (\<lambda>x. x \<noteq> CHR ''.'') (p @ c # t) = p @ c # takeWhile (\<lambda>x. x \<noteq> CHR ''.'') t"
  proof -
    have "\<And>x. x \<in> set p \<Longrightarrow> x \<noteq> CHR ''.''" using assms(1) by auto
    then show ?thesis using is_tag_sep_char [OF assms(2)] by (simp add: takeWhile_append2)
  qed
  moreover have "takeWhile (\<lambda>x. x \<noteq> CHR ''.'') (w @ CHR ''.'' # r) = w"
    using nd by (simp add: takeWhile_append2)
  ultimately have "c \<in> set w" using w(1) by (metis in_set_conv_decomp)
  with w(2) ds(2) is_tag_sep_char [OF assms(2)] show False by (auto simp: list_all_iff)
qed

lemma prefix_capture_found:
  assumes "is_tag_sep c" and "version_captures (drop_v t) \<noteq> None" and "CHR ''.'' \<notin> set p"
  shows "prefix_capture (p @ c # t) = Some t"
  using assms(3)
proof (induction p)
  case Nil
  with assms(1,2) show ?case by simp
next
  case (Cons x p)
  then have "version_captures (drop_v (p @ c # t)) = None"
    using captures_prefix_None [OF _ assms(1)] by simp
  with Cons show ?case by simp
qed

lemma parse_semver_tag_found:
  assumes "is_tag_sep c" and "CHR ''.'' \<notin> set p" and "drop_v t = version_string v" and "semver_wf v"
  shows "parse_semver_tag (p @ c # t) = Inr v"
proof -
  have cap: "version_captures (drop_v t) \<noteq> None"
    using assms(3,4) by (simp add: version_captures_print)
  have "parse_semver (p @ c # t) = Inl (NotSemver (p @ c # t))"
    using captures_prefix_None [OF assms(2,1)] by (simp add: parse_semver_def)
  then show ?thesis
    using prefix_capture_found [OF assms(1) cap assms(2)] parse_semver_drop_v [OF assms(3,4)]
    by (simp add: parse_semver_tag_def)
qed

lemma located_version_wf: "parse_semver_tag tag = Inr v \<Longrightarrow> semver_wf v"
  by (auto simp: parse_semver_tag_def dest: parse_semver_wf split: sum.splits option.splits)

lemma family_tail_no_sep: "\<forall>x \<in> set t. \<not> is_tag_sep x \<Longrightarrow> family_tail t = None"
  by (induction t) auto

lemma family_tail_found:
  assumes "is_tag_sep c" and "version_captures (drop_v t) \<noteq> None"
    and "\<forall>x \<in> set t. \<not> is_tag_sep x" and "CHR 0x0A \<notin> set p"
  shows "family_tail (p @ c # t) = Some (Suc (length p), t)"
  using assms(4)
proof (induction p)
  case Nil
  from assms(1) have "c \<noteq> CHR 0x0A" by (auto simp: is_tag_sep_def)
  with assms show ?case by (simp add: family_tail_no_sep)
next
  case (Cons x p)
  then show ?case by auto
qed

lemma release_no_sep:
  assumes "prerelease v = None" and "build_metadata v = None"
  shows "\<forall>x \<in> set (version_string v). \<not> is_tag_sep x"
proof -
  have "\<not> is_tag_sep x" if "x \<in> set (show_nat n)" for x n
    using show_nat_digits [of n] that is_tag_sep_char [of x] by (auto simp: list_all_iff)
  with assms show ?thesis
    by (auto simp: version_string_def raw_version_string_def is_tag_sep_def)
qed

lemma split_tag_family_found:
  assumes "is_tag_sep c" and "CHR ''.'' \<notin> set p" and "CHR 0x0A \<notin> set p"
    and "t = version_string v \<or> t = CHR ''v'' # version_string v"
    and "semver_wf v" and "prerelease v = None" and "build_metadata v = None"
  shows "split_tag_family (p @ c # t)
         = Some (p @ c # take (length t - length (version_string v)) t, v)"
proof -
  have dv: "drop_v t = version_string v" using assms(4) by auto
  have nosep: "\<forall>x \<in> set t. \<not> is_tag_sep x"
  proof -
    have "set t \<subseteq> insert CHR ''v'' (set (version_string v))" using assms(4) by auto
    moreover have "\<not> is_tag_sep CHR ''v''" by (simp add: is_tag_sep_def)
    ultimately show ?thesis using release_no_sep [OF assms(6,7)] by blast
  qed
  have cap: "version_captures (drop_v t) \<noteq> None"
    using dv assms(5) by (simp add: version_captures_print)
  have "family_tail (p @ c # t) = Some (Suc (length p), t)"
    by (rule family_tail_found [OF assms(1) cap nosep assms(3)])
  then show ?thesis
    using captures_prefix_None [OF assms(2,1)] parse_semver_print [OF assms(5)] dv
    by (simp add: split_tag_family_def)
qed

lemmas semver_eval = parse_semver_tag_def parse_semver_def version_captures_def digits1_def
  expect_def drop_v_def suffix_captures_def build_capture_def parse_field_def parse_u64_def
  digits_val_def digit_val_def is_tag_sep_def semver_cmp_def prerelease_cmp_def
  compare_prerelease_def ident_cmp_def cmp_of_def Let_def

subsection \<open>Properties\<close>

text \<open>
  C35. Round trip: every well-formed version is read back from its \<open>Version\<close> string, with and
  without the leading \<open>v\<close> of a tag, by the strict parser.
\<close>
theorem semver_roundtrip:
  assumes "semver_wf v"
  shows "parse_semver (version_string v) = Inr v
       \<and> parse_semver (CHR ''v'' # version_string v) = Inr v"
  using assms by (simp add: parse_semver_drop_v)

theorem semver_roundtrip_witness:
  "parse_semver (CHR ''v'' # version_string
      \<lparr>major = 1, minor = 20, patch = 3, prerelease = Some ''rc.1'', build_metadata = Some ''b-2''\<rparr>)
   = Inr \<lparr>major = 1, minor = 20, patch = 3, prerelease = Some ''rc.1'', build_metadata = Some ''b-2''\<rparr>"
  by (rule semver_roundtrip [THEN conjunct2]) (simp add: semver_wf_def)

text \<open>
  C36. Everything the tag parser accepts is a well-formed version: its fields fit in \<open>u64\<close>, its
  prerelease is non-empty and holds no \<open>+\<close>, its build metadata is non-empty and on one line.
\<close>
theorem parse_semver_tag_wf:
  assumes "parse_semver_tag tag = Inr v"
  shows "semver_wf v"
  using assms by (rule located_version_wf)

theorem parse_semver_tag_wf_witness:
  "semver_wf \<lparr>major = 2, minor = 1, patch = 0, prerelease = None, build_metadata = None\<rparr>"
  by (rule parse_semver_tag_wf [of "''cfgd-core-v2.1.0''"]) (simp add: semver_eval)

text \<open>
  \<open>Ord for SemVer\<close> is a lawful total preorder: swapping the arguments reverses the answer,
  the answer is transitive, and versions that compare equal are interchangeable in every further
  comparison.
\<close>
theorem semver_cmp_total_preorder:
  "semver_cmp b a = reverse_ord (semver_cmp a b)
   \<and> (semver_cmp a b \<noteq> Greater \<longrightarrow> semver_cmp b c \<noteq> Greater \<longrightarrow> semver_cmp a c \<noteq> Greater)
   \<and> (semver_cmp a b = Equal \<longrightarrow> semver_cmp a c = semver_cmp b c)"
  using semver_ord.swap semver_ord.trans_le semver_ord.eq_cong by blast

theorem semver_cmp_total_preorder_witness:
  "semver_cmp \<lparr>major = 1, minor = 0, patch = 0, prerelease = Some ''rc.2'', build_metadata = None\<rparr>
              \<lparr>major = 1, minor = 0, patch = 1, prerelease = None, build_metadata = None\<rparr> \<noteq> Greater"
  using semver_cmp_total_preorder
      [of "\<lparr>major = 1, minor = 0, patch = 0, prerelease = None, build_metadata = None\<rparr>"
          "\<lparr>major = 1, minor = 0, patch = 0, prerelease = Some ''rc.2'', build_metadata = None\<rparr>"
          "\<lparr>major = 1, minor = 0, patch = 1, prerelease = None, build_metadata = None\<rparr>"]
  by (simp add: semver_eval)

text \<open>
  C37. \<open>compare_prerelease\<close> implements the precedence of SemVer 2.0.0 section 11 on every
  prerelease whose numeric identifiers fit in 64 bits and of which no identifier starts with
  \<open>+\<close>: numeric identifiers by value, alphanumeric ones by their characters, numeric below
  alphanumeric, the first difference decides, and a proper prefix is lower.
\<close>
theorem compare_prerelease_refines_spec:
  assumes "prerelease_fits p" and "prerelease_fits q"
  shows "compare_prerelease p q =
    (if precedes (idents_of p) (idents_of q) then Less
     else if idents_of p = idents_of q then Equal else Greater)"
  using compare_prerelease_less [OF assms] compare_prerelease_equal [OF assms]
  by (cases "compare_prerelease p q") auto

theorem compare_prerelease_refines_spec_witness:
  "prerelease_fits ''rc.9'' \<and> prerelease_fits ''rc.10'' \<and>
   compare_prerelease ''rc.9'' ''rc.10'' =
    (if precedes (idents_of ''rc.9'') (idents_of ''rc.10'') then Less
     else if idents_of ''rc.9'' = idents_of ''rc.10'' then Equal else Greater)"
proof -
  have f: "prerelease_fits ''rc.9''" "prerelease_fits ''rc.10''"
    by (simp_all add: prerelease_fits_def ident_fits_def digits_val_def digit_val_def)
  from f compare_prerelease_refines_spec [OF f] show ?thesis by blast
qed

text \<open>
  On versions whose numeric prerelease identifiers carry no leading zero, comparing equal is
  the same as \<open>==\<close> (build metadata ignored by both).
\<close>
theorem semver_cmp_Equal_iff_eq:
  assumes "canonical_pre (prerelease a)" and "canonical_pre (prerelease b)"
  shows "semver_cmp a b = Equal \<longleftrightarrow> semver_eq a b"
  using prerelease_cmp_Equal_iff [OF assms] by (auto simp: semver_cmp_def semver_eq_def ord_simps)

theorem semver_cmp_Equal_iff_eq_witness:
  "\<not> semver_eq \<lparr>major = 1, minor = 0, patch = 0, prerelease = Some ''rc.1'', build_metadata = None\<rparr>
       \<lparr>major = 1, minor = 0, patch = 0, prerelease = Some ''rc.2'', build_metadata = None\<rparr>"
  by (subst semver_cmp_Equal_iff_eq [symmetric])
    (simp_all add: semver_eval canonical_pre_def canonical_ident_def ident_fits_def show_nat_eval)

text \<open>
  The leading zero matters: \<open>1.0.0-rc.01\<close> and \<open>1.0.0-rc.1\<close> are both accepted, compare as
  \<open>Equal\<close> and are not \<open>==\<close>, so \<open>Ord\<close> and \<open>Eq\<close> disagree there.
\<close>
lemma semver_ord_eq_disagree:
  "\<exists>a b. parse_semver ''1.0.0-rc.01'' = Inr a \<and> parse_semver ''1.0.0-rc.1'' = Inr b
     \<and> semver_cmp a b = Equal \<and> \<not> semver_eq a b"
proof -
  let ?v = "\<lambda>p. \<lparr>major = 1, minor = 0, patch = 0, prerelease = Some p, build_metadata = None\<rparr> :: sem_ver"
  have "parse_semver ''1.0.0-rc.01'' = Inr (?v ''rc.01'')" "parse_semver ''1.0.0-rc.1'' = Inr (?v ''rc.1'')"
    "semver_cmp (?v ''rc.01'') (?v ''rc.1'') = Equal" "\<not> semver_eq (?v ''rc.01'') (?v ''rc.1'')"
    by (simp_all add: semver_eval semver_eq_def)
  then show ?thesis by blast
qed

text \<open>
  A tag \<open><prefix><separator>[v]<version>\<close> whose prefix holds no dot is read as exactly that
  version by \<open>parse_semver_tag\<close>, whatever digits, dashes or slashes the prefix holds, and
  \<open>version_from_tag\<close> returns its canonical string.
\<close>
theorem parse_semver_tag_prefixed:
  assumes "is_tag_sep c" and "CHR ''.'' \<notin> set p" and "semver_wf v"
    and "t = version_string v \<or> t = CHR ''v'' # version_string v"
  shows "parse_semver_tag (p @ c # t) = Inr v
       \<and> version_from_tag (p @ c # t) = Some (version_string v)"
proof -
  have "drop_v t = version_string v" using assms(4) by auto
  then have "parse_semver_tag (p @ c # t) = Inr v"
    by (rule parse_semver_tag_found [OF assms(1,2) _ assms(3)])
  then show ?thesis by (simp add: version_from_tag_def)
qed

theorem parse_semver_tag_prefixed_witness:
  "version_from_tag (''h2-core'' @ CHR ''-'' # CHR ''v'' # version_string
      \<lparr>major = 1, minor = 0, patch = 0, prerelease = Some ''rc.1'', build_metadata = None\<rparr>)
   = Some (version_string
      \<lparr>major = 1, minor = 0, patch = 0, prerelease = Some ''rc.1'', build_metadata = None\<rparr>)"
  by (rule parse_semver_tag_prefixed [THEN conjunct2])
    (simp_all add: is_tag_sep_def semver_wf_def)

text \<open>
  For release versions the two locators agree: \<open>split_tag_family\<close> returns the version
  \<open>parse_semver_tag\<close> returns, and its prefix is everything before the first digit of the version.
\<close>
theorem split_tag_family_agrees:
  assumes "is_tag_sep c" and "CHR ''.'' \<notin> set p" and "CHR 0x0A \<notin> set p"
    and "semver_wf v" and "prerelease v = None" and "build_metadata v = None"
  shows "split_tag_family (p @ [c] @ ''v'' @ version_string v) = Some (p @ [c] @ ''v'', v)
       \<and> parse_semver_tag (p @ [c] @ ''v'' @ version_string v) = Inr v"
  using split_tag_family_found [OF assms(1-3) disjI2 [OF HOL.refl] assms(4-6)]
    parse_semver_tag_found [OF assms(1,2) drop_v_v assms(4)]
  by simp

theorem split_tag_family_agrees_witness:
  "split_tag_family (''crd'' @ ''-'' @ ''v'' @ version_string
      \<lparr>major = 0, minor = 5, patch = 0, prerelease = None, build_metadata = None\<rparr>)
   = Some (''crd'' @ ''-'' @ ''v'',
      \<lparr>major = 0, minor = 5, patch = 0, prerelease = None, build_metadata = None\<rparr>)"
  by (rule split_tag_family_agrees [THEN conjunct1]) (simp_all add: is_tag_sep_def semver_wf_def)

text \<open>
  With a prerelease that itself looks like a separated version they disagree: the first takes
  the leftmost candidate, the second the rightmost.
\<close>
lemma tag_locators_disagree:
  "map_option raw_version_string (ok_opt (parse_semver_tag ''core-v1.0.0-rc-1.2.3'')) = Some ''1.0.0''
   \<and> map_option (raw_version_string \<circ> snd) (split_tag_family ''core-v1.0.0-rc-1.2.3'') = Some ''1.2.3''"
  by (simp add: semver_eval split_tag_family_def raw_version_string_def show_nat_eval)

end
