(* ===== verification/Tags.thy ===== *)
theory Tags
  imports SemVer
begin

section \<open>Tag families, the latest tag and the previous tag (\<open>core/src/git/tags/\<close>)\<close>

text \<open>
  Models \<open>family.rs\<close> (which tags a \<open>tag_template\<close> creates, nightly and ignored tags), \<open>discover.rs\<close> (listing tags
  and choosing the latest) and \<open>previous.rs\<close> (the tag a release range starts from). The git subprocess, the
  glob library and the template engine are parameters: \<open>git_output\<close> answers a git command line, \<open>rev_parse\<close> resolves
  a revision, \<open>glob_of\<close> compiles a pattern to its test, a \<open>render\<close> argument renders a template. The regular expression
  \<open>discover.rs\<close> builds from a template is literal text around copies of one version expression; its matcher tries
  every way the copies can match.

  Main results: the latest tag is a highest version of the template's tags; the previous tag under \<open>smartsemver\<close> is
  never the tag itself, of the same family and of no narrower one, and highest among those on another commit;
  the configured families divide the tags between them.
\<close>

record git_config =
  tag_sort :: "string option"
  ignore_tags :: "string list option"
  ignore_tag_prefixes :: "string list option"
  prerelease_suffix :: "string option"

record git_env =
  git_output :: "string list \<Rightarrow> (string, string) result"
  rev_parse :: "string \<Rightarrow> string option"
  glob_of :: "string \<Rightarrow> (string \<Rightarrow> bool) option"

type_synonym renderer = "string \<Rightarrow> (string, string) result"

subsection \<open>Ignored and nightly tags\<close>

definition render_pattern :: "renderer option \<Rightarrow> string \<Rightarrow> string" where
  "render_pattern vars s =
     (case vars of
        Some render \<Rightarrow> (case render s of Inr r \<Rightarrow> r | Inl _ \<Rightarrow> s)
      | None \<Rightarrow> s)"

definition render_ignore_patterns :: "git_config option \<Rightarrow> renderer option \<Rightarrow> string list \<times> string list" where
  "render_ignore_patterns git_config vars =
     ((case Option.bind git_config ignore_tags of Some v \<Rightarrow> map (render_pattern vars) v | None \<Rightarrow> []),
      (case Option.bind git_config ignore_tag_prefixes of Some v \<Rightarrow> map (render_pattern vars) v | None \<Rightarrow> []))"

text \<open>The text after the last \<open>v\<close> that a digit follows, or the whole tag.\<close>

fun after_last_v :: "string \<Rightarrow> string option" where
  "after_last_v [] = None"
| "after_last_v (c # cs) =
     (case after_last_v cs of
        Some t \<Rightarrow> Some t
      | None \<Rightarrow> if c = CHR ''v'' \<and> (case cs of d # _ \<Rightarrow> is_ascii_digit d | [] \<Rightarrow> False) then Some cs else None)"

definition is_delim :: "char \<Rightarrow> bool" where
  "is_delim c \<longleftrightarrow> c = CHR ''-'' \<or> c = CHR ''.'' \<or> c = CHR ''+''"

text \<open>The search loop: \<open>before\<close> is the character before the text that is left.\<close>

function nightly_scan :: "char option \<Rightarrow> string \<Rightarrow> bool" where
  "nightly_scan before s =
     (case find_sub s ''nightly'' of
        None \<Rightarrow> False
      | Some pos \<Rightarrow>
          let preceded = (case (if pos = 0 then before else Some (s ! (pos - 1))) of Some c \<Rightarrow> is_delim c | None \<Rightarrow> False);
              rest = drop (pos + 7) s;
              followed = (case rest of c # _ \<Rightarrow> is_delim c | [] \<Rightarrow> True)
          in if preceded \<and> followed then True else nightly_scan (Some CHR ''y'') rest)"
  by auto

lemma find_sub_drop_less:
  assumes "find_sub s p = Some i" "p \<noteq> []"
  shows "length (drop (i + length p) s) < length s"
proof -
  obtain r where "s = take i s @ p @ r" using find_sub_Some [OF assms(1)] by blast
  then have "s \<noteq> []" using assms(2) by (metis append_is_Nil_conv)
  moreover have "length p > 0" using assms(2) by simp
  ultimately show ?thesis by (cases s) auto
qed

termination nightly_scan
  by (relation "measure (\<lambda>(_, s). length s)")
    (use find_sub_drop_less [where p = "''nightly''"] in \<open>auto simp: eval_nat_numeral\<close>)

declare nightly_scan.simps [simp del]

definition is_nightly_tag :: "string \<Rightarrow> bool" where
  "is_nightly_tag tag =
     (if tag = ''nightly'' then True
      else nightly_scan None (case after_last_v tag of Some t \<Rightarrow> t | None \<Rightarrow> tag))"

text \<open>A pattern that does not compile is dropped.\<close>

definition compile_globs :: "git_env \<Rightarrow> string list \<Rightarrow> (string \<Rightarrow> bool) list" where
  "compile_globs env pats = List.map_filter (glob_of env) pats"

definition filter_ignored_tags :: "git_env \<Rightarrow> string list \<Rightarrow> git_config option \<Rightarrow> renderer option \<Rightarrow> string list" where
  "filter_ignored_tags env tags git_config vars =
     (case render_ignore_patterns git_config vars of
        (pats, pfxs) \<Rightarrow>
          filter (\<lambda>t. \<not> list_ex (\<lambda>p. p \<noteq> [] \<and> starts_with t p) pfxs)
            (filter (\<lambda>t. \<not> list_ex (\<lambda>g. g t) (compile_globs env pats))
              (filter (\<lambda>t. \<not> is_nightly_tag t) tags)))"

subsection \<open>Families\<close>

definition version_placeholders :: "string list" where
  "version_placeholders = [''{{ .Version }}'', ''{{.Version}}'', ''{{ Version }}'', ''{{Version}}'']"

definition has_version_placeholder :: "string \<Rightarrow> bool" where
  "has_version_placeholder template = list_ex (contains template) version_placeholders"

fun find_map :: "('a \<Rightarrow> 'b option) \<Rightarrow> 'a list \<Rightarrow> 'b option" where
  "find_map f [] = None"
| "find_map f (x # xs) = (case f x of Some y \<Rightarrow> Some y | None \<Rightarrow> find_map f xs)"

definition tag_prefix_slice :: "string \<Rightarrow> string option" where
  "tag_prefix_slice template =
     find_map (\<lambda>ph. map_option (\<lambda>idx. take idx template) (find_sub template ph)) version_placeholders"

definition extract_tag_prefix :: "string \<Rightarrow> string option" where
  "extract_tag_prefix template = tag_prefix_slice template"

datatype tag_family_scope = Prefix string | BareVersion

definition describe_glob :: "tag_family_scope \<Rightarrow> string" where
  "describe_glob scope = (case scope of Prefix p \<Rightarrow> p @ ''*'' | BareVersion \<Rightarrow> ''[0-9]*'')"

definition scope_contains :: "tag_family_scope \<Rightarrow> string \<Rightarrow> bool" where
  "scope_contains scope tag =
     (case scope of
        Prefix p \<Rightarrow> starts_with tag p
      | BareVersion \<Rightarrow> (case tag of c # _ \<Rightarrow> is_ascii_digit c | [] \<Rightarrow> False))"

definition strip_monorepo_prefix :: "string \<Rightarrow> string \<Rightarrow> string" where
  "strip_monorepo_prefix tag p = (case strip_prefix tag p of Some r \<Rightarrow> r | None \<Rightarrow> tag)"

definition scope_strip :: "tag_family_scope \<Rightarrow> string \<Rightarrow> string" where
  "scope_strip scope tag = (case scope of Prefix p \<Rightarrow> strip_monorepo_prefix tag p | BareVersion \<Rightarrow> tag)"

definition compose_prefix :: "string \<Rightarrow> string \<Rightarrow> string" where
  "compose_prefix p value = (if p = [] \<or> starts_with value p then value else p @ value)"

definition family_scope :: "string \<Rightarrow> string option \<Rightarrow> tag_family_scope option" where
  "family_scope tag_template monorepo_prefix =
     (let namespace = (case monorepo_prefix of Some p \<Rightarrow> p | None \<Rightarrow> [])
      in case tag_prefix_slice tag_template of
           Some p \<Rightarrow>
             if p \<noteq> [] then Some (Prefix (compose_prefix namespace p))
             else if namespace = [] then Some BareVersion
             else Some (Prefix namespace)
         | None \<Rightarrow> if namespace = [] then None else Some (Prefix namespace))"

definition tag_family_glob :: "string \<Rightarrow> string option \<Rightarrow> string option" where
  "tag_family_glob tag_template monorepo_prefix = map_option describe_glob (family_scope tag_template monorepo_prefix)"

definition tag_in_family :: "string \<Rightarrow> string \<Rightarrow> string option \<Rightarrow> bool" where
  "tag_in_family tag tag_template monorepo_prefix =
     (case family_scope tag_template monorepo_prefix of Some s \<Rightarrow> scope_contains s tag | None \<Rightarrow> False)"

definition tag_family_prefix :: "string \<Rightarrow> string option \<Rightarrow> string option" where
  "tag_family_prefix tag_template monorepo_prefix =
     map_option (\<lambda>s. case s of Prefix p \<Rightarrow> p | BareVersion \<Rightarrow> []) (family_scope tag_template monorepo_prefix)"

definition excluded_sibling_prefixes :: "string \<Rightarrow> string option \<Rightarrow> string list \<Rightarrow> string list" where
  "excluded_sibling_prefixes tag_template monorepo_prefix sibling_templates =
     (let own = (case tag_family_prefix tag_template monorepo_prefix of Some p \<Rightarrow> p | None \<Rightarrow> [])
      in foldl (\<lambda>out sib.
           case tag_family_prefix sib monorepo_prefix of
             None \<Rightarrow> out
           | Some p \<Rightarrow> if length p > length own \<and> p \<notin> set out then out @ [p] else out) [] sibling_templates)"

definition tag_in_family_excluding_siblings :: "string \<Rightarrow> string \<Rightarrow> string option \<Rightarrow> string list \<Rightarrow> bool" where
  "tag_in_family_excluding_siblings tag tag_template monorepo_prefix sibling_templates =
     (if \<not> tag_in_family tag tag_template monorepo_prefix then False
      else \<not> list_ex (starts_with tag) (excluded_sibling_prefixes tag_template monorepo_prefix sibling_templates))"

definition default_per_crate_tag_prefix :: "string \<Rightarrow> string" where
  "default_per_crate_tag_prefix name = name @ ''-v''"

definition per_crate_tag_prefix :: "string \<Rightarrow> string \<Rightarrow> string" where
  "per_crate_tag_prefix name tag_template =
     (case extract_tag_prefix tag_template of Some p \<Rightarrow> p | None \<Rightarrow> default_per_crate_tag_prefix name)"

definition per_crate_tag_family_template :: "string \<Rightarrow> string" where
  "per_crate_tag_family_template name = default_per_crate_tag_prefix name @ ''{{ Version }}''"

definition crate_tag_family_template :: "string \<Rightarrow> string option \<Rightarrow> string" where
  "crate_tag_family_template name tag_template =
     (case tag_template of
        Some t \<Rightarrow> if t \<noteq> [] then t else per_crate_tag_family_template name
      | None \<Rightarrow> per_crate_tag_family_template name)"

text \<open>The crates of the universe, each with its name and \<open>tag_template\<close>.\<close>

definition sibling_tag_families_of :: "(string \<times> string option) list \<Rightarrow> string \<Rightarrow> string list" where
  "sibling_tag_families_of crates own_template =
     union_into [] (filter (\<lambda>tmpl. tmpl \<noteq> own_template) (map (\<lambda>(name, tmpl). crate_tag_family_template name tmpl) crates))"

datatype ignore_match_target = Stripped | Full

definition strip_in :: "tag_family_scope option \<Rightarrow> string \<Rightarrow> string" where
  "strip_in scope t = (case scope of Some s \<Rightarrow> scope_strip s t | None \<Rightarrow> t)"

definition tag_ignored :: "(string \<Rightarrow> bool) list \<Rightarrow> string list \<Rightarrow> bool \<Rightarrow> string \<Rightarrow> bool" where
  "tag_ignored globs pfxs skip_empty view \<longleftrightarrow>
     list_ex (\<lambda>g. g view) globs \<or> list_ex (\<lambda>p. (\<not> skip_empty \<or> p \<noteq> []) \<and> starts_with view p) pfxs"

definition semver_pairs_filtered ::
    "string \<Rightarrow> tag_family_scope option \<Rightarrow> (string \<Rightarrow> bool) list \<Rightarrow> string list \<Rightarrow> ignore_match_target \<Rightarrow> bool
      \<Rightarrow> (sem_ver \<times> string) list" where
  "semver_pairs_filtered tags_output scope globs pfxs target skip_empty =
     List.map_filter (\<lambda>t. map_option (\<lambda>v. (v, t)) (ok_opt (parse_semver_tag (strip_in scope t))))
       (filter (\<lambda>t. \<not> tag_ignored globs pfxs skip_empty (case target of Stripped \<Rightarrow> strip_in scope t | Full \<Rightarrow> t))
         (filter (\<lambda>t. case scope of Some s \<Rightarrow> scope_contains s t | None \<Rightarrow> True)
           (filter (\<lambda>t. \<not> is_nightly_tag t) (lines_str tags_output))))"

subsection \<open>Discovery\<close>

text \<open>\<open>str::split\<close> and \<open>str::replace\<close> for a pattern that is not empty.\<close>

function split_on :: "string \<Rightarrow> string \<Rightarrow> string list" where
  "split_on p s =
     (if p = [] then [s]
      else case find_sub s p of
             None \<Rightarrow> [s]
           | Some i \<Rightarrow> take i s # split_on p (drop (i + length p) s))"
  by auto

termination split_on
  by (relation "measure (\<lambda>(_, s). length s)") (use find_sub_drop_less in auto)

declare split_on.simps [simp del]

definition replace_str :: "string \<Rightarrow> string \<Rightarrow> string \<Rightarrow> string" where
  "replace_str s from to = join_with to (split_on from s)"

definition sentinel :: string where
  "sentinel = [CHR 0x00] @ ''VERSION_PLACEHOLDER'' @ [CHR 0x00]"

text \<open>
  The pattern built from a template: the literal pieces between the sentinels, each pair joined by
  \<open>\d+\.\d+\.\d+(?:-.+)?\<close>, anchored on both sides. \<open>version_rests\<close> lists what can be left after one
  match of that expression, \<open>.\<close> excluding a line feed.
\<close>

definition template_pieces :: "string \<Rightarrow> string list" where
  "template_pieces tag_template =
     split_on sentinel (foldl (\<lambda>tmp ph. replace_str tmp ph sentinel) tag_template version_placeholders)"

fun digits_rests :: "string \<Rightarrow> string list" where
  "digits_rests [] = []"
| "digits_rests (c # cs) = (if is_ascii_digit c then cs # digits_rests cs else [])"

definition dot_rests :: "string \<Rightarrow> string list" where
  "dot_rests s = (case expect CHR ''.'' s of Some r \<Rightarrow> [r] | None \<Rightarrow> [])"

fun any_rests :: "string \<Rightarrow> string list" where
  "any_rests [] = []"
| "any_rests (c # cs) = (if c = CHR 0x0A then [] else cs # any_rests cs)"

definition dash_rests :: "string \<Rightarrow> string list" where
  "dash_rests s = (case expect CHR ''-'' s of Some r \<Rightarrow> any_rests r | None \<Rightarrow> [])"

definition version_rests :: "string \<Rightarrow> string list" where
  "version_rests s =
     (let bs = List.maps digits_rests (List.maps dot_rests (List.maps digits_rests (List.maps dot_rests (digits_rests s))))
      in bs @ List.maps dash_rests bs)"

fun pieces_match :: "string list \<Rightarrow> string \<Rightarrow> bool" where
  "pieces_match [] s = False"
| "pieces_match [p] s = (s = p)"
| "pieces_match (p # q # ps) s =
     (case strip_prefix s p of
        None \<Rightarrow> False
      | Some r \<Rightarrow> list_ex (pieces_match (q # ps)) (version_rests r))"

definition effective_tag_sort :: "git_config option \<Rightarrow> string" where
  "effective_tag_sort git_config = (case Option.bind git_config tag_sort of Some t \<Rightarrow> t | None \<Rightarrow> ''-version:refname'')"

definition use_git_sort :: "git_config option \<Rightarrow> bool" where
  "use_git_sort git_config =
     (let mode = effective_tag_sort git_config
      in \<not> (mode = ''semver'' \<or> mode = ''smartsemver'')
         \<and> (mode = ''-version:creatordate'' \<or> Option.bind git_config prerelease_suffix \<noteq> None))"

definition list_args :: "git_config option \<Rightarrow> string list" where
  "list_args git_config =
     (if use_git_sort git_config
      then (case Option.bind git_config prerelease_suffix of
              Some sfx \<Rightarrow> [''-c'', ''versionsort.suffix='' @ sfx]
            | None \<Rightarrow> [])
           @ [''tag'', ''--sort'', effective_tag_sort git_config, ''--list'']
      else [''tag'', ''--list''])"

definition matching_tags ::
    "git_env \<Rightarrow> string \<Rightarrow> string \<Rightarrow> git_config option \<Rightarrow> renderer option \<Rightarrow> string option \<Rightarrow> (sem_ver \<times> string) list" where
  "matching_tags env tags_output tag_template git_config vars monorepo_prefix =
     (case render_ignore_patterns git_config vars of
        (pats, pfxs) \<Rightarrow>
          filter (\<lambda>(_, t). pieces_match (template_pieces tag_template)
              (case monorepo_prefix of
                 Some pfx \<Rightarrow> if \<not> starts_with tag_template pfx then strip_monorepo_prefix t pfx else t
               | None \<Rightarrow> t))
            (semver_pairs_filtered tags_output (map_option Prefix monorepo_prefix) (compile_globs env pats) pfxs Stripped False))"

definition by_version :: "sem_ver \<times> string \<Rightarrow> sem_ver \<times> string \<Rightarrow> ordering" where
  "by_version a b = semver_cmp (fst a) (fst b)"

definition by_version_desc :: "sem_ver \<times> string \<Rightarrow> sem_ver \<times> string \<Rightarrow> ordering" where
  "by_version_desc a b = semver_cmp (fst b) (fst a)"

definition find_latest_tag_matching_with_prefix_in ::
    "git_env \<Rightarrow> string \<Rightarrow> git_config option \<Rightarrow> renderer option \<Rightarrow> string option \<Rightarrow> (string, string option) result" where
  "find_latest_tag_matching_with_prefix_in env tag_template git_config vars monorepo_prefix =
     (case git_output env (list_args git_config) of
        Inl e \<Rightarrow> Inl e
      | Inr tags_output \<Rightarrow>
          if tags_output = [] then Inr None
          else let matching = matching_tags env tags_output tag_template git_config vars monorepo_prefix
               in if use_git_sort git_config
                  then Inr (case matching of (_, t) # _ \<Rightarrow> Some t | [] \<Rightarrow> None)
                  else let sorted = sort_by by_version matching
                       in Inr (if sorted = [] then None else Some (snd (last sorted))))"

definition find_latest_tag_matching_in ::
    "git_env \<Rightarrow> string \<Rightarrow> git_config option \<Rightarrow> renderer option \<Rightarrow> (string, string option) result" where
  "find_latest_tag_matching_in env tag_template git_config vars =
     find_latest_tag_matching_with_prefix_in env tag_template git_config vars None"

definition collect_semver_tags_in ::
    "git_env \<Rightarrow> string list \<Rightarrow> string \<Rightarrow> git_config option \<Rightarrow> renderer option \<Rightarrow> (string, string list) result" where
  "collect_semver_tags_in env git_args pfx git_config vars =
     (case git_output env git_args of
        Inl e \<Rightarrow> Inl e
      | Inr tags_output \<Rightarrow>
          if tags_output = [] then Inr []
          else case render_ignore_patterns git_config vars of
                 (pats, pfxs) \<Rightarrow>
                   Inr (map snd (sort_by by_version_desc
                     (List.map_filter (\<lambda>t. map_option (\<lambda>v. (v, t)) (ok_opt (parse_semver_tag t)))
                       (filter (\<lambda>t. \<not> tag_ignored (compile_globs env pats) pfxs True t)
                         (filter (\<lambda>t. starts_with t pfx)
                           (filter (\<lambda>t. \<not> is_nightly_tag t) (lines_str tags_output))))))))"

definition get_all_semver_tags_in ::
    "git_env \<Rightarrow> string \<Rightarrow> git_config option \<Rightarrow> renderer option \<Rightarrow> (string, string list) result" where
  "get_all_semver_tags_in env = collect_semver_tags_in env [''tag'', ''--list'']"

definition get_branch_semver_tags_in ::
    "git_env \<Rightarrow> string \<Rightarrow> git_config option \<Rightarrow> renderer option \<Rightarrow> (string, string list) result" where
  "get_branch_semver_tags_in env = collect_semver_tags_in env [''tag'', ''--merged'', ''HEAD'', ''--list'']"

text \<open>One line of \<open>git ls-remote --tags\<close>.\<close>

definition remote_tag_name :: "string \<Rightarrow> string option" where
  "remote_tag_name l =
     (case split_char CHR 0x09 l of
        _ # refname # _ \<Rightarrow>
          (case strip_prefix refname ''refs/tags/'' of
             None \<Rightarrow> None
           | Some tag \<Rightarrow> Some (case strip_suffix tag ''^{}'' of Some t \<Rightarrow> t | None \<Rightarrow> tag))
      | _ \<Rightarrow> None)"

definition list_remote_tag_names_in :: "git_env \<Rightarrow> string \<Rightarrow> (string, string list) result" where
  "list_remote_tag_names_in env remote =
     (case git_output env [''ls-remote'', ''--tags'', remote] of
        Inl e \<Rightarrow> Inl e
      | Inr out \<Rightarrow> Inr (union_into [] (List.map_filter remote_tag_name (lines_str out))))"

subsection \<open>The previous tag\<close>

definition nightly_exclude_globs :: "string list" where
  "nightly_exclude_globs =
     [''nightly'', ''*v[0-9]*[-.+]nightly'', ''*v[0-9]*[-.+]nightly[-.+]*'', ''[0-9]*[-.+]nightly'', ''[0-9]*[-.+]nightly[-.+]*'']"

definition nightly_exclude_describe_args :: "string list" where
  "nightly_exclude_describe_args = map (\<lambda>pat. ''--exclude='' @ pat) nightly_exclude_globs"

definition tag_commit_in :: "git_env \<Rightarrow> string \<Rightarrow> string option" where
  "tag_commit_in env tag = rev_parse env (tag @ ''^{commit}'')"

definition smartsemver_candidates ::
    "git_env \<Rightarrow> string \<Rightarrow> string \<Rightarrow> git_config option \<Rightarrow> renderer option \<Rightarrow> tag_family_scope option \<Rightarrow> string list
      \<Rightarrow> (sem_ver \<times> string) list" where
  "smartsemver_candidates env tags_output current_tag git_config vars scope excluded =
     (let skip_prereleases =
            (case parse_semver_tag (strip_in scope current_tag) of Inr sv \<Rightarrow> \<not> is_prerelease sv | Inl _ \<Rightarrow> False)
      in case render_ignore_patterns git_config vars of
           (pats, pfxs) \<Rightarrow>
             filter (\<lambda>(sv, _). \<not> skip_prereleases \<or> \<not> is_prerelease sv)
               (filter (\<lambda>(_, t). \<not> list_ex (starts_with t) excluded)
                 (filter (\<lambda>(_, t). t \<noteq> current_tag)
                   (semver_pairs_filtered tags_output scope (compile_globs env pats) pfxs Full True))))"

text \<open>The loop over the candidates: one on the commit of the current tag is only remembered.\<close>

fun pick_previous ::
    "(string \<Rightarrow> string option) \<Rightarrow> string option \<Rightarrow> string option \<Rightarrow> (sem_ver \<times> string) list \<Rightarrow> string option" where
  "pick_previous commit_of current_commit co_located [] = co_located"
| "pick_previous commit_of current_commit co_located ((_, tag) # rest) =
     (if current_commit \<noteq> None \<and> commit_of tag = current_commit
      then pick_previous commit_of current_commit (case co_located of Some c \<Rightarrow> Some c | None \<Rightarrow> Some tag) rest
      else Some tag)"

definition smartsemver_previous_tag_in ::
    "git_env \<Rightarrow> string \<Rightarrow> git_config option \<Rightarrow> renderer option \<Rightarrow> tag_family_scope option \<Rightarrow> string list
      \<Rightarrow> (string, string option) result" where
  "smartsemver_previous_tag_in env current_tag git_config vars scope excluded =
     (case git_output env [''tag'', ''--list''] of
        Inl e \<Rightarrow> Inl e
      | Inr tags_output \<Rightarrow>
          if tags_output = [] then Inr None
          else Inr (pick_previous (tag_commit_in env) (tag_commit_in env current_tag) None
                 (sort_by by_version_desc
                   (smartsemver_candidates env tags_output current_tag git_config vars scope excluded))))"

definition describe_args ::
    "string \<Rightarrow> git_config option \<Rightarrow> renderer option \<Rightarrow> tag_family_scope option \<Rightarrow> string list \<Rightarrow> string list" where
  "describe_args current_tag git_config vars scope excluded =
     (case render_ignore_patterns git_config vars of
        (pats, pfxs) \<Rightarrow>
          [''describe'', ''--tags'', ''--abbrev=0'']
          @ (case scope of Some s \<Rightarrow> [''--match='' @ describe_glob s] | None \<Rightarrow> [])
          @ map (\<lambda>t. ''--exclude='' @ t) pats
          @ map (\<lambda>p. ''--exclude='' @ p @ ''*'') pfxs
          @ map (\<lambda>p. ''--exclude='' @ p @ ''*'') excluded
          @ nightly_exclude_describe_args
          @ [current_tag @ ''^''])"

definition find_previous_tag_scoped_in ::
    "git_env \<Rightarrow> string \<Rightarrow> git_config option \<Rightarrow> renderer option \<Rightarrow> tag_family_scope option \<Rightarrow> string list
      \<Rightarrow> (string, string option) result" where
  "find_previous_tag_scoped_in env current_tag git_config vars scope excluded =
     (if Option.bind git_config tag_sort = Some ''smartsemver''
      then smartsemver_previous_tag_in env current_tag git_config vars scope excluded
      else case git_output env (describe_args current_tag git_config vars scope excluded) of
             Inr tag \<Rightarrow> Inr (if tag \<noteq> [] then Some tag else None)
           | Inl _ \<Rightarrow> Inr None)"

definition find_previous_tag_with_prefix_in ::
    "git_env \<Rightarrow> string \<Rightarrow> git_config option \<Rightarrow> renderer option \<Rightarrow> string option \<Rightarrow> (string, string option) result" where
  "find_previous_tag_with_prefix_in env current_tag git_config vars monorepo_prefix =
     find_previous_tag_scoped_in env current_tag git_config vars (map_option Prefix monorepo_prefix) []"

definition find_previous_tag_in_family_in ::
    "git_env \<Rightarrow> string \<Rightarrow> string \<Rightarrow> git_config option \<Rightarrow> renderer option \<Rightarrow> string option \<Rightarrow> string list
      \<Rightarrow> (string, string option) result" where
  "find_previous_tag_in_family_in env current_tag tag_template git_config vars monorepo_prefix sibling_templates =
     find_previous_tag_scoped_in env current_tag git_config vars (family_scope tag_template monorepo_prefix)
       (excluded_sibling_prefixes tag_template monorepo_prefix sibling_templates)"

section \<open>Properties\<close>

subsection \<open>Nightly tags\<close>

text \<open>A delimited occurrence of the marker.\<close>

definition marked_at :: "char option \<Rightarrow> string \<Rightarrow> string \<Rightarrow> bool" where
  "marked_at before pre post \<longleftrightarrow>
     (case (if pre = [] then before else Some (last pre)) of Some c \<Rightarrow> is_delim c | None \<Rightarrow> False)
     \<and> (case post of c # _ \<Rightarrow> is_delim c | [] \<Rightarrow> True)"

lemma nightly_occurrence_later:
  assumes "find_sub s ''nightly'' = Some pos" "s = pre @ ''nightly'' @ post" "length pre \<noteq> pos"
  shows "\<exists>pre'. pre = take pos s @ ''nightly'' @ pre' \<and> drop (pos + 7) s = pre' @ ''nightly'' @ post"
proof -
  obtain r where r: "s = take pos s @ ''nightly'' @ r" "pos \<le> length s" using find_sub_Some [OF assms(1)] by blast
  have "\<not> length pre < pos" using find_sub_first [OF assms(1), of "length pre"] assms(2) by auto
  with assms(3) have gt: "pos < length pre" by simp
  have "\<not> length pre < pos + 7"
  proof
    assume "length pre < pos + 7"
    with gt obtain k where k: "length pre = pos + k" "0 < k" "k < 7" by (metis add_diff_inverse_nat less_imp_not_less nat_add_left_cancel_less zero_less_diff)
    have "s ! length pre = CHR ''n''" using assms(2) by (simp add: nth_append)
    moreover have "s ! length pre = (''nightly'' @ r) ! k"
      using r(2) by (subst r(1)) (simp only: k(1) nth_append length_take min_absorb2 not_less_iff_gr_or_eq, simp)
    moreover have "k \<in> {1, 2, 3, 4, 5, 6}" using k by auto
    ultimately show False by auto
  qed
  then have le: "pos + 7 \<le> length pre" by simp
  have "drop pos s = ''nightly'' @ r" using r by (metis append_eq_conv_conj length_take min_absorb2)
  then have "take (pos + 7) s = take pos s @ ''nightly''" by (simp add: take_add)
  moreover have "take (pos + 7) s = take (pos + 7) pre" using le assms(2) by simp
  ultimately have "pre = take pos s @ ''nightly'' @ drop (pos + 7) pre" by (metis append_assoc append_take_drop_id)
  moreover have "drop (pos + 7) s = drop (pos + 7) pre @ ''nightly'' @ post" using le assms(2) by simp
  ultimately show ?thesis by blast
qed

lemma nightly_scan_iff:
  "nightly_scan before s \<longleftrightarrow> (\<exists>pre post. s = pre @ ''nightly'' @ post \<and> marked_at before pre post)"
proof (induction before s rule: nightly_scan.induct)
  case (1 before s)
  show ?case
  proof (cases "find_sub s ''nightly''")
    case None
    then have "\<nexists>pre post. s = pre @ ''nightly'' @ post" by (auto simp: find_sub_None contains_def sublist_def)
    with None show ?thesis by (auto simp: nightly_scan.simps [of before s])
  next
    case (Some pos)
    obtain r where r: "s = take pos s @ ''nightly'' @ r" "pos \<le> length s" using find_sub_Some [OF Some] by blast
    have rest: "drop (pos + 7) s = r" using r(2) by (subst r(1)) (simp add: min_absorb2)
    have pre: "(if pos = 0 then before else Some (s ! (pos - 1))) = (if take pos s = [] then before else Some (last (take pos s)))"
      using r by (cases "pos = 0") (auto simp: last_conv_nth min_absorb2 simp del: r(1)[symmetric])
    show ?thesis
    proof (cases "marked_at before (take pos s) r")
      case True
      then have "nightly_scan before s" using Some rest pre by (simp add: nightly_scan.simps [of before s] marked_at_def)
      with True r(1) show ?thesis by metis
    next
      case False
      have IH: "nightly_scan (Some CHR ''y'') r \<longleftrightarrow> (\<exists>pre post. r = pre @ ''nightly'' @ post \<and> marked_at (Some CHR ''y'') pre post)"
        using 1 [OF Some refl refl refl] False rest pre by (auto simp: marked_at_def)
      have step: "nightly_scan before s = nightly_scan (Some CHR ''y'') r"
        using Some rest pre False by (simp only: nightly_scan.simps [of before s] marked_at_def option.case Let_def if_False)
      have last_y: "marked_at before (take pos s @ ''nightly'' @ pre) post = marked_at (Some CHR ''y'') pre post" for pre post
        by (simp add: marked_at_def)
      show ?thesis unfolding step IH
      proof safe
        fix pre post
        assume "r = pre @ ''nightly'' @ post" "marked_at (Some CHR ''y'') pre post"
        with r(1) last_y show "\<exists>pre post. s = pre @ ''nightly'' @ post \<and> marked_at before pre post" by (metis append_assoc)
      next
        fix pre post
        assume o: "s = pre @ ''nightly'' @ post" "marked_at before pre post"
        have "length pre \<noteq> pos"
        proof
          assume "length pre = pos"
          then have "pre = take pos s" "post = r" using o(1) rest by auto
          with o(2) False show False by simp
        qed
        from nightly_occurrence_later [OF Some o(1) this] rest last_y o(2)
        show "\<exists>pre post. r = pre @ ''nightly'' @ post \<and> marked_at (Some CHR ''y'') pre post" by metis
      qed
    qed
  qed
qed

subsection \<open>Candidates\<close>

interpretation version_order: rust_ord by_version
  unfolding by_version_def [abs_def] by (rule rust_ord_on) (rule semver_cmp_rust_ord)

interpretation version_order_desc: rust_ord by_version_desc
  unfolding by_version_desc_def [abs_def] by (rule rust_ord_flip) (rule rust_ord_on, rule semver_cmp_rust_ord)

lemma set_map_filter_iff: "y \<in> set (List.map_filter f xs) \<longleftrightarrow> (\<exists>x \<in> set xs. f x = Some y)"
  by (force simp: List.map_filter_def)

lemma ok_opt_Some [simp]: "ok_opt r = Some v \<longleftrightarrow> r = Inr v"
  by (cases r) (simp_all add: ok_opt_def)

text \<open>What every list of tags requires of its members.\<close>

definition release_tag_of :: "string \<Rightarrow> tag_family_scope option \<Rightarrow> string \<Rightarrow> sem_ver \<Rightarrow> bool" where
  "release_tag_of tags_output scope t v \<longleftrightarrow>
     t \<in> set (lines_str tags_output) \<and> \<not> is_nightly_tag t
     \<and> (case scope of Some s \<Rightarrow> scope_contains s t | None \<Rightarrow> True)
     \<and> parse_semver_tag (strip_in scope t) = Inr v"

lemma semver_pairs_filtered_iff:
  "(v, t) \<in> set (semver_pairs_filtered out scope globs pfxs target skip_empty) \<longleftrightarrow>
   release_tag_of out scope t v
   \<and> \<not> tag_ignored globs pfxs skip_empty (case target of Stripped \<Rightarrow> strip_in scope t | Full \<Rightarrow> t)"
  by (auto simp: semver_pairs_filtered_def set_map_filter_iff release_tag_of_def)

lemma sorted_desc_head:
  assumes "sort_by by_version_desc xs = (v, t) # rest" "(w, u) \<in> set xs"
  shows "semver_cmp w v \<noteq> Greater"
proof -
  have "(w, u) \<in> set ((v, t) # rest)" using assms by (metis set_sort_by)
  then have "by_version_desc (v, t) (w, u) \<noteq> Greater"
    using version_order_desc.sorted_sort_by [of xs] version_order_desc.refl assms(1) by auto
  then show ?thesis by (simp add: by_version_desc_def)
qed

text \<open>
  The latest tag: when the versions are compared by the program itself, the answer is one of the template's
  release tags and no other of them has a higher version; there is no answer exactly when there is no such tag.
\<close>
theorem latest_tag_is_highest:
  assumes "\<not> use_git_sort git_config" and "git_output env (list_args git_config) = Inr out"
  shows "case find_latest_tag_matching_with_prefix_in env template git_config vars monorepo of
       Inl _ \<Rightarrow> False
     | Inr None \<Rightarrow> set (matching_tags env out template git_config vars monorepo) = {}
     | Inr (Some t) \<Rightarrow>
         \<exists>v. (v, t) \<in> set (matching_tags env out template git_config vars monorepo)
           \<and> release_tag_of out (map_option Prefix monorepo) t v
           \<and> (\<forall>(w, u) \<in> set (matching_tags env out template git_config vars monorepo). semver_cmp w v \<noteq> Greater)"
proof (cases "matching_tags env out template git_config vars monorepo = []")
  case True
  with assms show ?thesis by (auto simp: find_latest_tag_matching_with_prefix_in_def Let_def)
next
  case False
  let ?M = "matching_tags env out template git_config vars monorepo"
  obtain v t where l: "last (sort_by by_version ?M) = (v, t)" by (cases "last (sort_by by_version ?M)")
  have "out \<noteq> []" using False
    by (auto simp: matching_tags_def semver_pairs_filtered_def lines_str_def List.map_filter_def split: prod.splits)
  then have r: "find_latest_tag_matching_with_prefix_in env template git_config vars monorepo = Inr (Some t)"
    using assms False l by (simp add: find_latest_tag_matching_with_prefix_in_def Let_def)
  have mem: "(v, t) \<in> set ?M" using False l by (metis last_in_set set_sort_by sort_by_eq_Nil)
  then have "release_tag_of out (map_option Prefix monorepo) t v"
    by (auto simp: matching_tags_def semver_pairs_filtered_iff split: prod.splits)
  moreover have "semver_cmp w v \<noteq> Greater" if "(w, u) \<in> set ?M" for w u
    using version_order.sort_by_last_max [OF that] l by (simp add: by_version_def)
  ultimately show ?thesis using mem by (auto simp: r)
qed

lemma pick_previous_cases:
  "pick_previous commit_of current co cands =
     (case List.find (\<lambda>(_, t). \<not> (current \<noteq> None \<and> commit_of t = current)) cands of
        Some (_, t) \<Rightarrow> Some t
      | None \<Rightarrow> (case co of Some c \<Rightarrow> Some c | None \<Rightarrow> (case cands of (_, t) # _ \<Rightarrow> Some t | [] \<Rightarrow> None)))"
proof (induction commit_of current co cands rule: pick_previous.induct)
  case (1 commit_of current co)
  then show ?case by (simp split: option.split)
next
  case (2 commit_of current co v t rest)
  then show ?case by (auto split: option.splits)
qed

text \<open>What the look-back accepts.\<close>

definition previous_candidate ::
    "git_env \<Rightarrow> string \<Rightarrow> string \<Rightarrow> git_config option \<Rightarrow> renderer option \<Rightarrow> tag_family_scope option \<Rightarrow> string list
      \<Rightarrow> string \<Rightarrow> sem_ver \<Rightarrow> bool" where
  "previous_candidate env out current_tag git_config vars scope excluded t v \<longleftrightarrow>
     release_tag_of out scope t v \<and> t \<noteq> current_tag
     \<and> (\<forall>p \<in> set excluded. \<not> starts_with t p)
     \<and> \<not> tag_ignored (compile_globs env (fst (render_ignore_patterns git_config vars)))
           (snd (render_ignore_patterns git_config vars)) True t
     \<and> (\<forall>sv. parse_semver_tag (strip_in scope current_tag) = Inr sv \<longrightarrow> \<not> is_prerelease sv \<longrightarrow> \<not> is_prerelease v)"

lemma smartsemver_candidates_iff:
  "(v, t) \<in> set (smartsemver_candidates env out current git_config vars scope excluded) \<longleftrightarrow>
   previous_candidate env out current git_config vars scope excluded t v"
  by (auto simp: smartsemver_candidates_def previous_candidate_def semver_pairs_filtered_iff list_ex_iff Let_def case_prod_beta
      split: sum.splits)

definition same_commit :: "git_env \<Rightarrow> string \<Rightarrow> string \<Rightarrow> bool" where
  "same_commit env current_tag t \<longleftrightarrow> tag_commit_in env current_tag \<noteq> None \<and> tag_commit_in env t = tag_commit_in env current_tag"

text \<open>
  C24. The previous tag under \<open>smartsemver\<close>: the answer is a release tag of the family other than the current one, outside every
  excluded narrower family, not ignored, and stable if the current tag is. If its commit is not the current
  tag's, it is the highest such candidate; a tag on the current commit is answered only when every candidate is on it,
  and no tag only when there is no candidate.
\<close>
theorem previous_tag_bounds_range:
  assumes "Option.bind git_config tag_sort = Some ''smartsemver''" and "git_output env [''tag'', ''--list''] = Inr out"
  shows "case find_previous_tag_scoped_in env current git_config vars scope excluded of
       Inl _ \<Rightarrow> False
     | Inr None \<Rightarrow> \<forall>t v. \<not> previous_candidate env out current git_config vars scope excluded t v
     | Inr (Some t) \<Rightarrow>
         \<exists>v. previous_candidate env out current git_config vars scope excluded t v
           \<and> (\<forall>u w. previous_candidate env out current git_config vars scope excluded u w \<longrightarrow>
                (if same_commit env current t then same_commit env current u \<and> semver_cmp w v \<noteq> Greater
                 else same_commit env current u \<or> semver_cmp w v \<noteq> Greater))"
proof -
  let ?C = "smartsemver_candidates env out current git_config vars scope excluded"
  let ?S = "sort_by by_version_desc ?C"
  let ?P = "\<lambda>(_ :: sem_ver, t). \<not> same_commit env current t"
  have iff: "previous_candidate env out current git_config vars scope excluded t v \<longleftrightarrow> (v, t) \<in> set ?S" for t v
    by (simp add: smartsemver_candidates_iff)
  have nil: "?C = []" if "out = []"
    using that by (auto simp: smartsemver_candidates_def semver_pairs_filtered_def lines_str_def List.map_filter_def
        Let_def case_prod_beta)
  have res: "find_previous_tag_scoped_in env current git_config vars scope excluded =
      Inr (case List.find ?P ?S of Some (_, t) \<Rightarrow> Some t | None \<Rightarrow> (case ?S of (_, t) # _ \<Rightarrow> Some t | [] \<Rightarrow> None))"
    using assms nil
    by (auto simp: find_previous_tag_scoped_in_def smartsemver_previous_tag_in_def pick_previous_cases same_commit_def
        case_prod_beta split: option.split)
  show ?thesis
  proof (cases "List.find ?P ?S")
    case None
    then have all: "same_commit env current u" if "(w, u) \<in> set ?S" for w u using that by (auto simp: find_None_iff)
    show ?thesis
    proof (cases ?S)
      case Nil
      then show ?thesis unfolding res None by (auto simp: iff)
    next
      case (Cons x rest)
      obtain v t where x: "x = (v, t)" by (cases x)
      have "(v, t) \<in> set ?S" unfolding Cons x by simp
      moreover have "semver_cmp w v \<noteq> Greater" if "(w, u) \<in> set ?S" for w u
        using sorted_desc_head [OF Cons [unfolded x]] that by simp
      ultimately show ?thesis unfolding res None using all
        by (simp only: Cons x iff option.case list.case prod.case sum.case) (intro exI [of _ v], auto)
    qed
  next
    case (Some x)
    obtain v t where x: "x = (v, t)" by (cases x)
    from Some x obtain i where i: "i < length ?S" "?S ! i = (v, t)" "\<not> same_commit env current t"
      "\<forall>j < i. \<not> ?P (?S ! j)" by (auto simp: find_Some_iff)
    have mem: "(v, t) \<in> set ?S" using i(1,2) nth_mem by metis
    have "semver_cmp w v \<noteq> Greater" if u: "(w, u) \<in> set ?S" "\<not> same_commit env current u" for w u
    proof -
      obtain j where j: "j < length ?S" "?S ! j = (w, u)" using u(1) by (metis in_set_conv_nth)
      have "\<not> j < i" using i(4) j(2) u(2) by auto
      then have "by_version_desc (v, t) (w, u) \<noteq> Greater"
      proof (cases "i = j")
        case True
        then show ?thesis using i(2) j(2) version_order_desc.refl by simp
      next
        case False
        with \<open>\<not> j < i\<close> have "i < j" by simp
        then show ?thesis
          using version_order_desc.sorted_sort_by [of ?C] i(2) j unfolding sorted_wrt_iff_nth_less by metis
      qed
      then show ?thesis by (simp add: by_version_desc_def)
    qed
    then show ?thesis unfolding res Some x using mem i(3) by (auto simp: iff)
  qed
qed

text \<open>A backport is preceded by the newest tag, not by the one below it.\<close>

definition demo_env :: "string list \<Rightarrow> git_env" where
  "demo_env tags = \<lparr>git_output = (\<lambda>_. Inr (join_with [CHR 0x0A] tags)), rev_parse = (\<lambda>_. None), glob_of = (\<lambda>_. None)\<rparr>"

definition smart_config :: git_config where
  "smart_config = \<lparr>tag_sort = Some ''smartsemver'', ignore_tags = None, ignore_tag_prefixes = None, prerelease_suffix = None\<rparr>"

subsection \<open>Families divide the tags\<close>

lemma set_excluded_sibling_prefixes:
  "set (excluded_sibling_prefixes template mp sibs) =
     {p. \<exists>sib \<in> set sibs. tag_family_prefix sib mp = Some p
           \<and> length p > length (case tag_family_prefix template mp of Some p \<Rightarrow> p | None \<Rightarrow> [])}"
proof -
  have "set (foldl (\<lambda>out sib. case f sib of None \<Rightarrow> out | Some p \<Rightarrow> if P p \<and> p \<notin> set out then out @ [p] else out) out sibs)
      = set out \<union> {p. \<exists>sib \<in> set sibs. f sib = Some p \<and> P p}" for f and P :: "string \<Rightarrow> bool" and out
    by (induction sibs arbitrary: out) (auto split: option.splits if_splits)
  from this [where f = "\<lambda>sib. tag_family_prefix sib mp" and out = "[]"] show ?thesis
    by (simp add: excluded_sibling_prefixes_def Let_def)
qed

lemma family_prefix_of_member:
  "tag_in_family tag t mp \<Longrightarrow> \<exists>p. tag_family_prefix t mp = Some p \<and> starts_with tag p"
  by (auto simp: tag_in_family_def tag_family_prefix_def scope_contains_def split: option.splits tag_family_scope.splits)

lemma member_by_prefix:
  "tag_family_prefix t mp = Some p \<Longrightarrow> p \<noteq> [] \<Longrightarrow> starts_with tag p \<Longrightarrow> tag_in_family tag t mp"
  by (cases "family_scope t mp"; cases "the (family_scope t mp)")
    (auto simp: tag_in_family_def tag_family_prefix_def scope_contains_def)

definition family_templates :: "(string \<times> string option) list \<Rightarrow> string set" where
  "family_templates crates = (\<lambda>(name, tmpl). crate_tag_family_template name tmpl) ` set crates"

lemma excluded_by_longer:
  assumes "sib \<in> family_templates crates" "tag_family_prefix sib mp = Some q" "tag_family_prefix t mp = Some p"
    "length p < length q"
  shows "q \<in> set (excluded_sibling_prefixes t mp (sibling_tag_families_of crates t))"
proof -
  have "sib \<noteq> t" using assms by auto
  with assms show ?thesis
    by (auto simp: set_excluded_sibling_prefixes sibling_tag_families_of_def family_templates_def case_prod_beta)
qed

text \<open>
  C23. The configured families divide the tags: a tag that belongs to some family belongs, once narrower siblings are
  excluded, to the families of exactly one prefix.
\<close>
theorem tag_families_partition:
  "(\<exists>t \<in> family_templates crates. tag_in_family tag t mp) \<longleftrightarrow>
   (\<exists>!p. \<exists>t \<in> family_templates crates. tag_family_prefix t mp = Some p
        \<and> tag_in_family_excluding_siblings tag t mp (sibling_tag_families_of crates t))"
proof -
  let ?mine = "\<lambda>t. tag_in_family_excluding_siblings tag t mp (sibling_tag_families_of crates t)"
  have not_longer: "\<not> length p < length q"
    if "?mine t" "t \<in> family_templates crates" "tag_family_prefix t mp = Some p"
      "sib \<in> family_templates crates" "tag_family_prefix sib mp = Some q" "starts_with tag q" for t p sib q
    using excluded_by_longer [OF that(4,5,3)] that(1,6)
    by (auto simp: tag_in_family_excluding_siblings_def list_ex_iff split: if_splits)
  have unique: "p = q"
    if "?mine t" "t \<in> family_templates crates" "tag_family_prefix t mp = Some p"
      "?mine sib" "sib \<in> family_templates crates" "tag_family_prefix sib mp = Some q" for t p sib q
  proof -
    have s: "starts_with tag p" "starts_with tag q"
      using that family_prefix_of_member [of tag t mp] family_prefix_of_member [of tag sib mp]
      by (auto simp: tag_in_family_excluding_siblings_def split: if_splits)
    then have "length p = length q" using not_longer that by (metis linorder_neqE_nat)
    with s show ?thesis by (auto elim!: starts_withE simp: append_eq_append_conv)
  qed
  have exists: "\<exists>t \<in> family_templates crates. \<exists>p. tag_family_prefix t mp = Some p \<and> ?mine t"
    if "\<exists>t \<in> family_templates crates. tag_in_family tag t mp"
  proof -
    let ?len = "\<lambda>t. length (the (tag_family_prefix t mp))"
    let ?F = "{t \<in> family_templates crates. tag_in_family tag t mp}"
    have fin: "finite ?F" "?F \<noteq> {}" using that by (auto simp: family_templates_def)
    obtain t where "t \<in> ?F" "Max (?len ` ?F) = ?len t" using fin by (rule obtains_MAX)
    then have t: "t \<in> ?F" "\<And>u. u \<in> ?F \<Longrightarrow> ?len u \<le> ?len t"
      using fin(1) by (metis (no_types, lifting) Max_ge finite_imageI imageI)+
    obtain p where p: "tag_family_prefix t mp = Some p" using t(1) family_prefix_of_member by blast
    have "\<not> starts_with tag q" if q: "q \<in> set (excluded_sibling_prefixes t mp (sibling_tag_families_of crates t))" for q
    proof
      assume "starts_with tag q"
      from q obtain sib where sib: "sib \<in> family_templates crates" "tag_family_prefix sib mp = Some q" "length p < length q"
        by (auto simp: set_excluded_sibling_prefixes sibling_tag_families_of_def family_templates_def p case_prod_beta)
      then have "q \<noteq> []" by auto
      then have "sib \<in> ?F" using member_by_prefix [OF sib(2) _ \<open>starts_with tag q\<close>] sib(1) by simp
      from t(2) [OF this] sib p show False by simp
    qed
    then have "?mine t" using t(1) by (simp add: tag_in_family_excluding_siblings_def list_ex_iff)
    with t(1) p show ?thesis by blast
  qed
  have "\<exists>t \<in> family_templates crates. tag_in_family tag t mp" if "?mine t" "t \<in> family_templates crates" for t
    using that by (auto simp: tag_in_family_excluding_siblings_def split: if_splits)
  with exists unique show ?thesis by (metis (no_types, lifting))
qed

subsection \<open>Witnesses\<close>

theorem latest_tag_is_highest_witness:
  "\<not> use_git_sort None \<and> git_output (demo_env [''v1.2.0'', ''v1.10.0'']) (list_args None) = Inr (''v1.2.0'' @ CHR 0x0A # ''v1.10.0'')
   \<and> is_ok (find_latest_tag_matching_with_prefix_in (demo_env [''v1.2.0'', ''v1.10.0'']) ''v{{ Version }}'' None None None)"
proof -
  have a: "\<not> use_git_sort None" by (simp add: use_git_sort_def effective_tag_sort_def)
  have b: "git_output (demo_env [''v1.2.0'', ''v1.10.0'']) (list_args None) = Inr (''v1.2.0'' @ CHR 0x0A # ''v1.10.0'')"
    by (simp add: demo_env_def)
  show ?thesis using latest_tag_is_highest [OF a b, of "''v{{ Version }}''" None None] a b
    by (auto simp: is_ok_def split: sum.splits)
qed

theorem previous_tag_bounds_range_witness:
  "Option.bind (Some smart_config) tag_sort = Some ''smartsemver''
   \<and> git_output (demo_env [''v1.0.0'', ''v1.1.0'']) [''tag'', ''--list''] = Inr (''v1.0.0'' @ CHR 0x0A # ''v1.1.0'')
   \<and> is_ok (find_previous_tag_scoped_in (demo_env [''v1.0.0'', ''v1.1.0'']) ''v1.1.0'' (Some smart_config) None (Some (Prefix ''v'')) [])"
proof -
  have a: "Option.bind (Some smart_config) tag_sort = Some ''smartsemver''" by (simp add: smart_config_def)
  have b: "git_output (demo_env [''v1.0.0'', ''v1.1.0'']) [''tag'', ''--list''] = Inr (''v1.0.0'' @ CHR 0x0A # ''v1.1.0'')"
    by (simp add: demo_env_def)
  show ?thesis using previous_tag_bounds_range [OF a b, of "''v1.1.0''" None "Some (Prefix ''v'')" "[]"] a b
    by (auto simp: is_ok_def split: sum.splits)
qed

lemma backport_preceded_by_newer:
  "find_previous_tag_in_family_in (demo_env [''v1.0.0'', ''v2.0.0'']) ''v1.0.1'' ''v{{ Version }}'' (Some smart_config) None None []
   = Inr (Some ''v2.0.0'')"
proof -
  have lines: "lines_str (''v1.0.0'' @ CHR 0x0A # ''v2.0.0'') = [''v1.0.0'', ''v2.0.0'']"
    by (simp add: lines_str_def strip_cr_def strip_suffix_def suffix_def)
  have stable: "\<not> is_nightly_tag ''v1.0.0''" "\<not> is_nightly_tag ''v2.0.0''"
    by (simp_all add: is_nightly_tag_def nightly_scan.simps)
  have versions:
    "parse_semver_tag ''1.0.0'' = Inr \<lparr>major = 1, minor = 0, patch = 0, prerelease = None, build_metadata = None\<rparr>"
    "parse_semver_tag ''2.0.0'' = Inr \<lparr>major = 2, minor = 0, patch = 0, prerelease = None, build_metadata = None\<rparr>"
    "parse_semver_tag ''1.0.1'' = Inr \<lparr>major = 1, minor = 0, patch = 1, prerelease = None, build_metadata = None\<rparr>"
    by (simp_all add: semver_eval)
  have scope: "family_scope ''v{{ Version }}'' None = Some (Prefix ''v'')"
    by (simp add: family_scope_def tag_prefix_slice_def version_placeholders_def compose_prefix_def)
  have cands: "smartsemver_candidates (demo_env [''v1.0.0'', ''v2.0.0'']) (''v1.0.0'' @ CHR 0x0A # ''v2.0.0'') ''v1.0.1'' (Some smart_config) None (Some (Prefix ''v'')) []
      = [(\<lparr>major = 1, minor = 0, patch = 0, prerelease = None, build_metadata = None\<rparr>, ''v1.0.0''),
         (\<lparr>major = 2, minor = 0, patch = 0, prerelease = None, build_metadata = None\<rparr>, ''v2.0.0'')]"
    by (simp only: smartsemver_candidates_def semver_pairs_filtered_def lines render_ignore_patterns_def)
      (simp add: stable versions smart_config_def scope_contains_def strip_in_def scope_strip_def strip_monorepo_prefix_def strip_prefix_def
        starts_with_def tag_ignored_def compile_globs_def List.map_filter_def ok_opt_def is_prerelease_def)
  have "sort_by by_version_desc (smartsemver_candidates (demo_env [''v1.0.0'', ''v2.0.0'']) (''v1.0.0'' @ CHR 0x0A # ''v2.0.0'') ''v1.0.1'' (Some smart_config) None (Some (Prefix ''v'')) [])
      = [(\<lparr>major = 2, minor = 0, patch = 0, prerelease = None, build_metadata = None\<rparr>, ''v2.0.0''),
         (\<lparr>major = 1, minor = 0, patch = 0, prerelease = None, build_metadata = None\<rparr>, ''v1.0.0'')]"
    unfolding cands by (simp add: by_version_desc_def semver_cmp_def cmp_of_def)
  then show ?thesis
    by (simp add: find_previous_tag_in_family_in_def find_previous_tag_scoped_in_def smartsemver_previous_tag_in_def scope
      excluded_sibling_prefixes_def smart_config_def demo_env_def tag_commit_in_def)
qed

end
