(* ===== verification/CrateGraph.thy ===== *)
theory CrateGraph
  imports Prelude "HOL-Library.Monad_Syntax"
begin

section \<open>The crate graph and the publish order\<close>

text \<open>
  Models the functions that follow \<open>depends_on\<close>: \<open>topological_sort\<close> (\<open>core/src/util.rs\<close>), the crate
  universe (\<open>core/src/config/accessors.rs\<close>), the expansion of a selection to its dependencies and the cargo
  publish plan (\<open>stage-publish/src/cargo/\{workspace_deps,plan\}.rs\<close>), the propagation of changes to dependents
  (\<open>cli/src/commands/release/crate_select.rs\<close>), and the \<open>skip:\<close> and \<open>if:\<close> conditions
  (\<open>core/src/config/string_or_bool.rs\<close>) the plan evaluates.

  A hash map is a partial function, a hash set a set. \<open>topological_sort\<close> counts unresolved dependencies in a
  \<open>usize\<close>; decrementing a count of zero panics in a build with overflow checks, and that is the value \<open>None\<close> here.
  Rendering a template, finding a stale typed comparison in one, reading a manifest's dependencies and reading its
  version are parameters.

  Main results: the sort returns every name once, dependencies first whenever the graph has no cycle; the plan refuses
  exactly the cyclic graphs, so a plan that is returned publishes no crate before one it depends on; a selection
  is expanded to exactly what it reaches; a change reaches exactly its dependents.
\<close>

subsection \<open>Topological sort\<close>

type_synonym graph = "(string \<times> string list) list"

definition graph_names :: "graph \<Rightarrow> string set" where
  "graph_names items = fst ` set items"

definition in_degrees :: "graph \<Rightarrow> string \<rightharpoonup> nat" where
  "in_degrees items =
     fold (\<lambda>(n, deps) m. m(n \<mapsto> length (filter (\<lambda>d. d \<in> graph_names items) deps))) items Map.empty"

text \<open>\<open>edges\<close>: for each dependency the list of its dependents, in input order.\<close>

definition dependents :: "graph \<Rightarrow> string \<Rightarrow> string list" where
  "dependents items d =
     concat (map (\<lambda>(n, deps). map (\<lambda>_. n) (filter (\<lambda>dep. dep \<in> graph_names items \<and> dep = d) deps)) items)"

text \<open>One pass over the dependents of a finished node: lower their counts, collect those that reach zero.\<close>

fun release_dependents :: "string list \<Rightarrow> (string \<rightharpoonup> nat) \<Rightarrow> ((string \<rightharpoonup> nat) \<times> string list) option" where
  "release_dependents [] deg = Some (deg, [])"
| "release_dependents (n # ns) deg =
     (case deg n of
        None \<Rightarrow> release_dependents ns deg
      | Some 0 \<Rightarrow> None
      | Some (Suc k) \<Rightarrow>
          do { (deg', ready) \<leftarrow> release_dependents ns (deg(n \<mapsto> k));
               Some (deg', if k = 0 then n # ready else ready) })"

definition sort_names :: "string list \<Rightarrow> string list" where
  "sort_names = sort_by cmp_of"

text \<open>
  The work left: entries in the queue and counts to be lowered. It bounds the turns of the loop, and
  is the fuel \<open>topological_sort\<close> starts it with.
\<close>

fun kahn :: "nat \<Rightarrow> graph \<Rightarrow> string list \<Rightarrow> (string \<rightharpoonup> nat) \<Rightarrow> string list \<Rightarrow> string list option" where
  "kahn fuel items [] deg result = Some result"
| "kahn 0 items (node # queue) deg result = None"
| "kahn (Suc fuel) items (node # queue) deg result =
     do { (deg', ready) \<leftarrow> release_dependents (dependents items node) deg;
          kahn fuel items (queue @ sort_names ready) deg' (result @ [node]) }"

definition seed_queue :: "graph \<Rightarrow> string list" where
  "seed_queue items = sort_names (filter (\<lambda>n. in_degrees items n = Some 0) (remdups (map fst items)))"

definition topological_sort :: "graph \<Rightarrow> string list option" where
  "topological_sort items =
     do { result \<leftarrow> kahn (length items + length (concat (map snd items))) items (seed_queue items) (in_degrees items) [];
          Some (if length result < length items
                then result @ map fst (filter (\<lambda>(n, _). n \<notin> set result) items)
                else result) }"


subsection \<open>Crates\<close>

datatype string_or_bool = BoolV bool | StringV string

record cargo_publish_config =
  cargo_skip :: "string_or_bool option"
  if_condition :: "string option"
  cargo_registry :: "string option"
  cargo_index :: "string option"

record chocolatey_config =
  choco_name :: "string option"
  choco_source_repo :: "string option"

record pull_request_base =
  base_owner :: "string option"
  base_name :: "string option"

record pull_request_config =
  pr_base :: "pull_request_base option"

record repository_config =
  repo_owner :: "string option"
  repo_name :: "string option"
  repo_pull_request :: "pull_request_config option"

record winget_config =
  wg_name :: "string option"
  wg_publisher :: "string option"
  wg_package_identifier :: "string option"
  wg_repository :: "repository_config option"
  wg_commit_msg_template :: "string option"

record publish_config =
  cargo :: "cargo_publish_config option"
  chocolatey :: "chocolatey_config option"
  winget :: "winget_config option"

datatype builder_kind = CargoBuilder | Prebuilt

record build_ignore =
  ig_os :: string
  ig_arch :: string

record build_config =
  build_id :: "string option"
  build_binary :: "string option"
  builder :: "builder_kind option"
  build_targets :: "string list option"
  build_skip :: "string_or_bool option"
  build_ignores :: "build_ignore list option"

record crate_config =
  crate_name :: string
  crate_path :: string
  depends_on :: "string list option"
  publish_cfg :: "publish_config option"
  builds :: "build_config list option"
  crate_tag_template :: "string option"

record workspace_config =
  ws_name :: string
  ws_crates :: "crate_config list"

text \<open>
  \<open>crate_universe_walk\<close>: the top-level crates, then each workspace crate whose name is not taken yet; a
  name taken by an entry with another path is warned about.
\<close>

definition shadow_warning :: "string \<Rightarrow> crate_config \<Rightarrow> crate_config \<Rightarrow> string" where
  "shadow_warning ws c existing =
     ''workspace '' @ quoted ws @ '' crate '' @ quoted (crate_name c) @ '' path '' @ quoted (crate_path c)
     @ '' shadowed by prior entry with path '' @ quoted (crate_path existing)
     @ ''; workspace entry dropped (name collision with different paths '' @ em_dash @ '' likely a config mistake)''"

fun universe_walk :: "(string \<times> crate_config) list \<Rightarrow> crate_config list \<Rightarrow> string list \<Rightarrow> crate_config list \<times> string list" where
  "universe_walk [] out warnings = (out, warnings)"
| "universe_walk ((ws, c) # rest) out warnings =
     (case List.find (\<lambda>e. crate_name e = crate_name c) out of
        Some existing \<Rightarrow>
          universe_walk rest out
            (if crate_path existing \<noteq> crate_path c
             then warnings @ [shadow_warning ws c existing]
             else warnings)
      | None \<Rightarrow> universe_walk rest (out @ [c]) warnings)"

definition crate_universe_walk :: "crate_config list \<Rightarrow> workspace_config list option \<Rightarrow> crate_config list \<times> string list" where
  "crate_universe_walk crates workspaces =
     universe_walk (concat (map (\<lambda>ws. map (\<lambda>c. (ws_name ws, c)) (ws_crates ws)) (case workspaces of None \<Rightarrow> [] | Some w \<Rightarrow> w)))
       crates []"

definition crate_universe :: "crate_config list \<Rightarrow> workspace_config list option \<Rightarrow> crate_config list" where
  "crate_universe crates workspaces = fst (crate_universe_walk crates workspaces)"

definition crate_is_selected :: "string list \<Rightarrow> string \<Rightarrow> bool" where
  "crate_is_selected selected name = (selected = [] \<or> name \<in> set selected)"

definition selected_crates :: "crate_config list \<Rightarrow> workspace_config list option \<Rightarrow> string list \<Rightarrow> crate_config list" where
  "selected_crates crates workspaces selected =
     filter (\<lambda>c. crate_is_selected selected (crate_name c)) (crate_universe crates workspaces)"

definition find_crate :: "crate_config list \<Rightarrow> workspace_config list option \<Rightarrow> string \<Rightarrow> crate_config option" where
  "find_crate crates workspaces name = List.find (\<lambda>c. crate_name c = name) (crate_universe crates workspaces)"

definition topo_sort_selected :: "crate_config list \<Rightarrow> string list \<Rightarrow> string list option" where
  "topo_sort_selected all_crates selected =
     topological_sort (map (\<lambda>c. (crate_name c, case depends_on c of Some d \<Rightarrow> d | None \<Rightarrow> []))
       (filter (\<lambda>c. crate_name c \<in> set selected) all_crates))"

subsection \<open>Selections and changes\<close>

text \<open>
  \<open>name_to_deps\<close> holds the last crate of a name. The stack's top is the head of the list here; the
  dependencies of a visited crate are pushed in order, so the last one is visited next.
\<close>

definition name_to_deps :: "crate_config list \<Rightarrow> string \<rightharpoonup> string list" where
  "name_to_deps all_crates = map_of (rev (map (\<lambda>c. (crate_name c, case depends_on c of Some d \<Rightarrow> d | None \<Rightarrow> [])) all_crates))"

function (sequential) expand_loop :: "crate_config list \<Rightarrow> string list \<Rightarrow> string list \<Rightarrow> string list" where
  "expand_loop all_crates [] out = out"
| "expand_loop all_crates (name # stack) out =
     (case name_to_deps all_crates name of
        None \<Rightarrow> expand_loop all_crates stack out
      | Some deps \<Rightarrow>
          if name \<in> set out then expand_loop all_crates stack out
          else expand_loop all_crates (rev (filter (\<lambda>d. d \<notin> set (out @ [name])) deps) @ stack) (out @ [name]))"
  by pat_completeness auto

lemma dom_name_to_deps: "dom (name_to_deps all_crates) = crate_name ` set all_crates"
  by (simp add: name_to_deps_def dom_map_of_conv_image_fst image_image)

termination expand_loop
proof (relation "measures [\<lambda>(all_crates, stack, out). card (crate_name ` set all_crates - set out), \<lambda>(_, stack, _). length stack]")
  fix all_crates :: "crate_config list" and name stack out deps
  assume "name_to_deps all_crates name = Some deps" "name \<notin> set out"
  then have "name \<in> crate_name ` set all_crates - set out" using dom_name_to_deps [of all_crates] by blast
  then have "card (crate_name ` set all_crates - set (out @ [name])) < card (crate_name ` set all_crates - set out)"
    by (intro psubset_card_mono) auto
  then show "((all_crates, rev (filter (\<lambda>d. d \<notin> set (out @ [name])) deps) @ stack, out @ [name]), all_crates, name # stack, out)
      \<in> measures [\<lambda>(all_crates, stack, out). card (crate_name ` set all_crates - set out), \<lambda>(_, stack, _). length stack]"
    by simp
qed simp_all

text \<open>\<open>seen\<close> and \<open>out\<close> hold the same names, so the model keeps \<open>out\<close> only.\<close>

definition expand_with_transitive_deps :: "crate_config list \<Rightarrow> string list \<Rightarrow> string list" where
  "expand_with_transitive_deps all_crates seed = expand_loop all_crates (rev seed) []"

text \<open>One pass of the fixed-point loop, and the loop.\<close>

fun propagate_pass :: "crate_config list \<Rightarrow> string set \<Rightarrow> string set \<times> bool" where
  "propagate_pass [] result_set = (result_set, False)"
| "propagate_pass (c # cs) result_set =
     (if crate_name c \<in> result_set then propagate_pass cs result_set
      else case depends_on c of
             Some deps \<Rightarrow>
               if \<exists>dep \<in> set deps. dep \<in> result_set
               then (fst (propagate_pass cs (insert (crate_name c) result_set)), True)
               else propagate_pass cs result_set
           | None \<Rightarrow> propagate_pass cs result_set)"

lemma propagate_pass_grows:
  "result_set \<subseteq> fst (propagate_pass cs result_set) \<and> fst (propagate_pass cs result_set) \<subseteq> result_set \<union> crate_name ` set cs
   \<and> (snd (propagate_pass cs result_set) \<longrightarrow> (\<exists>c \<in> set cs. crate_name c \<in> fst (propagate_pass cs result_set) - result_set))"
proof (induction cs arbitrary: result_set)
  case (Cons c cs)
  from Cons.IH [of result_set] Cons.IH [of "insert (crate_name c) result_set"] show ?case
    by (auto split: option.split)
qed simp

function propagate_loop :: "crate_config list \<Rightarrow> string set \<Rightarrow> string set" where
  "propagate_loop crates result_set =
     (case propagate_pass crates result_set of
        (result_set', added) \<Rightarrow> if added then propagate_loop crates result_set' else result_set')"
  by auto

lemma propagate_pass_measure:
  assumes "propagate_pass crates result_set = (result_set', True)"
  shows "card (crate_name ` set crates - result_set') < card (crate_name ` set crates - result_set)"
proof -
  have "result_set \<subseteq> result_set'" "\<exists>c \<in> set crates. crate_name c \<in> result_set' - result_set"
    using propagate_pass_grows [of result_set crates] assms by auto
  then show ?thesis by (intro psubset_card_mono) auto
qed

termination propagate_loop
  by (relation "measure (\<lambda>(crates, result_set). card (crate_name ` set crates - result_set))")
    (auto intro!: propagate_pass_measure)

declare propagate_loop.simps [simp del]

definition propagate_dependents :: "crate_config list \<Rightarrow> string list \<Rightarrow> string list" where
  "propagate_dependents crates changed =
     (let result_set = propagate_loop crates (set changed)
      in filter (\<lambda>n. n \<in> result_set) changed
         @ map crate_name (filter (\<lambda>c. crate_name c \<in> result_set \<and> crate_name c \<notin> set changed) crates))"

subsection \<open>Conditions\<close>

definition is_true_spelling :: "string \<Rightarrow> bool" where
  "is_true_spelling s = (to_ascii_lowercase (trim s) \<in> {''true'', ''1''})"

definition is_false_spelling :: "string \<Rightarrow> bool" where
  "is_false_spelling s = (to_ascii_lowercase (trim s) \<in> {''false'', ''0''})"

definition is_if_falsy :: "string \<Rightarrow> bool" where
  "is_if_falsy rendered =
     (let trimmed = trim rendered
      in trimmed = [] \<or> is_false_spelling trimmed \<or> to_ascii_lowercase trimmed = ''no'')"

definition active_if_gate :: "string option \<Rightarrow> string option" where
  "active_if_gate condition = (case condition of Some t \<Rightarrow> if trim t \<noteq> [] then Some t else None | None \<Rightarrow> None)"

record templates =
  render :: "string \<Rightarrow> (string, string) result"
  find_stale_typed_compare :: "string \<Rightarrow> string option"

definition reject_stale_typed_compare :: "templates \<Rightarrow> string \<Rightarrow> string \<Rightarrow> (string, unit) result" where
  "reject_stale_typed_compare tm template label =
     (case find_stale_typed_compare tm template of
        Some snippet \<Rightarrow> Inl (label @ '': `'' @ snippet @ ''` compares a typed template variable to a quoted string; ''
          @ ''these variables are real booleans/numbers, so the comparison never matches and the condition would silently ''
          @ ''evaluate false in every mode. Use the variable directly instead '' @ em_dash @ '' e.g. `not IsSnapshot` for `IsSnapshot == ''
          @ [CHR 0x22] @ ''false'' @ [CHR 0x22] @ ''`, `IsHarness` for `IsHarness == '' @ [CHR 0x22] @ ''true'' @ [CHR 0x22]
          @ ''`, or an unquoted numeric compare for `NightlyBuild`.'')
      | None \<Rightarrow> Inr ())"

definition try_evaluates_to_true :: "templates \<Rightarrow> string_or_bool \<Rightarrow> (string, bool) result" where
  "try_evaluates_to_true tm v =
     (case v of
        BoolV b \<Rightarrow> Inr b
      | StringV s \<Rightarrow>
          (case reject_stale_typed_compare tm s ''skip/enable expression'' of
             Inl e \<Rightarrow> Inl e
           | Inr _ \<Rightarrow> (case render tm s of Inl e \<Rightarrow> Inl e | Inr rendered \<Rightarrow> Inr (is_true_spelling rendered))))"

definition evaluate_if_condition :: "templates \<Rightarrow> string option \<Rightarrow> string \<Rightarrow> (string, bool) result" where
  "evaluate_if_condition tm condition label =
     (case active_if_gate condition of
        None \<Rightarrow> Inr True
      | Some template \<Rightarrow>
          (case reject_stale_typed_compare tm template label of
             Inl e \<Rightarrow> Inl e
           | Inr _ \<Rightarrow>
               (case render tm template of
                  Inl e \<Rightarrow> Inl (label @ '': `if` template render failed (expression: '' @ template @ '')'')
                | Inr rendered \<Rightarrow> Inr (\<not> is_if_falsy rendered))))"

subsection \<open>The cargo publish plan\<close>

text \<open>
  The crates whose \<open>publish.cargo\<close> block stands: present, not skipped, its \<open>if:\<close> not falsy; with the log
  lines of the ones left out.
\<close>

fun cargo_cfgs :: "templates \<Rightarrow> crate_config list \<Rightarrow> (string, (string \<times> cargo_publish_config) list) result \<times> string list" where
  "cargo_cfgs tm [] = (Inr [], [])"
| "cargo_cfgs tm (c # cs) =
     (case Option.bind (publish_cfg c) cargo of
        None \<Rightarrow> cargo_cfgs tm cs
      | Some cfg \<Rightarrow>
          (case (case cargo_skip cfg of None \<Rightarrow> Inr False | Some d \<Rightarrow> try_evaluates_to_true tm d) of
             Inl e \<Rightarrow> (Inl (''cargo: render skip template for '' @ quoted (crate_name c)), [])
           | Inr True \<Rightarrow>
               (case cargo_cfgs tm cs of (r, log) \<Rightarrow>
                  (r, (''skipped cargo publish for '' @ quoted (crate_name c) @ '' '' @ em_dash @ '' skip=true'') # log))
           | Inr False \<Rightarrow>
               (case evaluate_if_condition tm (if_condition cfg) (''cargo publisher for crate '' @ quoted (crate_name c)) of
                  Inl e \<Rightarrow> (Inl e, [])
                | Inr False \<Rightarrow>
                    (case cargo_cfgs tm cs of (r, log) \<Rightarrow>
                       (r, (''skipped cargo publish for '' @ quoted (crate_name c) @ '' '' @ em_dash @ '' `if` condition evaluated falsy'') # log))
                | Inr True \<Rightarrow>
                    (case cargo_cfgs tm cs of
                       (Inl e, log) \<Rightarrow> (Inl e, log)
                     | (Inr m, log) \<Rightarrow> (Inr ((crate_name c, cfg) # m), log)))))"

text \<open>The position of a name in the order: the map holds its last one.\<close>

definition order_pos :: "string list \<Rightarrow> string \<rightharpoonup> nat" where
  "order_pos order = map_of (rev (zip order [0..<length order]))"

fun first_bad_dep :: "(string \<rightharpoonup> nat) \<Rightarrow> string \<Rightarrow> nat \<Rightarrow> string list \<Rightarrow> (string, unit) result" where
  "first_bad_dep pos name here [] = Inr ()"
| "first_bad_dep pos name here (dep # deps) =
     (case pos dep of
        Some dep_pos \<Rightarrow>
          if dep_pos \<ge> here
          then Inl (''cargo publish order is broken: '' @ quoted name @ '' depends on workspace crate '' @ quoted dep
                 @ '', but '' @ quoted dep @ '' is scheduled at position '' @ show_nat dep_pos @ '' (at or after ''
                 @ quoted name @ '' at position '' @ show_nat here @ ''). Refusing to publish out of order '' @ em_dash
                 @ '' crates.io would reject '' @ quoted name @ '' for an unresolvable '' @ quoted dep
                 @ '' dependency. This usually means a dependency cycle among the co-published crates.'')
          else first_bad_dep pos name here deps
      | None \<Rightarrow> first_bad_dep pos name here deps)"

fun validate_from :: "(string \<rightharpoonup> nat) \<Rightarrow> graph \<Rightarrow> (string, unit) result" where
  "validate_from pos [] = Inr ()"
| "validate_from pos ((name, deps) # rest) =
     (case pos name of
        None \<Rightarrow> validate_from pos rest
      | Some here \<Rightarrow>
          (case first_bad_dep pos name here deps of Inl e \<Rightarrow> Inl e | Inr _ \<Rightarrow> validate_from pos rest))"

definition validate_publish_order :: "string list \<Rightarrow> graph \<Rightarrow> (string, unit) result" where
  "validate_publish_order order graph = validate_from (order_pos order) graph"

record cargo_publish_plan =
  plan_order :: "string list"
  plan_cfgs :: "(string \<times> cargo_publish_config) list"
  plan_versions :: "(string \<times> string) list"
  plan_crates :: "crate_config list"
  plan_deps :: graph

text \<open>\<open>derive\<close> reads a manifest's dependencies among the members, \<open>manifest_version\<close> its version.\<close>

definition publishable ::
    "(string \<Rightarrow> string set \<Rightarrow> string list) \<Rightarrow> crate_config list \<Rightarrow> string list option \<Rightarrow> (string \<times> cargo_publish_config) list \<Rightarrow> graph" where
  "publishable derive crates selection configured =
     map (\<lambda>c. (crate_name c,
            case depends_on c of
              Some d \<Rightarrow> d
            | None \<Rightarrow> filter (\<lambda>d. d \<noteq> crate_name c) (derive (crate_path c) (crate_name ` set crates))))
       (filter (\<lambda>c. (case selection of None \<Rightarrow> True | Some names \<Rightarrow> crate_name c \<in> set names)
          \<and> crate_name c \<in> fst ` set configured) crates)"

definition order_plan ::
    "(string \<Rightarrow> string option) \<Rightarrow> (string \<rightharpoonup> string) \<Rightarrow> crate_config list \<Rightarrow> (string \<times> cargo_publish_config) list \<Rightarrow> graph
      \<Rightarrow> (string, cargo_publish_plan) result option" where
  "order_plan manifest_version planned crates configured graph =
     (case topological_sort graph of
        None \<Rightarrow> None
      | Some ord \<Rightarrow>
          Some (case validate_publish_order ord graph of
                  Inl e \<Rightarrow> Inl e
                | Inr _ \<Rightarrow>
                    Inr \<lparr>plan_order = ord, plan_cfgs = configured,
                      plan_versions = map (\<lambda>c. (crate_name c,
                          case planned (crate_name c) of
                            Some v \<Rightarrow> v
                          | None \<Rightarrow> (case manifest_version (crate_path c) of Some v \<Rightarrow> v | None \<Rightarrow> [])))
                        (filter (\<lambda>c. crate_name c \<in> set ord) crates),
                      plan_crates = crates, plan_deps = graph\<rparr>))"

definition make_cargo_publish_plan ::
    "templates \<Rightarrow> (string \<Rightarrow> string set \<Rightarrow> string list) \<Rightarrow> (string \<Rightarrow> string option) \<Rightarrow> (string \<rightharpoonup> string)
      \<Rightarrow> crate_config list \<Rightarrow> workspace_config list option \<Rightarrow> string list \<Rightarrow> (string, cargo_publish_plan) result option \<times> string list" where
  "make_cargo_publish_plan tm derive manifest_version planned crates workspaces selected =
     (let all_crates = crate_universe crates workspaces;
          selection = (if selected = [] then None else Some (expand_with_transitive_deps all_crates selected))
      in case cargo_cfgs tm all_crates of
           (Inl e, log) \<Rightarrow> (Some (Inl e), log)
         | (Inr configured, log) \<Rightarrow>
             (order_plan manifest_version planned all_crates configured (publishable derive all_crates selection configured), log))"

section \<open>Properties\<close>

subsection \<open>Topological sort\<close>

text \<open>The dependencies inside the graph that are not finished yet.\<close>

definition unmet :: "graph \<Rightarrow> string set \<Rightarrow> string list \<Rightarrow> nat" where
  "unmet items finished deps = length (filter (\<lambda>d. d \<in> graph_names items \<and> d \<notin> finished) deps)"

lemma in_degrees_map:
  assumes "distinct (map fst items)"
  shows "in_degrees items n = map_option (unmet items {}) (map_of items n)"
proof -
  have "fold (\<lambda>(n, deps) m. m(n \<mapsto> f deps)) xs m n = (case map_of xs n of None \<Rightarrow> m n | Some deps \<Rightarrow> Some (f deps))"
    if "distinct (map fst xs)" for xs :: graph and f :: "string list \<Rightarrow> nat" and m
    using that
  proof (induction xs arbitrary: m)
    case (Cons x xs)
    obtain k deps where x: "x = (k, deps)" by (cases x)
    have "map_of xs k = None" using Cons.prems x by (simp add: map_of_eq_None_iff)
    then show ?case using Cons x by (auto split: option.split)
  qed simp
  from this [OF assms] show ?thesis by (simp add: in_degrees_def unmet_def [abs_def] split: option.split)
qed

lemma count_dependents:
  assumes "distinct (map fst items)"
  shows "count_list (dependents items d) n =
     (if d \<in> graph_names items then (case map_of items n of None \<Rightarrow> 0 | Some deps \<Rightarrow> count_list deps d) else 0)"
proof -
  have one: "length (filter (\<lambda>dep. dep \<in> A \<and> dep = d) deps) = (if d \<in> A then count_list deps d else 0)" for A deps
    by (induction deps) auto
  have rep: "count_list (map (\<lambda>_. m) ds) n = (if m = n then length ds else 0)" for m and ds :: "string list"
    by (induction ds) auto
  have "count_list (concat (map (\<lambda>(m, deps). map (\<lambda>_. m) (filter (\<lambda>dep. dep \<in> A \<and> dep = d) deps)) xs)) n =
      (if d \<in> A then (case map_of xs n of None \<Rightarrow> 0 | Some deps \<Rightarrow> count_list deps d) else 0)"
    if "distinct (map fst xs)" for xs :: graph and A
    using that
  proof (induction xs)
    case (Cons x xs)
    obtain k deps where x: "x = (k, deps)" by (cases x)
    have "map_of xs k = None" using Cons.prems x by (simp add: map_of_eq_None_iff)
    then show ?case using Cons x one by (auto simp: rep)
  qed simp
  from this [OF assms] show ?thesis by (simp add: dependents_def)
qed

lemma unmet_insert:
  "node \<in> graph_names items \<Longrightarrow> node \<notin> finished \<Longrightarrow>
   unmet items finished deps = unmet items (insert node finished) deps + count_list deps node"
  by (induction deps) (auto simp: unmet_def)

lemma release_dependents_spec:
  "\<forall>n \<in> set ns. \<exists>k. deg n = Some k \<and> count_list ns n \<le> k \<Longrightarrow>
   \<exists>ready. release_dependents ns deg = Some (\<lambda>n. map_option (\<lambda>k. k - count_list ns n) (deg n), ready)
     \<and> distinct ready \<and> set ready = {n \<in> set ns. deg n = Some (count_list ns n)} \<and> length ready \<le> length ns"
proof (induction ns arbitrary: deg)
  case Nil
  have "(\<lambda>n. map_option (\<lambda>k. k) (deg n)) = deg" by (simp add: option.map_ident)
  then show ?case by simp
next
  case (Cons n ns)
  have "\<exists>j. deg n = Some j \<and> count_list (n # ns) n \<le> j" using Cons.prems by (rule bspec) simp
  then obtain j where j: "deg n = Some j" "count_list (n # ns) n \<le> j" by blast
  then obtain k where "j = Suc k" by (cases j) simp_all
  with j have k: "deg n = Some (Suc k)" "count_list ns n \<le> k" by simp_all
  have "\<forall>m \<in> set ns. \<exists>j. (deg(n \<mapsto> k)) m = Some j \<and> count_list ns m \<le> j"
    using Cons.prems k(2) by auto
  from Cons.IH [OF this] obtain ready where
    r: "release_dependents ns (deg(n \<mapsto> k)) = Some (\<lambda>m. map_option (\<lambda>j. j - count_list ns m) ((deg(n \<mapsto> k)) m), ready)"
    "distinct ready" "set ready = {m \<in> set ns. (deg(n \<mapsto> k)) m = Some (count_list ns m)}" "length ready \<le> length ns" by blast
  have deg: "(\<lambda>m. map_option (\<lambda>j. j - count_list ns m) ((deg(n \<mapsto> k)) m)) = (\<lambda>m. map_option (\<lambda>j. j - count_list (n # ns) m) (deg m))"
    using k(1) by (auto simp: fun_eq_iff)
  have fresh: "n \<notin> set ns" if "k = 0" using k(2) that by (metis count_list_0_iff le_zero_eq)
  let ?ready = "if k = 0 then n # ready else ready"
  have "release_dependents (n # ns) deg = Some (\<lambda>m. map_option (\<lambda>j. j - count_list (n # ns) m) (deg m), ?ready)"
    using k(1) by (simp only: release_dependents.simps r(1) deg option.case nat.case) simp
  moreover have "distinct ?ready" using r(2,3) fresh by simp
  moreover have "set ?ready = {m \<in> set (n # ns). deg m = Some (count_list (n # ns) m)}"
  proof (cases "k = 0")
    case True
    with fresh k(1) r(3) show ?thesis by (auto simp: count_list_0_iff)
  next
    case False
    have "n \<in> set ns" if "k = count_list ns n" using False that by (metis count_list_0_iff)
    with False k(1) r(3) show ?thesis by auto
  qed
  moreover have "length ?ready \<le> length (n # ns)" using r(4) by simp
  ultimately show ?case by blast
qed

definition deps_first :: "graph \<Rightarrow> string list \<Rightarrow> bool" where
  "deps_first items xs \<longleftrightarrow>
     (\<forall>pre x post deps. xs = pre @ x # post \<longrightarrow> map_of items x = Some deps \<longrightarrow> set deps \<inter> graph_names items \<subseteq> set pre)"

lemma deps_first_snoc:
  assumes "deps_first items xs" "\<And>deps. map_of items x = Some deps \<Longrightarrow> set deps \<inter> graph_names items \<subseteq> set xs"
  shows "deps_first items (xs @ [x])"
  unfolding deps_first_def
proof (intro allI impI)
  fix pre y post deps assume "xs @ [x] = pre @ y # post" and deps: "map_of items y = Some deps"
  then consider "post = []" "pre = xs" "y = x" | post' where "xs = pre @ y # post'"
    by (cases post rule: rev_cases) auto
  then show "set deps \<inter> graph_names items \<subseteq> set pre"
  proof cases
    case 1
    with assms(2) deps show ?thesis by simp
  next
    case 2
    with assms(1) deps show ?thesis unfolding deps_first_def by blast
  qed
qed

text \<open>
  The loop's invariant: counts are the unmet dependencies of the finished nodes, the nodes with none are
  exactly those finished or queued, nothing is queued twice, and what is finished has its dependencies first.
\<close>

definition kahn_inv :: "graph \<Rightarrow> string list \<Rightarrow> (string \<rightharpoonup> nat) \<Rightarrow> string list \<Rightarrow> bool" where
  "kahn_inv items queue deg result \<longleftrightarrow>
     distinct (result @ queue) \<and> set (result @ queue) \<subseteq> graph_names items
     \<and> (\<forall>n. deg n = map_option (unmet items (set result)) (map_of items n))
     \<and> (\<forall>n \<in> graph_names items. n \<in> set (result @ queue) \<longleftrightarrow> deg n = Some 0)
     \<and> deps_first items result"

lemma sort_names_simps [simp]:
  "set (sort_names xs) = set xs" "distinct (sort_names xs) = distinct xs" "length (sort_names xs) = length xs"
  by (simp_all add: sort_names_def)

lemma kahn_step:
  assumes distinct: "distinct (map fst items)" and inv: "kahn_inv items (node # queue) deg result"
  obtains deg' ready where "release_dependents (dependents items node) deg = Some (deg', ready)"
    "kahn_inv items (queue @ sort_names ready) deg' (result @ [node])" "length ready \<le> length (dependents items node)"
proof -
  let ?ds = "dependents items node"
  have node: "node \<in> graph_names items" "node \<notin> set result" using inv by (auto simp: kahn_inv_def)
  have deg: "deg n = map_option (unmet items (set result)) (map_of items n)" for n
    using inv by (simp add: kahn_inv_def)
  have cnt: "count_list ?ds n = (case map_of items n of None \<Rightarrow> 0 | Some deps \<Rightarrow> count_list deps node)" for n
    using count_dependents [OF distinct] node(1) by simp
  have met: "unmet items (set result) deps = unmet items (insert node (set result)) deps + count_list deps node" for deps
    by (rule unmet_insert [OF node])
  have "\<exists>k. deg n = Some k \<and> count_list ?ds n \<le> k" if "n \<in> set ?ds" for n
  proof -
    have "count_list ?ds n \<noteq> 0" using that by (simp add: count_list_0_iff)
    then obtain deps where "map_of items n = Some deps" using cnt by (cases "map_of items n") auto
    then show ?thesis by (simp add: deg cnt met)
  qed
  then obtain ready where rel: "release_dependents ?ds deg = Some (\<lambda>n. map_option (\<lambda>k. k - count_list ?ds n) (deg n), ready)"
    and ready: "distinct ready" "set ready = {n \<in> set ?ds. deg n = Some (count_list ?ds n)}" "length ready \<le> length ?ds"
    using release_dependents_spec [of ?ds deg] by blast
  let ?deg' = "\<lambda>n. map_option (\<lambda>k. k - count_list ?ds n) (deg n)"
  have deg': "?deg' n = map_option (unmet items (set (result @ [node]))) (map_of items n)" for n
    by (cases "map_of items n") (simp_all add: deg cnt met)
  have zero: "n \<in> set (result @ node # queue) \<longleftrightarrow> deg n = Some 0" if "n \<in> graph_names items" for n
    using inv that by (simp add: kahn_inv_def)
  have pos: "0 < count_list ?ds n" if "n \<in> set ?ds" for n using that by (metis count_list_0_iff gr0I)
  have names: "set ready \<subseteq> graph_names items"
    using ready(2) deg by (force simp: graph_names_def dest!: map_of_SomeD)
  have fresh: "set ready \<inter> set (result @ node # queue) = {}"
    using ready(2) names zero pos by fastforce
  have "n \<in> set (result @ [node] @ queue @ ready) \<longleftrightarrow> ?deg' n = Some 0" if n: "n \<in> graph_names items" for n
  proof (cases "n \<in> set (result @ node # queue)")
    case True
    with zero [OF n] show ?thesis by auto
  next
    case False
    from n obtain deps where deps: "map_of items n = Some deps" by (metis graph_names_def map_of_eq_None_iff not_None_eq)
    then have "n \<in> set ready \<longleftrightarrow> unmet items (set result) deps = count_list ?ds n"
      using False zero [OF n] ready(2) count_list_0_iff [of ?ds n] by (auto simp: deg)
    with False deps show ?thesis by (auto simp: deg cnt met)
  qed
  moreover have "deps_first items (result @ [node])"
  proof (rule deps_first_snoc)
    show "deps_first items result" using inv by (simp add: kahn_inv_def)
    fix deps assume "map_of items node = Some deps"
    moreover have "deg node = Some 0" using zero [OF node(1)] by simp
    ultimately show "set deps \<inter> graph_names items \<subseteq> set result"
      by (auto simp: deg unmet_def filter_empty_conv)
  qed
  ultimately have "kahn_inv items (queue @ sort_names ready) ?deg' (result @ [node])"
    using inv fresh ready(1) names deg' by (auto simp: kahn_inv_def)
  from that [OF rel this ready(3)] show ?thesis .
qed

text \<open>The fuel: every turn finishes a queued node, and queues at most as many as it meets dependencies.\<close>

definition unmet_total :: "graph \<Rightarrow> string set \<Rightarrow> nat" where
  "unmet_total items finished = sum_list (map (\<lambda>(n, deps). unmet items finished deps) items)"

lemma unmet_total_step:
  assumes "node \<in> graph_names items" "node \<notin> finished"
  shows "unmet_total items finished = unmet_total items (insert node finished) + length (dependents items node)"
proof -
  have one: "length (filter (\<lambda>dep. dep \<in> graph_names items \<and> dep = node) deps) = count_list deps node" for deps
    using assms(1) by (induction deps) auto
  have "sum_list (map (\<lambda>(n, deps). unmet items finished deps) xs) =
      sum_list (map (\<lambda>(n, deps). unmet items (insert node finished) deps) xs)
      + length (concat (map (\<lambda>(n, deps). map (\<lambda>_. n) (filter (\<lambda>dep. dep \<in> graph_names items \<and> dep = node) deps)) xs))" for xs :: graph
    by (induction xs) (auto simp: one unmet_insert [OF assms])
  then show ?thesis by (simp add: unmet_total_def dependents_def)
qed

lemma kahn_finishes:
  "distinct (map fst items) \<Longrightarrow> kahn_inv items queue deg result \<Longrightarrow> length queue + unmet_total items (set result) \<le> fuel \<Longrightarrow>
   \<exists>result' deg'. kahn fuel items queue deg result = Some result' \<and> kahn_inv items [] deg' result'"
proof (induction fuel items queue deg result rule: kahn.induct)
  case (3 fuel items node queue deg result)
  obtain deg' ready where step: "release_dependents (dependents items node) deg = Some (deg', ready)"
    "kahn_inv items (queue @ sort_names ready) deg' (result @ [node])" "length ready \<le> length (dependents items node)"
    using 3(2,3) by (rule kahn_step)
  have "node \<in> graph_names items" "node \<notin> set result" using 3(3) by (auto simp: kahn_inv_def)
  from unmet_total_step [OF this] 3(4) step(3)
  have "length (queue @ sort_names ready) + unmet_total items (set (result @ [node])) \<le> fuel" by simp
  from 3(1) [OF step(1) refl 3(2) step(2) this] step(1) show ?case by simp
qed auto

lemma kahn_start:
  assumes "distinct (map fst items)"
  shows "kahn_inv items (seed_queue items) (in_degrees items) []"
    and "length (seed_queue items) + unmet_total items {} \<le> length items + length (concat (map snd items))"
proof -
  show "kahn_inv items (seed_queue items) (in_degrees items) []"
    using assms
    by (auto simp: kahn_inv_def seed_queue_def in_degrees_map graph_names_def deps_first_def distinct_remdups_id)
  have "unmet items {} deps \<le> length deps" for deps by (simp add: unmet_def)
  then have "unmet_total items {} \<le> length (concat (map snd items))"
    unfolding unmet_total_def length_concat map_map by (intro sum_list_mono) auto
  moreover have "length (seed_queue items) \<le> length items"
    by (simp add: seed_queue_def) (metis length_filter_le length_map length_remdups_leq order_trans)
  ultimately show "length (seed_queue items) + unmet_total items {} \<le> length items + length (concat (map snd items))" by simp
qed

text \<open>The dependency relation inside the graph: dependency first.\<close>

definition dep_rel :: "graph \<Rightarrow> (string \<times> string) set" where
  "dep_rel items = {(d, n). \<exists>deps. map_of items n = Some deps \<and> d \<in> set deps \<and> d \<in> graph_names items}"

lemma dep_rel_names: "dep_rel items \<subseteq> graph_names items \<times> graph_names items"
  by (force simp: dep_rel_def graph_names_def dest!: map_of_SomeD)

lemma kahn_complete:
  assumes inv: "kahn_inv items [] deg result" and acyclic: "acyclic (dep_rel items)"
  shows "set result = graph_names items"
proof (rule ccontr)
  assume "set result \<noteq> graph_names items"
  then obtain n where n: "n \<in> graph_names items - set result" using inv by (auto simp: kahn_inv_def)
  have "finite (dep_rel items)"
    by (rule finite_subset [OF dep_rel_names]) (simp add: graph_names_def)
  then have "wf (dep_rel items)" using acyclic by (rule finite_acyclic_wf)
  then obtain z where z: "z \<in> graph_names items - set result"
    "\<And>y. (y, z) \<in> dep_rel items \<Longrightarrow> y \<notin> graph_names items - set result"
    using n by (rule wfE_min) blast
  then obtain deps where deps: "map_of items z = Some deps"
    by (metis DiffD1 graph_names_def map_of_eq_None_iff not_None_eq)
  have "deg z \<noteq> Some 0" using inv z(1) by (auto simp: kahn_inv_def)
  then have "unmet items (set result) deps \<noteq> 0" using inv deps by (simp add: kahn_inv_def)
  then obtain d where "d \<in> set deps" "d \<in> graph_names items" "d \<notin> set result"
    by (auto simp: unmet_def filter_empty_conv)
  with z(2) [of d] deps show False by (auto simp: dep_rel_def)
qed

text \<open>What the sort returns: the nodes it could order, dependencies first, then the rest.\<close>

lemma topological_sort_split:
  assumes "distinct (map fst items)"
  obtains result deg where "topological_sort items = Some (result @ map fst (filter (\<lambda>(n, _). n \<notin> set result) items))"
    "kahn_inv items [] deg result"
proof -
  obtain result deg where run: "kahn (length items + length (concat (map snd items))) items (seed_queue items) (in_degrees items) [] = Some result"
    and inv: "kahn_inv items [] deg result"
    using kahn_finishes [OF assms kahn_start(1) [OF assms]] kahn_start(2) [OF assms] by fastforce
  have "map fst (filter (\<lambda>(n, _). n \<notin> set result) items) = []" if "\<not> length result < length items"
  proof -
    have "card (set result) = length result" "set result \<subseteq> graph_names items"
      using inv by (simp_all add: kahn_inv_def distinct_card)
    moreover have "card (graph_names items) = length items"
      using assms distinct_card [OF assms] by (simp add: graph_names_def)
    moreover have "card (set result) \<le> card (graph_names items)"
      using calculation(2) by (intro card_mono) (simp_all add: graph_names_def)
    ultimately have "set result = graph_names items"
      using that by (intro card_subset_eq) (simp_all add: graph_names_def)
    then show ?thesis by (force simp: graph_names_def filter_empty_conv)
  qed
  then have "topological_sort items = Some (result @ map fst (filter (\<lambda>(n, _). n \<notin> set result) items))"
    by (simp add: topological_sort_def run)
  from that [OF this inv] show ?thesis .
qed

lemma topological_sort_order:
  assumes "distinct (map fst items)"
  shows "\<exists>order. topological_sort items = Some order \<and> mset order = mset (map fst items)
     \<and> (acyclic (dep_rel items) \<longrightarrow> deps_first items order)"
proof -
  obtain result deg where run: "topological_sort items = Some (result @ map fst (filter (\<lambda>(n, _). n \<notin> set result) items))"
    and inv: "kahn_inv items [] deg result" using assms by (rule topological_sort_split)
  let ?rest = "map fst (filter (\<lambda>(n, _). n \<notin> set result) items)"
  have "distinct (result @ ?rest)" "set (result @ ?rest) = graph_names items"
    using inv assms by (auto simp: kahn_inv_def graph_names_def distinct_map inj_on_filter_key_eq intro: inj_on_subset)
  then have "mset (result @ ?rest) = mset (map fst items)"
    using assms by (metis graph_names_def list.set_map set_eq_iff_mset_eq_distinct)
  moreover have "deps_first items (result @ ?rest)" if "acyclic (dep_rel items)"
  proof -
    have "?rest = []" using kahn_complete [OF inv that] by (force simp: graph_names_def filter_empty_conv)
    with inv show ?thesis by (simp add: kahn_inv_def)
  qed
  ultimately show ?thesis using run by blast
qed

text \<open>
  C30. The sort is total and loses nothing: for items with distinct names it returns every name exactly
  once, no count is lowered below zero; and when no item depends on itself, directly or through others,
  every item comes after all its dependencies among the items.
\<close>
theorem topological_sort_correct:
  assumes "distinct (map fst items)"
  shows "\<exists>order. topological_sort items = Some order \<and> mset order = mset (map fst items)
     \<and> (acyclic (dep_rel items) \<longrightarrow> deps_first items order)"
  using assms by (rule topological_sort_order)

theorem topological_sort_correct_witness:
  "\<exists>order. topological_sort [(''app'', [''core'', ''util'', ''serde'']), (''core'', []), (''util'', [''core''])] = Some order
     \<and> mset order = {#''app'', ''core'', ''util''#}"
  using topological_sort_correct [of "[(''app'', [''core'', ''util'', ''serde'']), (''core'', []), (''util'', [''core''])]"] by auto

subsection \<open>The publish order\<close>

lemma order_pos_Some: "distinct order \<Longrightarrow> order_pos order n = Some i \<longleftrightarrow> i < length order \<and> order ! i = n"
proof -
  assume "distinct order"
  then have "distinct (map fst (rev (zip order [0..<length order])))" by (simp add: rev_map [symmetric])
  then have "order_pos order n = Some i \<longleftrightarrow> (n, i) \<in> set (zip order [0..<length order])"
    by (simp add: order_pos_def map_of_eq_Some_iff)
  then show ?thesis by (auto simp: set_zip)
qed

lemma first_bad_dep_Inr: "first_bad_dep pos name here ds = Inr () \<longleftrightarrow> (\<forall>d \<in> set ds. \<forall>p. pos d = Some p \<longrightarrow> p < here)"
  by (induction ds) (auto split: option.splits)

lemma validate_from_Inr:
  "validate_from pos g = Inr () \<longleftrightarrow>
     (\<forall>(n, ds) \<in> set g. \<forall>here. pos n = Some here \<longrightarrow> (\<forall>d \<in> set ds. \<forall>p. pos d = Some p \<longrightarrow> p < here))"
proof (induction g)
  case (Cons nd g)
  obtain n ds where nd: "nd = (n, ds)" by (cases nd)
  show ?case
  proof (cases "pos n")
    case (Some here)
    with Cons first_bad_dep_Inr [of pos n here ds] show ?thesis
      by (cases "first_bad_dep pos n here ds") (auto simp: nd)
  qed (use Cons in \<open>simp add: nd\<close>)
qed simp

text \<open>On an order of all names of the graph, validation is the specification.\<close>

lemma validate_iff_deps_first:
  assumes "distinct (map fst g)" "distinct ord" "set ord = graph_names g"
  shows "validate_publish_order ord g = Inr () \<longleftrightarrow> deps_first g ord"
proof -
  note pos = order_pos_Some [OF assms(2)]
  have "validate_publish_order ord g = Inr () \<longleftrightarrow>
      (\<forall>i < length ord. \<forall>ds. map_of g (ord ! i) = Some ds \<longrightarrow> (\<forall>j < length ord. ord ! j \<in> set ds \<longrightarrow> j < i))"
    unfolding validate_publish_order_def validate_from_Inr using assms(1)
    by (auto simp: pos map_of_eq_Some_iff)
  also have "\<dots> \<longleftrightarrow> deps_first g ord"
  proof
    assume L: "\<forall>i < length ord. \<forall>ds. map_of g (ord ! i) = Some ds \<longrightarrow> (\<forall>j < length ord. ord ! j \<in> set ds \<longrightarrow> j < i)"
    show "deps_first g ord"
      unfolding deps_first_def
    proof (intro allI impI subsetI)
      fix pre x post ds d
      assume ord: "ord = pre @ x # post" and ds: "map_of g x = Some ds" and "d \<in> set ds \<inter> graph_names g"
      then obtain j where j: "j < length ord" "ord ! j = d" "d \<in> set ds" using assms(3) by (metis IntE in_set_conv_nth)
      with L [rule_format, of "length pre" ds j] ord ds have "j < length pre" by simp
      with j(2) ord show "d \<in> set pre" by (auto simp: nth_append)
    qed
  next
    assume R: "deps_first g ord"
    show "\<forall>i < length ord. \<forall>ds. map_of g (ord ! i) = Some ds \<longrightarrow> (\<forall>j < length ord. ord ! j \<in> set ds \<longrightarrow> j < i)"
    proof (intro allI impI)
      fix i ds j assume i: "i < length ord" "map_of g (ord ! i) = Some ds" "j < length ord" "ord ! j \<in> set ds"
      then have "ord ! j \<in> set (take i ord)"
        using R assms(3) id_take_nth_drop [OF i(1)] nth_mem [OF i(3)] unfolding deps_first_def by blast
      then obtain k where "k < i" "ord ! k = ord ! j" using i(1) by (auto simp: in_set_conv_nth)
      with assms(2) i show "j < i" by (metis nth_eq_iff_index_eq order_less_trans)
    qed
  qed
  finally show ?thesis .
qed

lemma deps_first_acyclic:
  assumes "deps_first g ord" "distinct ord" "set ord = graph_names g"
  shows "acyclic (dep_rel g)"
proof (rule acyclic_subset)
  let ?pos = "\<lambda>n. length (takeWhile (\<lambda>x. x \<noteq> n) ord)"
  show "acyclic (inv_image {(a, b). a < (b :: nat)} ?pos)"
    by (rule wf_acyclic) (rule wf_inv_image, rule wf_less)
  have "?pos d < ?pos n" if dn: "(d, n) \<in> dep_rel g" for d n
  proof -
    from dn obtain ds where ds: "map_of g n = Some ds" "d \<in> set ds" "d \<in> graph_names g" by (auto simp: dep_rel_def)
    have "n \<in> set ord" using dep_rel_names dn assms(3) by blast
    then obtain pre post where ord: "ord = pre @ n # post" "n \<notin> set pre" by (metis split_list_first)
    then have d: "d \<in> set pre" using assms(1) ds unfolding deps_first_def by blast
    have "?pos n = length pre" unfolding ord(1) by (subst takeWhile_append2) (use ord(2) in auto)
    moreover obtain p q where p: "pre = p @ d # q" "d \<notin> set p" using d by (metis split_list_first)
    then have "?pos d = length p" unfolding ord(1) p(1) append.assoc by (subst takeWhile_append2) auto
    moreover have "length p < length pre" using p(1) by simp
    ultimately show ?thesis by simp
  qed
  then show "dep_rel g \<subseteq> inv_image {(a, b). a < (b :: nat)} ?pos" by auto
qed

text \<open>The check after the sort refuses exactly the cyclic graphs.\<close>

lemma sorted_order_valid_iff:
  assumes "distinct (map fst g)"
  obtains ord where "topological_sort g = Some ord" "distinct ord" "set ord = graph_names g"
    "validate_publish_order ord g = Inr () \<longleftrightarrow> acyclic (dep_rel g)"
proof -
  obtain ord where ord: "topological_sort g = Some ord" "mset ord = mset (map fst g)"
    "acyclic (dep_rel g) \<longrightarrow> deps_first g ord"
    using topological_sort_order [OF assms] by blast
  have "distinct ord" "set ord = graph_names g"
    using assms mset_eq_imp_distinct_iff [OF ord(2)] mset_eq_setD [OF ord(2)] by (simp_all add: graph_names_def)
  moreover from this have "validate_publish_order ord g = Inr () \<longleftrightarrow> acyclic (dep_rel g)"
    using validate_iff_deps_first [OF assms] deps_first_acyclic ord(3) by blast
  ultimately show ?thesis using ord(1) that by blast
qed

subsection \<open>The crate universe\<close>

lemma universe_walk_out:
  "distinct (map crate_name out) \<Longrightarrow>
   distinct (map crate_name (fst (universe_walk ps out ws)))
   \<and> crate_name ` set (fst (universe_walk ps out ws)) = crate_name ` set out \<union> crate_name ` snd ` set ps
   \<and> (\<exists>more. fst (universe_walk ps out ws) = out @ more)"
proof (induction ps out ws rule: universe_walk.induct)
  case (2 w c rest out ws)
  show ?case
  proof (cases "List.find (\<lambda>e. crate_name e = crate_name c) out")
    case None
    then have "crate_name c \<notin> crate_name ` set out" by (auto simp: find_None_iff)
    with 2(1) [OF None] 2(3) None show ?thesis by auto
  next
    case (Some e)
    then obtain i where "i < length out" "crate_name (out ! i) = crate_name c" by (auto simp: find_Some_iff)
    then have "crate_name c \<in> crate_name ` set out" by (metis imageI nth_mem)
    with 2(2) [OF Some 2(3)] Some show ?thesis by auto
  qed
qed simp

lemma crate_universe_distinct:
  "distinct (map crate_name crates) \<Longrightarrow> distinct (map crate_name (crate_universe crates workspaces))"
  using universe_walk_out by (simp add: crate_universe_def crate_universe_walk_def)

text \<open>
  C29. The publish plan: with distinct names among the top-level crates a plan is always decided. A returned plan lists every
  planned crate once and publishes none before a planned crate it depends on; a refusal is either an
  error of a \<open>skip:\<close> or \<open>if:\<close> template or a dependency cycle among the planned crates, and every such cycle
  is refused before anything is published.
\<close>
theorem publish_plan_order:
  assumes "distinct (map crate_name crates)"
  shows "case fst (make_cargo_publish_plan tm derive manifest_version planned crates workspaces selected) of
       None \<Rightarrow> False
     | Some (Inr plan) \<Rightarrow>
         deps_first (plan_deps plan) (plan_order plan) \<and> mset (plan_order plan) = mset (map fst (plan_deps plan))
         \<and> acyclic (dep_rel (plan_deps plan))
     | Some (Inl e) \<Rightarrow>
         fst (cargo_cfgs tm (crate_universe crates workspaces)) = Inl e
         \<or> (\<exists>configured. fst (cargo_cfgs tm (crate_universe crates workspaces)) = Inr configured
              \<and> \<not> acyclic (dep_rel (publishable derive (crate_universe crates workspaces)
                    (if selected = [] then None else Some (expand_with_transitive_deps (crate_universe crates workspaces) selected)) configured)))"
proof (cases "fst (cargo_cfgs tm (crate_universe crates workspaces))")
  case (Inl e)
  then show ?thesis by (auto simp: make_cargo_publish_plan_def Let_def split: prod.splits)
next
  case (Inr configured)
  let ?U = "crate_universe crates workspaces"
  have U: "distinct (map crate_name ?U)" using assms by (rule crate_universe_distinct)
  let ?g = "publishable derive ?U (if selected = [] then None else Some (expand_with_transitive_deps ?U selected)) configured"
  have names: "map fst ?g = map crate_name (filter (\<lambda>c. (case (if selected = [] then None else Some (expand_with_transitive_deps ?U selected)) of
      None \<Rightarrow> True | Some names \<Rightarrow> crate_name c \<in> set names) \<and> crate_name c \<in> fst ` set configured) ?U)"
    by (simp add: publishable_def comp_def)
  have g: "distinct (map fst ?g)"
    unfolding names using U by (simp add: distinct_map inj_on_filter_key_eq inj_on_def)
  obtain ord where ord: "topological_sort ?g = Some ord" "distinct ord" "set ord = graph_names ?g"
    "validate_publish_order ord ?g = Inr () \<longleftrightarrow> acyclic (dep_rel ?g)" using g by (rule sorted_order_valid_iff)
  have run: "fst (make_cargo_publish_plan tm derive manifest_version planned crates workspaces selected) =
      order_plan manifest_version planned ?U configured ?g"
    using Inr by (auto simp: make_cargo_publish_plan_def Let_def split: prod.split sum.split)
  show ?thesis
  proof (cases "validate_publish_order ord ?g")
    case (Inl e)
    then have "\<not> acyclic (dep_rel ?g)" using ord(4) by simp
    with Inl Inr show ?thesis by (simp only: run order_plan_def ord(1) option.case sum.case) simp
  next
    case valid: (Inr u)
    then have "deps_first ?g ord" "acyclic (dep_rel ?g)"
      using ord(4) validate_iff_deps_first [OF g ord(2,3)] by simp_all
    moreover have "mset ord = mset (map fst ?g)"
      using set_eq_iff_mset_eq_distinct [OF ord(2) g] ord(3) by (simp only: graph_names_def list.set_map simp_thms)
    ultimately show ?thesis by (simp only: run order_plan_def ord(1) valid option.case sum.case cargo_publish_plan.simps simp_thms)
  qed
qed

definition demo_crate :: "string \<Rightarrow> string list \<Rightarrow> crate_config" where
  "demo_crate n ds = \<lparr>crate_name = n, crate_path = n, depends_on = Some ds,
     publish_cfg = Some \<lparr>cargo = Some \<lparr>cargo_skip = None, if_condition = None, cargo_registry = None, cargo_index = None\<rparr>,
       chocolatey = None, winget = None\<rparr>, builds = None, crate_tag_template = None\<rparr>"

theorem publish_plan_order_witness:
  "distinct (map crate_name [demo_crate ''cli'' [''core''], demo_crate ''core'' []])
   \<and> fst (make_cargo_publish_plan \<lparr>render = Inr, find_stale_typed_compare = (\<lambda>_. None)\<rparr> (\<lambda>_ _. []) (\<lambda>_. None) Map.empty
        [demo_crate ''cli'' [''core''], demo_crate ''core'' []] None []) \<noteq> None"
proof
  show d: "distinct (map crate_name [demo_crate ''cli'' [''core''], demo_crate ''core'' []])" by (simp add: demo_crate_def)
  show "fst (make_cargo_publish_plan \<lparr>render = Inr, find_stale_typed_compare = (\<lambda>_. None)\<rparr> (\<lambda>_ _. []) (\<lambda>_. None) Map.empty
        [demo_crate ''cli'' [''core''], demo_crate ''core'' []] None []) \<noteq> None"
    using publish_plan_order [OF d, where tm = "\<lparr>render = Inr, find_stale_typed_compare = (\<lambda>_. None)\<rparr>"
        and derive = "\<lambda>_ _. []" and manifest_version = "\<lambda>_. None" and planned = Map.empty and workspaces = None and selected = "[]"]
    by (rule contrapos_pn) simp
qed

subsection \<open>Reaching dependencies and dependents\<close>

text \<open>Dependencies inside the configuration.\<close>

definition depends_rel :: "crate_config list \<Rightarrow> (string \<times> string) set" where
  "depends_rel crates = {(n, d). \<exists>ds. name_to_deps crates n = Some ds \<and> d \<in> set ds \<and> d \<in> crate_name ` set crates}"

lemma expand_loop_closed:
  "\<forall>n \<in> set out. \<forall>d. (n, d) \<in> depends_rel crates \<longrightarrow> d \<in> set out \<union> set stack \<Longrightarrow> distinct out \<Longrightarrow>
   distinct (expand_loop crates stack out)
   \<and> set out \<union> (set stack \<inter> crate_name ` set crates) \<subseteq> set (expand_loop crates stack out)
   \<and> (\<forall>n \<in> set (expand_loop crates stack out). \<forall>d. (n, d) \<in> depends_rel crates \<longrightarrow> d \<in> set (expand_loop crates stack out))
   \<and> set (expand_loop crates stack out) \<subseteq> set out \<union> (depends_rel crates)\<^sup>* `` (set stack \<inter> crate_name ` set crates)"
proof (induction crates stack out rule: expand_loop.induct)
  case (1 crates out)
  then show ?case by auto
next
  case (2 crates name stack out)
  let ?N = "crate_name ` set crates" and ?R = "depends_rel crates"
  have R: "d \<in> ?N" if "(n, d) \<in> ?R" for n d using that by (auto simp: depends_rel_def)
  show ?case
  proof (cases "name \<in> ?N \<and> name \<notin> set out")
    case False
    then have loop: "expand_loop crates (name # stack) out = expand_loop crates stack out"
      using dom_name_to_deps [of crates] by (auto split: option.split)
    have prem: "\<forall>n \<in> set out. \<forall>d. (n, d) \<in> ?R \<longrightarrow> d \<in> set out \<union> set stack" using 2(4) False R by auto
    have IH: "distinct (expand_loop crates stack out)
      \<and> set out \<union> (set stack \<inter> ?N) \<subseteq> set (expand_loop crates stack out)
      \<and> (\<forall>n \<in> set (expand_loop crates stack out). \<forall>d. (n, d) \<in> ?R \<longrightarrow> d \<in> set (expand_loop crates stack out))
      \<and> set (expand_loop crates stack out) \<subseteq> set out \<union> ?R\<^sup>* `` (set stack \<inter> ?N)"
    proof (cases "name_to_deps crates name")
      case None
      then show ?thesis using 2(1) [OF None prem 2(5)] by blast
    next
      case (Some ds)
      then have "name \<in> set out" using False dom_name_to_deps [of crates] by blast
      then show ?thesis using 2(2) [OF Some _ prem 2(5)] by blast
    qed
    have "set out \<union> (set (name # stack) \<inter> ?N) = set out \<union> (set stack \<inter> ?N)" using False by auto
    moreover have "?R\<^sup>* `` (set stack \<inter> ?N) \<subseteq> ?R\<^sup>* `` (set (name # stack) \<inter> ?N)" by auto
    ultimately show ?thesis using IH unfolding loop by blast
  next
    case True
    then obtain ds where ds: "name_to_deps crates name = Some ds" using dom_name_to_deps [of crates] by blast
    let ?stack = "rev (filter (\<lambda>d. d \<notin> set (out @ [name])) ds) @ stack"
    have loop: "expand_loop crates (name # stack) out = expand_loop crates ?stack (out @ [name])"
      using True ds by simp
    have "\<forall>n \<in> set (out @ [name]). \<forall>d. (n, d) \<in> ?R \<longrightarrow> d \<in> set (out @ [name]) \<union> set ?stack"
      using 2(4) ds by (auto simp: depends_rel_def)
    from 2(3) [OF ds _ this] 2(5) True
    have IH: "distinct (expand_loop crates ?stack (out @ [name]))"
      "set (out @ [name]) \<union> (set ?stack \<inter> ?N) \<subseteq> set (expand_loop crates ?stack (out @ [name]))"
      "\<forall>n \<in> set (expand_loop crates ?stack (out @ [name])). \<forall>d. (n, d) \<in> ?R \<longrightarrow> d \<in> set (expand_loop crates ?stack (out @ [name]))"
      "set (expand_loop crates ?stack (out @ [name])) \<subseteq> set (out @ [name]) \<union> ?R\<^sup>* `` (set ?stack \<inter> ?N)" by simp_all
    have step: "(name, d) \<in> ?R" if "d \<in> set ds" "d \<in> ?N" for d using that ds by (simp add: depends_rel_def)
    have reach: "?R\<^sup>* `` (set ?stack \<inter> ?N) \<subseteq> ?R\<^sup>* `` (set (name # stack) \<inter> ?N)"
    proof
      fix x
      assume "x \<in> ?R\<^sup>* `` (set ?stack \<inter> ?N)"
      then obtain y where y: "y \<in> set ?stack" "y \<in> ?N" "(y, x) \<in> ?R\<^sup>*" by blast
      show "x \<in> ?R\<^sup>* `` (set (name # stack) \<inter> ?N)"
      proof (cases "y \<in> set stack")
        case True
        with y show ?thesis by auto
      next
        case False
        then have "(name, x) \<in> ?R\<^sup>*" using y step [of y] by (auto intro: converse_rtrancl_into_rtrancl)
        with True show ?thesis by (intro ImageI [where a = name]) auto
      qed
    qed
    have start: "name \<in> ?R\<^sup>* `` (set (name # stack) \<inter> ?N)" using True by auto
    have sub: "set (expand_loop crates ?stack (out @ [name])) \<subseteq> set out \<union> ?R\<^sup>* `` (set (name # stack) \<inter> ?N)"
    proof (rule order_trans [OF IH(4)], rule Un_least)
      show "set (out @ [name]) \<subseteq> set out \<union> ?R\<^sup>* `` (set (name # stack) \<inter> ?N)" using start by simp
    qed (rule le_supI2 [OF reach])
    have "set out \<union> (set (name # stack) \<inter> ?N) \<subseteq> set (out @ [name]) \<union> (set ?stack \<inter> ?N)" by auto
    with IH(2) have "set out \<union> (set (name # stack) \<inter> ?N) \<subseteq> set (expand_loop crates ?stack (out @ [name]))" by (rule order_trans [rotated])
    with IH(1,3) sub show ?thesis unfolding loop by (intro conjI)
  qed
qed

text \<open>
  C31. Selecting crates selects what they need: the expanded selection is, without repetition, exactly the
  configured crates reachable from the selected ones by following \<open>depends_on\<close>.
\<close>
theorem selection_is_reachable_set:
  "distinct (expand_with_transitive_deps crates seed)
   \<and> set (expand_with_transitive_deps crates seed) = (depends_rel crates)\<^sup>* `` (set seed \<inter> crate_name ` set crates)"
proof -
  let ?X = "set (expand_with_transitive_deps crates seed)"
  have X: "distinct (expand_with_transitive_deps crates seed)" "set seed \<inter> crate_name ` set crates \<subseteq> ?X"
    "\<forall>n \<in> ?X. \<forall>d. (n, d) \<in> depends_rel crates \<longrightarrow> d \<in> ?X"
    "?X \<subseteq> (depends_rel crates)\<^sup>* `` (set seed \<inter> crate_name ` set crates)"
    using expand_loop_closed [of "[]" crates "rev seed"] by (simp_all add: expand_with_transitive_deps_def)
  have "m \<in> ?X" if "(n, m) \<in> (depends_rel crates)\<^sup>*" "n \<in> ?X" for n m
    using that X(3) by (induction rule: rtrancl_induct) auto
  then have "(depends_rel crates)\<^sup>* `` (set seed \<inter> crate_name ` set crates) \<subseteq> ?X" using X(2) by blast
  with X(1,4) show ?thesis by blast
qed

text \<open>The relation a change spreads along: from a crate to the crates that declare it as a dependency.\<close>

definition affects_rel :: "crate_config list \<Rightarrow> (string \<times> string) set" where
  "affects_rel crates = {(d, n). \<exists>c \<in> set crates. crate_name c = n \<and> (\<exists>ds. depends_on c = Some ds \<and> d \<in> set ds)}"

lemma affects_rel_Cons:
  "affects_rel (c # cs) = affects_rel cs \<union> (case depends_on c of None \<Rightarrow> {} | Some ds \<Rightarrow> set ds \<times> {crate_name c})"
  by (auto simp: affects_rel_def split: option.splits)

lemma propagate_pass_sound:
  "set cs \<subseteq> set crates \<Longrightarrow> fst (propagate_pass cs result_set) \<subseteq> (affects_rel crates)\<^sup>* `` result_set"
proof (induction cs arbitrary: result_set)
  case Nil
  then show ?case by auto
next
  case (Cons c cs)
  let ?R = "affects_rel crates"
  have IH: "fst (propagate_pass cs S) \<subseteq> ?R\<^sup>* `` S" for S using Cons by simp
  have new: "?R\<^sup>* `` insert (crate_name c) result_set \<subseteq> ?R\<^sup>* `` result_set"
    if "depends_on c = Some ds" "d \<in> set ds" "d \<in> result_set" for ds d
  proof -
    have "(d, crate_name c) \<in> ?R" using that Cons.prems by (auto simp: affects_rel_def)
    with that(3) show ?thesis by (auto intro: converse_rtrancl_into_rtrancl)
  qed
  show ?case using IH [of result_set] IH [of "insert (crate_name c) result_set"] new
    by (auto split: option.split) (meson in_mono)+
qed

lemma propagate_pass_stops:
  "\<not> snd (propagate_pass cs result_set) \<Longrightarrow>
   fst (propagate_pass cs result_set) = result_set \<and> affects_rel cs `` result_set \<subseteq> result_set"
proof (induction cs)
  case (Cons c cs)
  then have "fst (propagate_pass (c # cs) result_set) = result_set \<and> affects_rel cs `` result_set \<subseteq> result_set
      \<and> (crate_name c \<in> result_set \<or> (\<forall>ds. depends_on c = Some ds \<longrightarrow> set ds \<inter> result_set = {}))"
    by (auto split: if_splits option.splits)
  then show ?case unfolding affects_rel_Cons by (auto split: option.splits)
qed (simp add: affects_rel_def)

lemma propagate_loop_closure: "propagate_loop crates result_set = (affects_rel crates)\<^sup>* `` result_set"
proof (induction crates result_set rule: propagate_loop.induct)
  case (1 crates result_set)
  let ?R = "affects_rel crates"
  obtain S' added where pass: "propagate_pass crates result_set = (S', added)" by (cases "propagate_pass crates result_set")
  then have grow: "result_set \<subseteq> S'" "S' \<subseteq> ?R\<^sup>* `` result_set"
    using propagate_pass_grows [of result_set crates] propagate_pass_sound [of crates crates result_set] by auto
  show ?case
  proof (cases added)
    case True
    have "?R\<^sup>* `` S' \<subseteq> ?R\<^sup>* `` (?R\<^sup>* `` result_set)" using grow(2) by (rule Image_mono [OF order_refl])
    also have "\<dots> = ?R\<^sup>* `` result_set" by (metis relcomp_Image rtrancl_idemp_self_comp)
    finally have "?R\<^sup>* `` S' = ?R\<^sup>* `` result_set" using Image_mono [OF order_refl grow(1)] by (intro equalityI)
    with 1 pass True show ?thesis by (simp add: propagate_loop.simps [of crates result_set])
  next
    case False
    then have "S' = result_set" "?R `` result_set \<subseteq> result_set"
      using pass propagate_pass_stops [of crates result_set] by auto
    with pass False show ?thesis by (simp add: propagate_loop.simps [of crates result_set] Image_closed_trancl)
  qed
qed

text \<open>
  A change reaches exactly its dependents: starting from the changed names, the crates taken along are
  those that reach one of them through any number of \<open>depends_on\<close> entries, each crate that was not itself changed
  once when crate names are distinct, and the changed ones first, in the order they were given.
\<close>
theorem changes_reach_dependents:
  "set (propagate_dependents crates changed) = (affects_rel crates)\<^sup>* `` set changed
   \<and> take (length changed) (propagate_dependents crates changed) = changed
   \<and> (distinct (map crate_name crates) \<and> distinct changed \<longrightarrow> distinct (propagate_dependents crates changed))"
proof -
  let ?S = "(affects_rel crates)\<^sup>* `` set changed"
  have names: "x \<in> set changed \<or> x \<in> crate_name ` set crates" if "x \<in> ?S" for x
  proof -
    from that obtain y where y: "y \<in> set changed" and "(y, x) \<in> (affects_rel crates)\<^sup>*" by blast
    from this(2) show ?thesis by (cases rule: rtranclE) (use y in \<open>auto simp: affects_rel_def\<close>)
  qed
  have changed: "filter (\<lambda>n. n \<in> ?S) changed = changed" by (auto simp: filter_id_conv)
  have P: "propagate_dependents crates changed
      = changed @ map crate_name (filter (\<lambda>c. crate_name c \<in> ?S \<and> crate_name c \<notin> set changed) crates)"
    unfolding propagate_dependents_def Let_def propagate_loop_closure by (simp only: changed)
  have "set (propagate_dependents crates changed) = ?S" unfolding P using names by (auto 4 3)
  moreover have "distinct (propagate_dependents crates changed)" if "distinct (map crate_name crates)" "distinct changed"
    unfolding P using that by (auto simp: distinct_map_filter)
  ultimately show ?thesis using P by simp
qed

theorem changes_reach_dependents_witness:
  "distinct (propagate_dependents [demo_crate ''cli'' [''core''], demo_crate ''core'' []] [''core''])"
  using changes_reach_dependents [of "[demo_crate ''cli'' [''core''], demo_crate ''core'' []]" "[''core'']"]
  by (simp add: demo_crate_def)

end
