(* ===== verification/TagShape.thy ===== *)
theory TagShape
  imports SemVer
begin

section \<open>The tags a rollback may touch\<close>

text \<open>
  \<open>cli/src/commands/tag/rollback/tags.rs\<close> and the option types of \<open>types.rs\<close>: the two shapes of a
  release tag as the regular expressions of the source, the \<open>--scope\<close> filter, the message of the revert
  commit and the prefixes by which a later rollback recognises it. The regex engine is a third-party
  crate; what is used of it is that an anchored pattern matches exactly the words of its language, which is
  how \<open>regex_match\<close> below is justified.
\<close>

subsection \<open>Regular expressions\<close>

datatype regex = Void | Eps | Cls "char \<Rightarrow> bool" | Seq regex regex | Alt regex regex | Star regex

fun lang :: "regex \<Rightarrow> string set" where
  "lang Void = {}"
| "lang Eps = {[]}"
| "lang (Cls p) = {[c] |c. p c}"
| "lang (Seq r s) = {u @ v |u v. u \<in> lang r \<and> v \<in> lang s}"
| "lang (Alt r s) = lang r \<union> lang s"
| "lang (Star r) = {concat ws |ws. set ws \<subseteq> lang r}"

fun nullable :: "regex \<Rightarrow> bool" where
  "nullable Void = False"
| "nullable Eps = True"
| "nullable (Cls p) = False"
| "nullable (Seq r s) = (nullable r \<and> nullable s)"
| "nullable (Alt r s) = (nullable r \<or> nullable s)"
| "nullable (Star r) = True"

fun deriv :: "char \<Rightarrow> regex \<Rightarrow> regex" where
  "deriv c Void = Void"
| "deriv c Eps = Void"
| "deriv c (Cls p) = (if p c then Eps else Void)"
| "deriv c (Seq r s) = (if nullable r then Alt (Seq (deriv c r) s) (deriv c s) else Seq (deriv c r) s)"
| "deriv c (Alt r s) = Alt (deriv c r) (deriv c s)"
| "deriv c (Star r) = Seq (deriv c r) (Star r)"

definition regex_match :: "regex \<Rightarrow> string \<Rightarrow> bool" where
  "regex_match r s = nullable (fold deriv s r)"

definition Lit :: "char \<Rightarrow> regex" where
  "Lit c = Cls (\<lambda>x. x = c)"

definition Plus1 :: "regex \<Rightarrow> regex" where
  "Plus1 r = Seq r (Star r)"

definition Optional :: "regex \<Rightarrow> regex" where
  "Optional r = Alt r Eps"

lemma nullable_iff: "nullable r \<longleftrightarrow> [] \<in> lang r"
  by (induction r) (auto intro: exI [of _ "[]"])

lemma star_Cons:
  "c # s \<in> lang (Star r) \<longleftrightarrow> (\<exists>u v. s = u @ v \<and> c # u \<in> lang r \<and> v \<in> lang (Star r))"
proof
  assume "c # s \<in> lang (Star r)"
  then obtain ws where ws: "c # s = concat ws" "set ws \<subseteq> lang r" by auto
  let ?ws = "dropWhile (\<lambda>w. w = []) ws"
  have "concat ws = concat ?ws" by (induction ws) auto
  moreover have "set ?ws \<subseteq> lang r" using ws(2) set_dropWhileD by fastforce
  moreover have "?ws \<noteq> []" using calculation(1) ws(1) by (metis concat.simps(1) list.distinct(1))
  moreover from this obtain w ws' where "?ws = w # ws'" "w \<noteq> []"
    using hd_dropWhile [of "\<lambda>w. w = []" ws] by (metis list.exhaust_sel)
  ultimately show "\<exists>u v. s = u @ v \<and> c # u \<in> lang r \<and> v \<in> lang (Star r)"
    using ws(1) by (cases w) auto
next
  assume "\<exists>u v. s = u @ v \<and> c # u \<in> lang r \<and> v \<in> lang (Star r)"
  then obtain u ws where "s = u @ concat ws" "c # u \<in> lang r" "set ws \<subseteq> lang r" by auto
  then show "c # s \<in> lang (Star r)" by (auto intro!: exI [of _ "(c # u) # ws"])
qed

lemma lang_deriv: "s \<in> lang (deriv c r) \<longleftrightarrow> c # s \<in> lang r"
proof (induction r arbitrary: s)
  case (Seq r1 r2)
  then show ?case by (auto simp: nullable_iff append_eq_Cons_conv Cons_eq_append_conv)
next
  case (Star r)
  show ?case unfolding star_Cons using Star.IH by auto
qed auto

text \<open>The matcher decides the language of the expression.\<close>

theorem regex_match_lang: "regex_match r s \<longleftrightarrow> s \<in> lang r"
proof -
  have "nullable (fold deriv s r) \<longleftrightarrow> s \<in> lang r"
    by (induction s arbitrary: r) (simp_all add: nullable_iff lang_deriv)
  then show ?thesis by (simp add: regex_match_def)
qed

lemma lang_seq: "s \<in> lang (Seq p q) \<longleftrightarrow> (\<exists>u v. s = u @ v \<and> u \<in> lang p \<and> v \<in> lang q)"
  by auto

lemma lang_star_cls: "s \<in> lang (Star (Cls p)) \<longleftrightarrow> list_all p s"
proof (induction s)
  case Nil
  have "[] = concat [] \<and> set [] \<subseteq> lang (Cls p)" by simp
  then show ?case by (simp only: lang.simps mem_Collect_eq list.pred_inject) blast
next
  case (Cons c s)
  then show ?case unfolding star_Cons by (simp only: lang.simps(3)) auto
qed

lemma lang_plus_cls: "s \<in> lang (Plus1 (Cls p)) \<longleftrightarrow> s \<noteq> [] \<and> list_all p s"
  unfolding Plus1_def lang_seq lang_star_cls by (cases s) (auto intro: exI [of _ "[_]"])

lemma lang_opt: "s \<in> lang (Optional r) \<longleftrightarrow> s = [] \<or> s \<in> lang r"
  by (auto simp: Optional_def)

lemma lang_lit: "s \<in> lang (Lit c) \<longleftrightarrow> s = [c]"
  by (auto simp: Lit_def)

subsection \<open>Shapes\<close>

definition tag_ident_char :: "char \<Rightarrow> bool" where
  "tag_ident_char c \<longleftrightarrow> is_ascii_alphanumeric c \<or> c = CHR ''.'' \<or> c = CHR ''-''"

definition version_shape :: regex where
  "version_shape =
     Seq (Plus1 (Cls is_ascii_digit)) (Seq (Lit CHR ''.'')
       (Seq (Plus1 (Cls is_ascii_digit)) (Seq (Lit CHR ''.'')
         (Seq (Plus1 (Cls is_ascii_digit))
           (Seq (Optional (Seq (Lit CHR ''-'') (Plus1 (Cls tag_ident_char))))
             (Optional (Seq (Lit CHR ''+'') (Plus1 (Cls tag_ident_char)))))))))"

definition LOCKSTEP_TAG_RE :: regex where
  "LOCKSTEP_TAG_RE = Seq (Lit CHR ''v'') version_shape"

definition PER_CRATE_TAG_RE :: regex where
  "PER_CRATE_TAG_RE =
     Seq (Cls (\<lambda>c. is_ascii_alphabetic c \<or> c = CHR ''_''))
       (Seq (Star (Cls (\<lambda>c. is_ascii_alphanumeric c \<or> c = CHR ''_'' \<or> c = CHR ''-'')))
         (Seq (Lit CHR ''-'') (Seq (Lit CHR ''v'') version_shape)))"

datatype tag_kind = Lockstep | PerCrate

definition classify_tag :: "string \<Rightarrow> tag_kind option" where
  "classify_tag tag =
     (if regex_match LOCKSTEP_TAG_RE tag then Some Lockstep
      else if regex_match PER_CRATE_TAG_RE tag then Some PerCrate
      else None)"

datatype rollback_tag_scope = ScopeAll | ScopeLockstep | ScopePerCrate

definition parse_scope :: "string \<Rightarrow> (string, rollback_tag_scope) result" where
  "parse_scope s =
     (if s = ''all'' then Inr ScopeAll
      else if s = ''lockstep'' then Inr ScopeLockstep
      else if s = ''per-crate'' \<or> s = ''percrate'' then Inr ScopePerCrate
      else Inl (''invalid --scope value: '' @ s @ '' (expected all | lockstep | per-crate)''))"

definition scope_includes :: "rollback_tag_scope \<Rightarrow> tag_kind \<Rightarrow> bool" where
  "scope_includes scope kind =
     (case (scope, kind) of
        (ScopeAll, _) \<Rightarrow> True
      | (ScopeLockstep, Lockstep) \<Rightarrow> True
      | (ScopePerCrate, PerCrate) \<Rightarrow> True
      | _ \<Rightarrow> False)"

datatype rollback_mode = ModeRevert | ModeReset

definition parse_mode :: "string \<Rightarrow> (string, rollback_mode) result" where
  "parse_mode s =
     (if s = ''revert'' then Inr ModeRevert
      else if s = ''reset'' then Inr ModeReset
      else Inl (''invalid --mode value: '' @ s @ '' (expected revert | reset)''))"

subsection \<open>The revert commit\<close>

definition release_commit_prefix :: string where
  "release_commit_prefix = ''chore(release): ''"

definition rollback_subject_prefix :: string where
  "rollback_subject_prefix = release_commit_prefix @ ''rollback''"

definition ANODIZER_REVERT_SUBJECT_PREFIX :: string where
  "ANODIZER_REVERT_SUBJECT_PREFIX = ''Revert '' @ [CHR 0x22] @ release_commit_prefix"

definition short_sha :: "string \<Rightarrow> string" where
  "short_sha sha = (if length sha > 7 then take 7 sha else sha)"

definition build_revert_message :: "string \<Rightarrow> string list \<Rightarrow> bool \<Rightarrow> string" where
  "build_revert_message target_sha deleted_tags preview =
     (let primary = (case List.find (regex_match LOCKSTEP_TAG_RE) deleted_tags of
                       Some t \<Rightarrow> t
                     | None \<Rightarrow> (case deleted_tags of t # _ \<Rightarrow> t | [] \<Rightarrow> ''release''));
          body = rollback_subject_prefix @ '' '' @ primary @ '' [skip ci]'' @ [CHR 0x0A, CHR 0x0A]
            @ ''Reverts '' @ short_sha target_sha @ ''.''
      in if deleted_tags = [] then body
         else body @ [CHR 0x0A] @ (if preview then ''Tags that WOULD be deleted'' else ''Tags deleted'')
            @ '': '' @ join_with '', '' deleted_tags)"

text \<open>A commit the intervening-commit check tolerates: one of the tool's own rollbacks.\<close>

definition own_rollback_subject :: "string \<Rightarrow> bool" where
  "own_rollback_subject subject \<longleftrightarrow>
     starts_with subject ANODIZER_REVERT_SUBJECT_PREFIX \<or> starts_with subject rollback_subject_prefix"

definition intervening_commits :: "(string \<times> string) list \<Rightarrow> (string \<times> string) list" where
  "intervening_commits commits = filter (\<lambda>(sha, subject). \<not> own_rollback_subject subject) commits"

subsection \<open>What the shapes accept\<close>

lemmas shape_lang = regex_match_lang lang_seq lang_lit lang_opt lang_plus_cls lang_star_cls

definition digits_field :: "string \<Rightarrow> bool" where
  "digits_field s \<longleftrightarrow> s \<noteq> [] \<and> list_all is_ascii_digit s"

definition suffix_field :: "char \<Rightarrow> string \<Rightarrow> bool" where
  "suffix_field c s \<longleftrightarrow> s = [] \<or> (\<exists>t. s = c # t \<and> t \<noteq> [] \<and> list_all tag_ident_char t)"

lemma lang_seq_cls: "t \<in> lang (Seq (Cls p) r) \<longleftrightarrow> (\<exists>c u. t = c # u \<and> p c \<and> u \<in> lang r)"
proof
  assume "\<exists>c u. t = c # u \<and> p c \<and> u \<in> lang r"
  then obtain c u where "t = [c] @ u" "[c] \<in> lang (Cls p)" "u \<in> lang r" by auto
  then show "t \<in> lang (Seq (Cls p) r)" unfolding lang_seq by blast
qed auto

lemma lang_seq_lit: "t \<in> lang (Seq (Lit c) r) \<longleftrightarrow> (\<exists>u. t = c # u \<and> u \<in> lang r)"
  by (auto simp: Lit_def lang_seq_cls simp del: lang.simps)

lemma version_shape_lang:
  "s \<in> lang version_shape \<longleftrightarrow> (\<exists>a b c pre meta. s = a @ ''.'' @ b @ ''.'' @ c @ pre @ meta
     \<and> digits_field a \<and> digits_field b \<and> digits_field c \<and> suffix_field CHR ''-'' pre \<and> suffix_field CHR ''+'' meta)"
  (is "?l \<longleftrightarrow> (\<exists>a b c pre meta. ?r a b c pre meta)")
proof -
  have suffix: "t \<in> lang (Optional (Seq (Lit c) (Plus1 (Cls tag_ident_char)))) \<longleftrightarrow> suffix_field c t" for t c
    unfolding lang_opt lang_seq_lit lang_plus_cls suffix_field_def by blast
  have l: "?l \<longleftrightarrow> (\<exists>a t. s = a @ t \<and> digits_field a \<and> (\<exists>u. t = CHR ''.'' # u \<and> (\<exists>b t. u = b @ t \<and> digits_field b
      \<and> (\<exists>u. t = CHR ''.'' # u \<and> (\<exists>c t. u = c @ t \<and> digits_field c
      \<and> (\<exists>pre meta. t = pre @ meta \<and> suffix_field CHR ''-'' pre \<and> suffix_field CHR ''+'' meta))))))"
    unfolding version_shape_def lang_seq [of _ "Plus1 _"] lang_seq_lit lang_seq [of _ "Optional _"]
      suffix lang_plus_cls digits_field_def ..
  show ?thesis
  proof
    assume ?l
    then obtain a b c pre meta where "?r a b c pre meta" unfolding l by fastforce
    then show "\<exists>a b c pre meta. ?r a b c pre meta" by (intro exI)
  next
    assume "\<exists>a b c pre meta. ?r a b c pre meta"
    then obtain a b c pre meta where "?r a b c pre meta" by (elim exE)
    then have s: "s = a @ CHR ''.'' # b @ CHR ''.'' # c @ pre @ meta" and fields: "digits_field a" "digits_field b" "digits_field c"
      "suffix_field CHR ''-'' pre" "suffix_field CHR ''+'' meta" by simp_all
    show ?l unfolding l by (intro exI conjI; (rule s refl fields)+)
  qed
qed

lemma lockstep_iff: "regex_match LOCKSTEP_TAG_RE tag \<longleftrightarrow> (\<exists>s. tag = CHR ''v'' # s \<and> s \<in> lang version_shape)"
  unfolding LOCKSTEP_TAG_RE_def regex_match_lang lang_seq [of _ "Lit _"] lang_lit by auto

definition crate_name_shape :: "string \<Rightarrow> bool" where
  "crate_name_shape n \<longleftrightarrow> (\<exists>c t. n = c # t \<and> (is_ascii_alphabetic c \<or> c = CHR ''_'')
     \<and> list_all (\<lambda>c. is_ascii_alphanumeric c \<or> c = CHR ''_'' \<or> c = CHR ''-'') t)"

lemma per_crate_iff:
  "regex_match PER_CRATE_TAG_RE tag \<longleftrightarrow>
     (\<exists>n s. tag = n @ ''-v'' @ s \<and> crate_name_shape n \<and> s \<in> lang version_shape)" (is "?l \<longleftrightarrow> (\<exists>n s. ?r n s)")
proof -
  let ?ok = "\<lambda>c. is_ascii_alphanumeric c \<or> c = CHR ''_'' \<or> c = CHR ''-''"
  have l: "?l \<longleftrightarrow> (\<exists>c u. tag = c # u \<and> (is_ascii_alphabetic c \<or> c = CHR ''_'') \<and> (\<exists>n t. u = n @ t \<and> list_all ?ok n
      \<and> (\<exists>u. t = CHR ''-'' # u \<and> (\<exists>s. u = CHR ''v'' # s \<and> s \<in> lang version_shape))))"
    unfolding PER_CRATE_TAG_RE_def regex_match_lang lang_seq_cls lang_seq [of _ "Star _"] lang_star_cls lang_seq_lit ..
  show ?thesis
  proof
    assume ?l
    then obtain c n s where "tag = (c # n) @ ''-v'' @ s" "is_ascii_alphabetic c \<or> c = CHR ''_''" "list_all ?ok n"
      "s \<in> lang version_shape" unfolding l by fastforce
    then show "\<exists>n s. ?r n s" unfolding crate_name_shape_def by blast
  next
    assume "\<exists>n s. ?r n s"
    then obtain c n s where tag: "tag = c # n @ CHR ''-'' # CHR ''v'' # s" and "is_ascii_alphabetic c \<or> c = CHR ''_''"
      "list_all ?ok n" "s \<in> lang version_shape" unfolding crate_name_shape_def by auto
    then show ?l unfolding l by blast
  qed
qed

text \<open>A field of digits has neither a dot nor a dash, so the first dot of a lockstep tag comes before any dash.\<close>

lemma digits_field_chars: "digits_field a \<Longrightarrow> c \<in> set a \<Longrightarrow> is_ascii_digit c"
  by (simp add: digits_field_def list_all_iff)

lemma crate_name_shape_chars:
  "crate_name_shape n \<Longrightarrow> c \<in> set n \<Longrightarrow> is_ascii_alphanumeric c \<or> c = CHR ''_'' \<or> c = CHR ''-''"
  by (auto simp: crate_name_shape_def list_all_iff is_ascii_alphanumeric_def)

lemma shapes_disjoint: "regex_match LOCKSTEP_TAG_RE tag \<Longrightarrow> \<not> regex_match PER_CRATE_TAG_RE tag"
proof
  assume l: "regex_match LOCKSTEP_TAG_RE tag" and p: "regex_match PER_CRATE_TAG_RE tag"
  from l obtain a s' where v: "tag = CHR ''v'' # a @ CHR ''.'' # s'" and a: "digits_field a"
    unfolding lockstep_iff version_shape_lang by auto
  from p obtain n s where w: "tag = n @ CHR ''-'' # CHR ''v'' # s" and n: "crate_name_shape n"
    unfolding per_crate_iff by auto
  have dot: "CHR ''.'' \<notin> set n" using crate_name_shape_chars [OF n, of "CHR ''.''"] by (auto simp: is_ascii_alphanumeric_def)
  have dash: "CHR ''-'' \<notin> set (CHR ''v'' # a)" using digits_field_chars [OF a, of "CHR ''-''"] by auto
  from v w have "(CHR ''v'' # a) @ CHR ''.'' # s' = n @ CHR ''-'' # CHR ''v'' # s" by simp
  then consider us where "CHR ''v'' # a = n @ us" "us @ CHR ''.'' # s' = CHR ''-'' # CHR ''v'' # s"
    | us where "(CHR ''v'' # a) @ us = n" "CHR ''.'' # s' = us @ CHR ''-'' # CHR ''v'' # s"
    unfolding append_eq_append_conv2 by metis
  then show False
  proof cases
    case 1
    then show False using dash by (cases us) auto
  next
    case 2
    then show False using dot by (cases us) auto
  qed
qed

lemma classify_iff:
  "classify_tag tag = Some Lockstep \<longleftrightarrow> regex_match LOCKSTEP_TAG_RE tag"
  "classify_tag tag = Some PerCrate \<longleftrightarrow> regex_match PER_CRATE_TAG_RE tag"
  "classify_tag tag = None \<longleftrightarrow> \<not> regex_match LOCKSTEP_TAG_RE tag \<and> \<not> regex_match PER_CRATE_TAG_RE tag"
  using shapes_disjoint by (auto simp: classify_tag_def)

text \<open>Versions whose suffixes use the characters of the SemVer grammar are of the shape.\<close>

definition tag_version :: "sem_ver \<Rightarrow> bool" where
  "tag_version v \<longleftrightarrow>
     (case prerelease v of None \<Rightarrow> True | Some p \<Rightarrow> p \<noteq> [] \<and> list_all tag_ident_char p)
     \<and> (case build_metadata v of None \<Rightarrow> True | Some m \<Rightarrow> m \<noteq> [] \<and> list_all tag_ident_char m)"

lemma printed_version_shape: "tag_version v \<Longrightarrow> version_string v \<in> lang version_shape"
proof -
  assume v: "tag_version v"
  have "digits_field (show_nat n)" for n by (simp add: digits_field_def show_nat_digits)
  moreover have "suffix_field CHR ''-'' (case prerelease v of None \<Rightarrow> [] | Some p \<Rightarrow> ''-'' @ p)"
    "suffix_field CHR ''+'' (case build_metadata v of None \<Rightarrow> [] | Some p \<Rightarrow> ''+'' @ p)"
    using v by (auto simp: tag_version_def suffix_field_def split: option.splits)
  ultimately show ?thesis
    unfolding version_shape_lang version_string_def raw_version_string_def append_assoc by blast
qed

text \<open>
  Every character of a tag a rollback accepts is a letter, a digit or one of five marks; in particular a
  tag below a monorepo prefix that ends in a slash is never accepted.
\<close>

lemma tag_ident_char_cases: "tag_ident_char c \<Longrightarrow> c \<noteq> CHR ''/'' \<and> c \<noteq> CHR 0x0A"
  by (auto simp: tag_ident_char_def is_ascii_alphanumeric_def)

lemma version_shape_chars: "s \<in> lang version_shape \<Longrightarrow> c \<in> set s \<Longrightarrow> c \<noteq> CHR ''/'' \<and> c \<noteq> CHR 0x0A"
proof -
  assume "s \<in> lang version_shape" and c: "c \<in> set s"
  then obtain a b d pre meta where s: "s = a @ ''.'' @ b @ ''.'' @ d @ pre @ meta" and
    digits: "digits_field a" "digits_field b" "digits_field d" and sfx: "suffix_field CHR ''-'' pre" "suffix_field CHR ''+'' meta"
    unfolding version_shape_lang by blast
  have "\<not> is_ascii_digit CHR ''/''" "\<not> is_ascii_digit CHR 0x0A" by simp_all
  moreover have "x \<noteq> CHR ''/'' \<and> x \<noteq> CHR 0x0A" if "suffix_field k t" "x \<in> set t" "k \<noteq> CHR ''/''" "k \<noteq> CHR 0x0A" for k t x
    using that tag_ident_char_cases [of x] by (auto simp: suffix_field_def list_all_iff)
  ultimately show ?thesis
    using c digits_field_chars [OF digits(1), of c] digits_field_chars [OF digits(2), of c]
      digits_field_chars [OF digits(3), of c] sfx unfolding s by auto
qed

lemma classified_chars: "classify_tag tag \<noteq> None \<Longrightarrow> c \<in> set tag \<Longrightarrow> c \<noteq> CHR ''/'' \<and> c \<noteq> CHR 0x0A"
proof -
  assume cl: "classify_tag tag \<noteq> None" and c: "c \<in> set tag"
  then consider s where "tag = CHR ''v'' # s" "s \<in> lang version_shape"
    | n s where "tag = n @ ''-v'' @ s" "crate_name_shape n" "s \<in> lang version_shape"
    unfolding classify_iff(3) lockstep_iff per_crate_iff by blast
  then show ?thesis
  proof cases
    case 1
    then show ?thesis using c version_shape_chars by auto
  next
    case 2
    then show ?thesis
      using c version_shape_chars [OF 2(3), of c] crate_name_shape_chars [OF 2(2), of c]
      by (auto simp: is_ascii_alphanumeric_def)
  qed
qed

lemma monorepo_tag_not_classified: "CHR ''/'' \<in> set p \<Longrightarrow> classify_tag (p @ tag) = None"
  using classified_chars [of "p @ tag" "CHR ''/''"] by (metis Un_iff set_append)

text \<open>The subject line that is written is one the next rollback recognises as its own.\<close>

lemma own_message_recognised: "own_rollback_subject (build_revert_message sha tags preview)"
  by (simp add: own_rollback_subject_def build_revert_message_def Let_def starts_with_def)

lemma tag_shapes_exact:
  "(classify_tag tag = Some Lockstep \<longleftrightarrow> (\<exists>s. tag = ''v'' @ s \<and> s \<in> lang version_shape))
   \<and> (classify_tag tag = Some PerCrate \<longleftrightarrow> (\<exists>n s. tag = n @ ''-v'' @ s \<and> crate_name_shape n \<and> s \<in> lang version_shape))
   \<and> (\<forall>kind. classify_tag tag = Some kind \<longrightarrow>
        (scope_includes ScopeAll kind
          \<and> (scope_includes ScopeLockstep kind \<longleftrightarrow> \<not> scope_includes ScopePerCrate kind)))"
  unfolding classify_iff lockstep_iff per_crate_iff
  by (auto simp: scope_includes_def split: tag_kind.splits)

end
