(* ===== verification/TagGuard.thy ===== *)
theory TagGuard
  imports RunSummary Tags CrateGraph TagShape
begin

section \<open>The published-state guard\<close>

text \<open>
  \<open>cli/src/commands/tag/rollback/guard.rs\<close>, \<open>registry_probe.rs\<close> and \<open>release_probe.rs\<close>: before a tag is
  destroyed, every kind of evidence that its version is already live somewhere it cannot be taken back
  from is consulted, and evidence that cannot be had counts as evidence against, except at the two
  advisory registries. Modelled are the mapping of a tag to the crates it versions, the three registry
  passes with their deduplication, the run summaries on disk and the GitHub release probe.

  The registry clients and the \<open>gh\<close> process are arguments (\<open>burn_probes\<close>, \<open>release_env\<close>); each pass asks
  for a key at most once, so a function from the key to the answer says all there is to say. The passes run their
  probes on a bounded pool and classify the answers in the order in which the probes were collected, which is a
  \<open>map\<close>. Refusals carry the evidence they are built from; the prose around it and the status lines are left out.
\<close>

subsection \<open>Configuration\<close>

datatype npm_mode = OptionalDeps | Postinstall

record npm_config =
  npm_name :: "string option"
  npm_metapackage :: "string option"
  npm_skip_metapackage :: "string_or_bool option"
  npm_mode_of :: npm_mode
  npm_registry :: "string option"

record pypi_config =
  pypi_ids :: "string list option"
  pypi_name :: "string option"
  pypi_index_url :: "string option"

record monorepo_config =
  mono_tag_prefix :: "string option"

record repo_config =
  rc_dist :: string
  rc_project_name :: string
  rc_preflight_strict :: bool
  rc_monorepo :: "monorepo_config option"
  rc_crates :: "crate_config list"
  rc_workspaces :: "workspace_config list option"
  rc_npms :: "npm_config list option"
  rc_pypis :: "pypi_config list option"

definition monorepo_tag_prefix :: "repo_config \<Rightarrow> string option" where
  "monorepo_tag_prefix config = Option.bind (rc_monorepo config) mono_tag_prefix"

definition universe_of :: "repo_config \<Rightarrow> crate_config list" where
  "universe_of config = crate_universe (rc_crates config) (rc_workspaces config)"

definition primary_crate_name :: "repo_config \<Rightarrow> string option" where
  "primary_crate_name config = (case universe_of config of c # _ \<Rightarrow> Some (crate_name c) | [] \<Rightarrow> None)"

definition tag_family_template_of :: "crate_config \<Rightarrow> string" where
  "tag_family_template_of c = crate_tag_family_template (crate_name c) (crate_tag_template c)"

definition resolve_dist_dir :: "string \<Rightarrow> repo_config \<Rightarrow> string" where
  "resolve_dist_dir cwd config =
     (if starts_with (rc_dist config) ''/'' then rc_dist config else path_join cwd (rc_dist config))"

subsection \<open>Names that can be resolved without a release context\<close>

definition is_templated :: "string \<Rightarrow> bool" where
  "is_templated s = contains s ''{{''"

definition trim_end_slashes :: "string \<Rightarrow> string" where
  "trim_end_slashes s = rev (dropWhile (\<lambda>c. c = CHR ''/'') (rev s))"

text \<open>\<open>.map(str::trim).filter(|s| !s.is_empty())\<close>\<close>

definition nonblank :: "string option \<Rightarrow> string option" where
  "nonblank s = (case s of Some x \<Rightarrow> if trim x = [] then None else Some (trim x) | None \<Rightarrow> None)"

definition targets_crates_io :: "cargo_publish_config option \<Rightarrow> bool" where
  "targets_crates_io cfg =
     (case cfg of None \<Rightarrow> True | Some c \<Rightarrow> cargo_registry c = None \<and> cargo_index c = None)"

definition community_push_source :: string where
  "community_push_source = ''https://push.chocolatey.org/''"

definition push_source :: "chocolatey_config \<Rightarrow> string" where
  "push_source cfg = (case choco_source_repo cfg of Some s \<Rightarrow> s | None \<Rightarrow> community_push_source)"

definition targets_community_gallery :: "chocolatey_config \<Rightarrow> bool" where
  "targets_community_gallery cfg \<longleftrightarrow>
     to_ascii_lowercase (trim_end_slashes (push_source cfg)) = to_ascii_lowercase (trim_end_slashes community_push_source)"

definition static_package_id :: "string \<Rightarrow> chocolatey_config \<Rightarrow> string option" where
  "static_package_id name cfg =
     (let ident = (case choco_name cfg of Some n \<Rightarrow> n | None \<Rightarrow> name) in if is_templated ident then None else Some ident)"

definition resolve_repo_owner_name :: "repository_config option \<Rightarrow> (string \<times> string) option" where
  "resolve_repo_owner_name repo =
     Option.bind repo (\<lambda>r. case (repo_owner r, repo_name r) of (Some o1, Some n) \<Rightarrow> Some (o1, n) | _ \<Rightarrow> None)"

definition auto_package_identifier :: "string \<Rightarrow> string \<Rightarrow> string" where
  "auto_package_identifier publisher1 name = filter (\<lambda>c. c \<noteq> CHR '' '') publisher1 @ ''.'' @ name"

definition static_package_identifier :: "string \<Rightarrow> winget_config \<Rightarrow> string option" where
  "static_package_identifier crate cfg =
     (case wg_package_identifier cfg of
        Some ident \<Rightarrow> if is_templated ident then None else Some ident
      | None \<Rightarrow>
          (let name = (case wg_name cfg of Some n \<Rightarrow> n | None \<Rightarrow> crate);
               owner = map_option fst (resolve_repo_owner_name (wg_repository cfg))
           in case (case wg_publisher cfg of Some p \<Rightarrow> if p \<noteq> [] then Some p else owner | None \<Rightarrow> owner) of
                None \<Rightarrow> None
              | Some publisher1 \<Rightarrow>
                  if is_templated name \<or> is_templated publisher1 then None
                  else Some (auto_package_identifier publisher1 name)))"

definition resolve_winget_upstream :: "winget_config \<Rightarrow> string \<times> string" where
  "resolve_winget_upstream cfg =
     (case Option.bind (Option.bind (wg_repository cfg) repo_pull_request) pr_base of
        Some base \<Rightarrow>
          (case (base_owner base, base_name base) of
             (Some o1, Some n) \<Rightarrow> (o1, n) | _ \<Rightarrow> (''microsoft'', ''winget-pkgs''))
      | None \<Rightarrow> (''microsoft'', ''winget-pkgs''))"

definition npm_static_entry_crate_name :: "repo_config \<Rightarrow> string" where
  "npm_static_entry_crate_name config =
     (case primary_crate_name config of Some n \<Rightarrow> n | None \<Rightarrow> rc_project_name config)"

definition npm_resolve_name :: "npm_config \<Rightarrow> string \<Rightarrow> string" where
  "npm_resolve_name cfg crate = (case nonblank (npm_name cfg) of Some n \<Rightarrow> n | None \<Rightarrow> crate)"

definition resolve_metapackage :: "npm_config \<Rightarrow> string \<Rightarrow> string" where
  "resolve_metapackage cfg crate =
     (case nonblank (npm_metapackage cfg) of
        Some n \<Rightarrow> n
      | None \<Rightarrow> (case nonblank (npm_name cfg) of Some n \<Rightarrow> n | None \<Rightarrow> crate))"

fun sob_is_template :: "string_or_bool \<Rightarrow> bool" where
  "sob_is_template (StringV s) = (CHR ''{'' \<in> set s)"
| "sob_is_template (BoolV b) = False"

fun sob_as_bool :: "string_or_bool \<Rightarrow> bool" where
  "sob_as_bool (StringV s) = is_true_spelling s"
| "sob_as_bool (BoolV b) = b"

definition static_published_name :: "string \<Rightarrow> npm_config \<Rightarrow> string option" where
  "static_published_name crate cfg =
     (let resolved = (\<lambda>name. if is_templated name then None else Some name)
      in case npm_mode_of cfg of
           Postinstall \<Rightarrow> resolved (npm_resolve_name cfg crate)
         | OptionalDeps \<Rightarrow>
             (case npm_skip_metapackage cfg of
                Some s \<Rightarrow> if sob_is_template s \<or> sob_as_bool s then None else resolved (resolve_metapackage cfg crate)
              | None \<Rightarrow> resolved (resolve_metapackage cfg crate)))"

definition npm_default_registry :: string where
  "npm_default_registry = ''https://registry.npmjs.org''"

definition static_registry :: "npm_config \<Rightarrow> string option" where
  "static_registry cfg =
     (case nonblank (npm_registry cfg) of
        Some r \<Rightarrow> if is_templated r then None else Some (trim_end_slashes r)
      | None \<Rightarrow> Some npm_default_registry)"

definition pypi_static_entry_crate_name :: "repo_config \<Rightarrow> pypi_config \<Rightarrow> string" where
  "pypi_static_entry_crate_name config cfg =
     (case Option.bind (pypi_ids cfg) (List.find (\<lambda>i. i \<noteq> [])) of
        Some i \<Rightarrow> i
      | None \<Rightarrow> (case primary_crate_name config of Some n \<Rightarrow> n | None \<Rightarrow> rc_project_name config))"

definition static_project_name :: "string \<Rightarrow> pypi_config \<Rightarrow> string option" where
  "static_project_name crate cfg =
     (case nonblank (pypi_name cfg) of
        Some n \<Rightarrow> if is_templated n then None else Some n
      | None \<Rightarrow> Some crate)"

definition pypi_default_repository :: string where
  "pypi_default_repository = ''https://upload.pypi.org/legacy/''"

definition static_repository :: "pypi_config \<Rightarrow> string option" where
  "static_repository cfg =
     (case nonblank (pypi_index_url cfg) of
        Some r \<Rightarrow> if is_templated r then None else Some r
      | None \<Rightarrow> Some pypi_default_repository)"

subsection \<open>Which crates a tag versions\<close>

definition versioned_by :: "string \<Rightarrow> crate_config \<Rightarrow> (crate_config \<times> string) option" where
  "versioned_by stripped c =
     (case strip_prefix stripped (per_crate_tag_prefix (crate_name c) (tag_family_template_of c)) of
        None \<Rightarrow> None
      | Some version \<Rightarrow> if is_ok (parse_semver version) then Some (c, version) else None)"

definition crates_versioned_by_tag :: "repo_config \<Rightarrow> string \<Rightarrow> (crate_config \<times> string) list" where
  "crates_versioned_by_tag config tag =
     (let stripped = (case monorepo_tag_prefix config of Some p \<Rightarrow> strip_monorepo_prefix tag p | None \<Rightarrow> tag)
      in List.map_filter (versioned_by stripped) (universe_of config))"

definition cargo_block :: "crate_config \<Rightarrow> cargo_publish_config option" where
  "cargo_block c = Option.bind (publish_cfg c) cargo"

definition stamps_crates_io :: "crate_config \<Rightarrow> bool" where
  "stamps_crates_io c = (case cargo_block c of Some cfg \<Rightarrow> targets_crates_io (Some cfg) | None \<Rightarrow> False)"

record tag_crate_mapping =
  mapped_probes :: "(string \<times> string) list"
  matched_non_crates_io :: nat

definition crates_io_versions_for_tag :: "repo_config \<Rightarrow> string \<Rightarrow> tag_crate_mapping" where
  "crates_io_versions_for_tag config tag =
     (let versioned = crates_versioned_by_tag config tag
      in \<lparr>mapped_probes = map (\<lambda>(c, version). (crate_name c, version)) (filter (\<lambda>(c, _). stamps_crates_io c) versioned),
          matched_non_crates_io = length (filter (\<lambda>(c, _). \<not> stamps_crates_io c) versioned)\<rparr>)"

subsection \<open>Probes, refusals and failures\<close>

record winget_probe_spec =
  wp_upstream :: string
  wp_package_id :: string
  wp_version :: string
  wp_search_in_title :: bool

record burn_probes =
  probe_crates_io :: "string \<Rightarrow> string \<Rightarrow> (string, bool) result"
  probe_npm :: "string \<Rightarrow> string \<Rightarrow> string \<Rightarrow> (string, bool) result"
  probe_pypi :: "string \<Rightarrow> string \<Rightarrow> string \<Rightarrow> (string, bool) result"
  probe_chocolatey :: "string \<Rightarrow> string \<Rightarrow> (string, string option) result"
  probe_winget :: "winget_probe_spec \<Rightarrow> (string, string option) result"

datatype immutable_probe = NpmProbe string string string string | PypiProbe string string string string

datatype moderated_probe = ChocolateyProbe string string string | WingetProbe string winget_probe_spec

datatype refusal =
    BurnedPerSummary "(string \<times> string list) list"
  | LiveOnCratesIo "(string \<times> string \<times> string) list" "string list"
  | LiveOnImmutable "immutable_probe list"
  | ConsumedAtModerated "(moderated_probe \<times> string) list"
  | ReleasePublished "string list"

datatype rollback_error =
    RollbackRefusal refusal
  | CratesIoUnreachable "(string \<times> string \<times> string) list"
  | TagsUnmapped "string list"
  | ImmutableUnreachable "immutable_probe list"
  | PackageUnresolvable "(string \<times> string) list"
  | OriginUnresolvable "string list" string
  | ReleaseIndeterminate "(string \<times> string) list"
  | NoTagsAt string
  | ConfigUnloadable string
  | NonBumpCommits "(string \<times> string) list"
  | UnwindRefused string string
  | PreviewUnreadable string string
  | AmbiguousBranch string "string list"
  | BranchUnknown string
  | CommandFailed string

text \<open>\<open>HashSet::insert\<close> as a filter: the first element of every key is kept.\<close>

fun first_of_key :: "('a \<Rightarrow> 'k) \<Rightarrow> 'k list \<Rightarrow> 'a list \<Rightarrow> 'a list" where
  "first_of_key key seen [] = []"
| "first_of_key key seen (x # xs) =
     (if key x \<in> set seen then first_of_key key seen xs else x # first_of_key key (key x # seen) xs)"

subsection \<open>The crates.io pass\<close>

definition crates_io_pending :: "repo_config \<Rightarrow> string list \<Rightarrow> (string \<times> string \<times> string) list" where
  "crates_io_pending config tags =
     first_of_key snd []
       (concat (map (\<lambda>tag. map (\<lambda>p. (tag, p)) (mapped_probes (crates_io_versions_for_tag config tag))) tags))"

definition crates_io_unmapped :: "repo_config \<Rightarrow> string list \<Rightarrow> string list" where
  "crates_io_unmapped config tags =
     filter (\<lambda>tag. let m = crates_io_versions_for_tag config tag in mapped_probes m = [] \<and> matched_non_crates_io m = 0) tags"

definition check_not_burned_on_crates_io ::
    "string list \<Rightarrow> string list \<Rightarrow> repo_config \<Rightarrow> burn_probes \<Rightarrow> (rollback_error, unit) result" where
  "check_not_burned_on_crates_io tags unsummarized config probes =
     (if \<not> list_ex stamps_crates_io (universe_of config) then Inr ()
      else
        let pending = crates_io_pending config tags;
            answer = (\<lambda>(tag, name, version). probe_crates_io probes name version);
            burned = filter (\<lambda>p. answer p = Inr True) pending;
            squat_suspects = union_into [] (map (\<lambda>(tag, name, version). name)
              (filter (\<lambda>(tag, name, version). tag \<in> set unsummarized) burned));
            indeterminate = filter (\<lambda>p. \<not> is_ok (answer p)) pending;
            unmapped = crates_io_unmapped config tags
        in if burned \<noteq> [] then Inl (RollbackRefusal (LiveOnCratesIo burned squat_suspects))
           else if indeterminate \<noteq> [] then Inl (CratesIoUnreachable indeterminate)
           else if unmapped \<noteq> [] then Inl (TagsUnmapped unmapped)
           else Inr ())"

subsection \<open>The npm and PyPI pass\<close>

text \<open>One entry under one tag: nothing when the tag does not version its crate, else a probe or the crate's name as unresolvable.\<close>

definition npm_entry :: "repo_config \<Rightarrow> string \<Rightarrow> npm_config \<Rightarrow> ((string \<times> string) + immutable_probe) list" where
  "npm_entry config tag cfg =
     (let crate = npm_static_entry_crate_name config;
          versioned = map_of (rev (map (\<lambda>(c, v). (crate_name c, v)) (crates_versioned_by_tag config tag)))
      in case versioned crate of
           None \<Rightarrow> []
         | Some version \<Rightarrow>
             (case (static_registry cfg, static_published_name crate cfg) of
                (Some registry, Some package) \<Rightarrow> [Inr (NpmProbe tag registry package version)]
              | _ \<Rightarrow> [Inl (tag, crate)]))"

definition pypi_entry :: "repo_config \<Rightarrow> string \<Rightarrow> pypi_config \<Rightarrow> ((string \<times> string) + immutable_probe) list" where
  "pypi_entry config tag cfg =
     (let crate = pypi_static_entry_crate_name config cfg;
          versioned = map_of (rev (map (\<lambda>(c, v). (crate_name c, v)) (crates_versioned_by_tag config tag)))
      in case versioned crate of
           None \<Rightarrow> []
         | Some version \<Rightarrow>
             (case (static_repository cfg, static_project_name crate cfg) of
                (Some repository, Some project) \<Rightarrow> [Inr (PypiProbe tag repository project version)]
              | _ \<Rightarrow> [Inl (tag, crate)]))"

fun immutable_key :: "immutable_probe \<Rightarrow> string \<times> string \<times> string" where
  "immutable_key (NpmProbe tag registry package version) = (''npm'', registry @ ''#'' @ package, version)"
| "immutable_key (PypiProbe tag repository project version) = (''pypi'', repository @ ''#'' @ project, version)"

fun ask_immutable :: "burn_probes \<Rightarrow> immutable_probe \<Rightarrow> (string, bool) result" where
  "ask_immutable probes (NpmProbe tag registry package version) = probe_npm probes registry package version"
| "ask_immutable probes (PypiProbe tag repository project version) = probe_pypi probes repository project version"

definition immutable_entries :: "repo_config \<Rightarrow> string list \<Rightarrow> ((string \<times> string) + immutable_probe) list" where
  "immutable_entries config tags =
     (let npms = (case rc_npms config of Some es \<Rightarrow> es | None \<Rightarrow> []);
          pypis = (case rc_pypis config of Some es \<Rightarrow> es | None \<Rightarrow> [])
      in concat (map (\<lambda>tag. concat (map (npm_entry config tag) npms) @ concat (map (pypi_entry config tag) pypis)) tags))"

definition check_not_burned_on_npm_pypi ::
    "string list \<Rightarrow> repo_config \<Rightarrow> burn_probes \<Rightarrow> (rollback_error, unit) result" where
  "check_not_burned_on_npm_pypi tags config probes =
     (let entries = immutable_entries config tags;
          pending = first_of_key immutable_key [] (List.map_filter (case_sum (\<lambda>_. None) Some) entries);
          unresolvable = List.map_filter (case_sum Some (\<lambda>_. None)) entries;
          burned = filter (\<lambda>p. ask_immutable probes p = Inr True) pending;
          indeterminate = filter (\<lambda>p. \<not> is_ok (ask_immutable probes p)) pending
      in if burned \<noteq> [] then Inl (RollbackRefusal (LiveOnImmutable burned))
         else if indeterminate \<noteq> [] then Inl (ImmutableUnreachable indeterminate)
         else if unresolvable \<noteq> [] then Inl (PackageUnresolvable unresolvable)
         else Inr ())"

subsection \<open>The moderated registries\<close>

definition chocolatey_entry :: "string \<Rightarrow> crate_config \<Rightarrow> string \<Rightarrow> moderated_probe list" where
  "chocolatey_entry tag c version =
     (case Option.bind (publish_cfg c) chocolatey of
        None \<Rightarrow> []
      | Some cfg \<Rightarrow>
          if \<not> targets_community_gallery cfg then []
          else case static_package_id (crate_name c) cfg of
                 Some ident \<Rightarrow> [ChocolateyProbe tag ident version]
               | None \<Rightarrow> [])"

definition winget_entry :: "string \<Rightarrow> crate_config \<Rightarrow> string \<Rightarrow> moderated_probe list" where
  "winget_entry tag c version =
     (case Option.bind (publish_cfg c) winget of
        None \<Rightarrow> []
      | Some cfg \<Rightarrow>
          (case static_package_identifier (crate_name c) cfg of
             Some ident \<Rightarrow>
               (let (owner, repo) = resolve_winget_upstream cfg
                in [WingetProbe tag \<lparr>wp_upstream = owner @ ''/'' @ repo, wp_package_id = ident, wp_version = version,
                      wp_search_in_title = (wg_commit_msg_template cfg = None)\<rparr>])
           | None \<Rightarrow> []))"

fun moderated_key :: "moderated_probe \<Rightarrow> string \<times> string \<times> string" where
  "moderated_key (ChocolateyProbe tag ident version) = (''chocolatey'', ident, version)"
| "moderated_key (WingetProbe tag spec) = (''winget'', wp_upstream spec @ ''#'' @ wp_package_id spec, wp_version spec)"

fun ask_moderated :: "burn_probes \<Rightarrow> moderated_probe \<Rightarrow> (string, string option) result" where
  "ask_moderated probes (ChocolateyProbe tag ident version) = probe_chocolatey probes ident version"
| "ask_moderated probes (WingetProbe tag spec) = probe_winget probes spec"

definition moderated_entries :: "repo_config \<Rightarrow> string list \<Rightarrow> moderated_probe list" where
  "moderated_entries config tags =
     concat (map (\<lambda>tag. concat (map (\<lambda>(c, version). chocolatey_entry tag c version @ winget_entry tag c version)
       (crates_versioned_by_tag config tag))) tags)"

definition check_not_burned_on_moderated_registries ::
    "string list \<Rightarrow> repo_config \<Rightarrow> burn_probes \<Rightarrow> (rollback_error, unit) result" where
  "check_not_burned_on_moderated_registries tags config probes =
     (let pending = first_of_key moderated_key [] (moderated_entries config tags);
          burned = List.map_filter (\<lambda>p. case ask_moderated probes p of Inr (Some state) \<Rightarrow> Some (p, state) | _ \<Rightarrow> None) pending
      in if burned \<noteq> [] then Inl (RollbackRefusal (ConsumedAtModerated burned)) else Inr ())"

subsection \<open>The GitHub release probe\<close>

text \<open>Of a release document only \<open>id\<close> (as \<open>u64\<close>) and \<open>draft\<close> (as \<open>bool\<close>) are read.\<close>

record release_doc =
  doc_id :: "nat option"
  doc_draft :: "bool option"

record release_env =
  github_slug :: "(string, string \<times> string) result"
  has_origin :: bool
  release_at :: "string \<times> string \<Rightarrow> string \<Rightarrow> (string, release_doc) result"

datatype release_probe = Published | NotBlocking | Indeterminate string

definition is_not_found :: "string \<Rightarrow> bool" where
  "is_not_found msg \<longleftrightarrow> contains msg ''HTTP 404'' \<or> contains msg ''Not Found''"

definition probe_release_for_tag :: "release_env \<Rightarrow> string \<times> string \<Rightarrow> string \<Rightarrow> release_probe" where
  "probe_release_for_tag renv slug tag =
     (case release_at renv slug tag of
        Inr release_json \<Rightarrow> (case doc_draft release_json of Some True \<Rightarrow> NotBlocking | _ \<Rightarrow> Published)
      | Inl msg \<Rightarrow> if is_not_found msg then NotBlocking else Indeterminate msg)"

definition check_no_published_releases :: "release_env \<Rightarrow> string list \<Rightarrow> (rollback_error, unit) result" where
  "check_no_published_releases renv tags =
     (case github_slug renv of
        Inl e \<Rightarrow> if has_origin renv then Inr () else Inl (OriginUnresolvable tags e)
      | Inr slug \<Rightarrow>
          (let published = filter (\<lambda>tag. probe_release_for_tag renv slug tag = Published) tags;
               indeterminate = List.map_filter (\<lambda>tag. case probe_release_for_tag renv slug tag of
                 Indeterminate msg \<Rightarrow> Some (tag, msg) | _ \<Rightarrow> None) tags
           in if indeterminate \<noteq> [] then Inl (ReleaseIndeterminate indeterminate)
              else if published \<noteq> [] then Inl (RollbackRefusal (ReleasePublished published))
              else Inr ()))"

subsection \<open>The guard\<close>

definition collect_run_summaries :: "'t os \<Rightarrow> 't fs \<Rightarrow> string \<Rightarrow> run_summary list" where
  "collect_run_summaries os fs dist1 =
     List.map_filter (\<lambda>path. Option.bind (fs path) (parse_run_summary_lenient os)) (collect_run_summary_paths os fs dist1)"

definition summaries_of :: "run_summary list \<Rightarrow> string \<Rightarrow> run_summary list" where
  "summaries_of summaries tag = filter (\<lambda>s. rs_tag s = tag) summaries"

definition burned_names :: "run_summary list \<Rightarrow> string list" where
  "burned_names matching = remdups_adj (sort (concat (map burned_submitter_names matching)))"

definition tag_burned :: "run_summary list \<Rightarrow> string \<Rightarrow> (string \<times> string list) option" where
  "tag_burned summaries tag =
     (let matching = summaries_of summaries tag; names = burned_names matching
      in if list_ex rs_irreversibly_published matching \<or> names \<noteq> [] then Some (tag, names) else None)"

definition unsummarized_tags :: "run_summary list \<Rightarrow> string list \<Rightarrow> string list" where
  "unsummarized_tags summaries tags = filter (\<lambda>tag. summaries_of summaries tag = []) tags"

definition check_not_irreversibly_published ::
    "'t os \<Rightarrow> 't fs \<Rightarrow> string \<Rightarrow> release_env \<Rightarrow> string list \<Rightarrow> repo_config \<Rightarrow> burn_probes
      \<Rightarrow> (rollback_error, string list) result" where
  "check_not_irreversibly_published os fs cwd renv tags config probes =
     (let summaries = collect_run_summaries os fs (resolve_dist_dir cwd config);
          unsummarized = unsummarized_tags summaries tags;
          burned = List.map_filter (tag_burned summaries) tags
      in if burned \<noteq> [] then Inl (RollbackRefusal (BurnedPerSummary burned))
         else case check_not_burned_on_crates_io tags unsummarized config probes of Inl e \<Rightarrow> Inl e | Inr _ \<Rightarrow>
              case check_not_burned_on_npm_pypi tags config probes of Inl e \<Rightarrow> Inl e | Inr _ \<Rightarrow>
              case check_not_burned_on_moderated_registries tags config probes of Inl e \<Rightarrow> Inl e | Inr _ \<Rightarrow>
              if unsummarized = [] then Inr unsummarized
              else case check_no_published_releases renv unsummarized of
                     Inl e \<Rightarrow> Inl e
                   | Inr _ \<Rightarrow> Inr unsummarized)"

subsection \<open>What each pass establishes\<close>

lemma first_of_key_keys: "key ` set (first_of_key key seen xs) = key ` set xs - set seen"
  by (induction xs arbitrary: seen) auto

lemma first_of_key_subset: "set (first_of_key key seen xs) \<subseteq> set xs"
  by (induction xs arbitrary: seen) auto

lemma first_of_key_represents: "x \<in> set xs \<Longrightarrow> \<exists>y \<in> set (first_of_key key [] xs). key y = key x"
  using first_of_key_keys [of key "[]" xs] by (metis (no_types, lifting) Diff_empty empty_set image_iff)

lemma first_of_key_distinct: "distinct (map key (first_of_key key seen xs))"
  by (induction xs arbitrary: seen) (auto simp: first_of_key_keys)

lemma map_filter_Nil_iff: "List.map_filter f xs = [] \<longleftrightarrow> (\<forall>x \<in> set xs. f x = None)"
  by (induction xs) (auto simp: List.map_filter_simps split: option.splits)

lemma filter_not_Nil_iff: "filter P xs = [] \<longleftrightarrow> (\<forall>x \<in> set xs. \<not> P x)"
  by (induction xs) auto

lemma answered_no: "r \<noteq> Inr True \<and> is_ok r \<longleftrightarrow> r = Inr False"
  by (cases r) auto

lemma fail_closed_pass:
  "(if filter (\<lambda>p. answer p = Inr True) pending \<noteq> [] then Inl e1
    else if filter (\<lambda>p. \<not> is_ok (answer p)) pending \<noteq> [] then Inl e2
    else if blind \<noteq> [] then Inl e3 else Inr ()) = Inr ()
   \<longleftrightarrow> (\<forall>p \<in> set pending. answer p = Inr False) \<and> blind = []"
proof -
  have "(\<forall>p \<in> set pending. answer p = Inr False) \<longleftrightarrow>
      filter (\<lambda>p. answer p = Inr True) pending = [] \<and> filter (\<lambda>p. \<not> is_ok (answer p)) pending = []"
    by (auto simp: filter_not_Nil_iff answered_no [symmetric])
  then show ?thesis by (simp split: if_split)
qed

lemma mapped_probes_set:
  "set (mapped_probes (crates_io_versions_for_tag config tag)) =
     {(crate_name c, v) |c v. (c, v) \<in> set (crates_versioned_by_tag config tag) \<and> stamps_crates_io c}"
  by (auto simp: crates_io_versions_for_tag_def Let_def image_iff)

lemma crates_io_pending_keys:
  "snd ` set (crates_io_pending config tags) =
     {(crate_name c, v) |tag c v. tag \<in> set tags \<and> (c, v) \<in> set (crates_versioned_by_tag config tag) \<and> stamps_crates_io c}"
proof -
  have "snd ` set (crates_io_pending config tags) =
      (\<Union>tag \<in> set tags. set (mapped_probes (crates_io_versions_for_tag config tag)))"
    unfolding crates_io_pending_def first_of_key_keys by (simp add: image_UN image_image)
  then show ?thesis unfolding mapped_probes_set by blast
qed

lemma unmapped_iff:
  "crates_io_unmapped config tags = [] \<longleftrightarrow> (\<forall>tag \<in> set tags. crates_versioned_by_tag config tag \<noteq> [])"
proof -
  have "mapped_probes (crates_io_versions_for_tag config tag) = [] \<and> matched_non_crates_io (crates_io_versions_for_tag config tag) = 0
      \<longleftrightarrow> crates_versioned_by_tag config tag = []" for tag
    by (auto simp: crates_io_versions_for_tag_def Let_def filter_not_Nil_iff)
       (metis (no_types, lifting) case_prod_conv last_in_set old.prod.exhaust)+
  then show ?thesis by (simp add: crates_io_unmapped_def Let_def filter_not_Nil_iff)
qed

definition crates_io_clear :: "repo_config \<Rightarrow> burn_probes \<Rightarrow> string list \<Rightarrow> bool" where
  "crates_io_clear config probes tags \<longleftrightarrow>
     list_ex stamps_crates_io (universe_of config) \<longrightarrow>
       (\<forall>tag \<in> set tags. crates_versioned_by_tag config tag \<noteq> []
          \<and> (\<forall>(c, v) \<in> set (crates_versioned_by_tag config tag).
               stamps_crates_io c \<longrightarrow> probe_crates_io probes (crate_name c) v = Inr False))"

lemma crates_io_ok_iff:
  "check_not_burned_on_crates_io tags unsummarized config probes = Inr () \<longleftrightarrow> crates_io_clear config probes tags"
proof -
  let ?ask = "\<lambda>k. probe_crates_io probes (fst k) (snd k)"
  have "check_not_burned_on_crates_io tags unsummarized config probes = Inr () \<longleftrightarrow>
      (list_ex stamps_crates_io (universe_of config) \<longrightarrow>
        (\<forall>k \<in> snd ` set (crates_io_pending config tags). ?ask k = Inr False) \<and> crates_io_unmapped config tags = [])"
    unfolding check_not_burned_on_crates_io_def Let_def
    by (cases "list_ex stamps_crates_io (universe_of config)") (simp_all only: fail_closed_pass if_True if_False simp_thms ball_simps case_prod_beta)
  also have "\<dots> \<longleftrightarrow> crates_io_clear config probes tags"
    unfolding crates_io_clear_def unmapped_iff crates_io_pending_keys by fastforce
  finally show ?thesis .
qed

definition immutable_clear :: "repo_config \<Rightarrow> burn_probes \<Rightarrow> string list \<Rightarrow> bool" where
  "immutable_clear config probes tags \<longleftrightarrow>
     (\<forall>entry \<in> set (immutable_entries config tags). \<exists>p. entry = Inr p
        \<and> (\<exists>q. immutable_key q = immutable_key p \<and> ask_immutable probes q = Inr False))"

lemma npm_pypi_pass:
  "check_not_burned_on_npm_pypi tags config probes = Inr () \<longleftrightarrow>
     (\<forall>p \<in> set (first_of_key immutable_key [] (List.map_filter (case_sum (\<lambda>_. None) Some) (immutable_entries config tags))).
        ask_immutable probes p = Inr False) \<and> (\<forall>entry \<in> set (immutable_entries config tags). \<exists>p. entry = Inr p)"
proof -
  have "List.map_filter (case_sum Some (\<lambda>_. None)) xs = [] \<longleftrightarrow> (\<forall>entry \<in> set xs. \<exists>p. entry = Inr p)"
    for xs :: "((string \<times> string) + immutable_probe) list"
    by (induction xs) (auto simp: List.map_filter_simps split: sum.splits)
  then show ?thesis unfolding check_not_burned_on_npm_pypi_def Let_def fail_closed_pass by simp
qed

lemma set_map_filter: "set (List.map_filter f xs) = {y. \<exists>x \<in> set xs. f x = Some y}"
  by (induction xs) (auto simp: List.map_filter_simps split: option.splits)

lemma npm_pypi_ok:
  assumes "check_not_burned_on_npm_pypi tags config probes = Inr ()"
  shows "immutable_clear config probes tags"
  unfolding immutable_clear_def
proof
  fix entry
  assume entry: "entry \<in> set (immutable_entries config tags)"
  let ?ps = "List.map_filter (case_sum (\<lambda>_. None) Some) (immutable_entries config tags)"
  from assms entry obtain p where p: "entry = Inr p" unfolding npm_pypi_pass by blast
  with entry have "p \<in> set ?ps" unfolding set_map_filter by force
  from first_of_key_represents [OF this, of immutable_key] assms p
  show "\<exists>p. entry = Inr p \<and> (\<exists>q. immutable_key q = immutable_key p \<and> ask_immutable probes q = Inr False)"
    unfolding npm_pypi_pass by blast
qed

definition moderated_clear :: "repo_config \<Rightarrow> burn_probes \<Rightarrow> string list \<Rightarrow> bool" where
  "moderated_clear config probes tags \<longleftrightarrow>
     (\<forall>p \<in> set (moderated_entries config tags).
        \<exists>q. moderated_key q = moderated_key p \<and> (\<forall>state. ask_moderated probes q \<noteq> Inr (Some state)))"

lemma moderated_ok:
  assumes "check_not_burned_on_moderated_registries tags config probes = Inr ()"
  shows "moderated_clear config probes tags"
  unfolding moderated_clear_def
proof
  fix p
  assume "p \<in> set (moderated_entries config tags)"
  from first_of_key_represents [OF this, of moderated_key] obtain q where
    q: "q \<in> set (first_of_key moderated_key [] (moderated_entries config tags))" "moderated_key q = moderated_key p" by blast
  from assms have "List.map_filter (\<lambda>p. case ask_moderated probes p of Inr (Some state) \<Rightarrow> Some (p, state) | _ \<Rightarrow> None)
      (first_of_key moderated_key [] (moderated_entries config tags)) = []"
    unfolding check_not_burned_on_moderated_registries_def Let_def by (metis Inl_Inr_False)
  with q(1) have "(case ask_moderated probes q of Inr (Some state) \<Rightarrow> Some (q, state) | _ \<Rightarrow> None) = None"
    unfolding map_filter_Nil_iff by (rule bspec [rotated])
  with q show "\<exists>q. moderated_key q = moderated_key p \<and> (\<forall>state. ask_moderated probes q \<noteq> Inr (Some state))" by force
qed

definition release_clear :: "release_env \<Rightarrow> string \<Rightarrow> bool" where
  "release_clear renv tag \<longleftrightarrow>
     (case github_slug renv of
        Inl _ \<Rightarrow> has_origin renv
      | Inr slug \<Rightarrow> (case release_at renv slug tag of
            Inr release_json \<Rightarrow> doc_draft release_json = Some True
          | Inl msg \<Rightarrow> is_not_found msg))"

lemma probe_clear_iff:
  "github_slug renv = Inr slug \<Longrightarrow> release_clear renv tag \<longleftrightarrow> probe_release_for_tag renv slug tag = NotBlocking"
  by (auto simp: release_clear_def probe_release_for_tag_def split: sum.splits option.splits bool.splits)

lemma releases_ok_iff:
  assumes "tags \<noteq> []"
  shows "check_no_published_releases renv tags = Inr () \<longleftrightarrow> (\<forall>tag \<in> set tags. release_clear renv tag)"
proof (cases "github_slug renv")
  case (Inl e)
  with assms show ?thesis by (simp add: check_no_published_releases_def release_clear_def)
next
  case (Inr slug)
  let ?probe = "probe_release_for_tag renv slug"
  let ?unclear = "List.map_filter (\<lambda>tag. case ?probe tag of Indeterminate msg \<Rightarrow> Some (tag, msg) | _ \<Rightarrow> None) tags"
  have "check_no_published_releases renv tags = Inr () \<longleftrightarrow> ?unclear = [] \<and> filter (\<lambda>tag. ?probe tag = Published) tags = []"
    unfolding check_no_published_releases_def Let_def Inr by (simp split: if_split)
  also have "\<dots> \<longleftrightarrow> (\<forall>tag \<in> set tags. ?probe tag = NotBlocking)"
  proof -
    have "?probe tag = NotBlocking \<longleftrightarrow> (case ?probe tag of Indeterminate msg \<Rightarrow> Some (tag, msg) | _ \<Rightarrow> None) = None
        \<and> ?probe tag \<noteq> Published" for tag by (cases "?probe tag") simp_all
    then show ?thesis unfolding map_filter_Nil_iff filter_not_Nil_iff by (simp add: ball_conj_distrib)
  qed
  finally show ?thesis unfolding probe_clear_iff [OF Inr] .
qed

subsection \<open>The guard as a whole\<close>

lemma tag_burned_None:
  "tag_burned summaries tag = None \<longleftrightarrow>
     (\<forall>s \<in> set summaries. rs_tag s = tag \<longrightarrow> \<not> rs_irreversibly_published s \<and> burned_submitter_names s = [])"
proof -
  have "sort xs = [] \<longleftrightarrow> xs = []" for xs :: "string list" by (metis mset_sort mset_zero_iff)
  then show ?thesis by (auto simp: tag_burned_def Let_def summaries_of_def burned_names_def list_ex_iff)
qed

text \<open>
  The guard lets a withdrawal pass only on evidence. When it accepts, no run summary of any of the tags records a
  burned submitter or an irreversible publish; if any crate publishes to crates.io then every tag maps to a
  crate, and every crate version it stamps there was answered as absent (an unreachable index does not count);
  every npm and PyPI entry of a tag has a resolvable name and was answered as absent; no moderated registry
  answered that it holds the version; and each tag without a run summary -- exactly those are returned -- has no
  GitHub release beyond a draft, unless the origin is another host.
\<close>
lemma guard_evidence:
  assumes "check_not_irreversibly_published os fs cwd renv tags config probes = Inr unsummarized"
  shows "(\<forall>tag \<in> set tags. \<forall>s \<in> set (collect_run_summaries os fs (resolve_dist_dir cwd config)).
            rs_tag s = tag \<longrightarrow> \<not> rs_irreversibly_published s \<and> burned_submitter_names s = [])
     \<and> crates_io_clear config probes tags \<and> immutable_clear config probes tags \<and> moderated_clear config probes tags
     \<and> unsummarized = filter (\<lambda>tag. \<forall>s \<in> set (collect_run_summaries os fs (resolve_dist_dir cwd config)). rs_tag s \<noteq> tag) tags
     \<and> (\<forall>tag \<in> set unsummarized. release_clear renv tag)"
proof -
  let ?ss = "collect_run_summaries os fs (resolve_dist_dir cwd config)"
  let ?un = "unsummarized_tags ?ss tags"
  have un: "?un = filter (\<lambda>tag. \<forall>s \<in> set ?ss. rs_tag s \<noteq> tag) tags"
    by (simp add: unsummarized_tags_def summaries_of_def filter_not_Nil_iff)
  from assms have burned: "List.map_filter (tag_burned ?ss) tags = []"
    and io: "check_not_burned_on_crates_io tags ?un config probes = Inr ()"
    and imm: "check_not_burned_on_npm_pypi tags config probes = Inr ()"
    and mod: "check_not_burned_on_moderated_registries tags config probes = Inr ()"
    and rel: "?un = [] \<or> check_no_published_releases renv ?un = Inr ()" and eq: "unsummarized = ?un"
    by (auto simp: check_not_irreversibly_published_def Let_def split: if_splits sum.splits)
  from rel have "\<forall>tag \<in> set ?un. release_clear renv tag" using releases_ok_iff by (cases "?un = []") auto
  with burned io mod npm_pypi_ok [OF imm] show ?thesis
    unfolding eq by (simp add: un map_filter_Nil_iff tag_burned_None crates_io_ok_iff moderated_ok)
qed

end
