(* ===== verification/TagRollback.thy ===== *)
theory TagRollback
  imports Rollback TagGuard
begin

section \<open>Rolling a tag back\<close>

text \<open>
  \<open>cli/src/commands/tag/rollback/run.rs\<close>, \<open>unwind.rs\<close> and \<open>deletion.rs\<close>: the command \<open>tag rollback\<close>. It selects
  the tags at a commit, asks the guard of \<open>TagGuard\<close>, withdraws what the recorded runs published through the engine
  of \<open>Rollback\<close>, reverts or resets the version bump, pushes, and deletes the tags and the releases it owns.

  Git, \<open>gh\<close> and the repository they act on are an argument \<open>ops\<close> over an arbitrary state \<open>'g\<close>; the commands that
  change it are the constructors of \<open>git_op\<close>. What the command does is recorded as a list of \<open>tag_event\<close>s, the
  warnings and dry-run lines included by their content; status lines without a decision are left out. The token
  resolution and the date variables of the context a withdrawal runs in are arguments: they can fail, and are
  passed through otherwise.
\<close>

subsection \<open>The repository and the options\<close>

datatype git_op =
    ResetHard string
  | RevertCommit string string
  | PushBranch string
  | DeleteRelease string nat
  | DeleteRemoteTag string
  | DeleteLocalTag string

record 'g repo_ops =
  git_rev_parse :: "'g \<Rightarrow> string \<Rightarrow> (string, string) result"
  git_tags_at :: "'g \<Rightarrow> string \<Rightarrow> (string, string list) result"
  git_commits_since :: "'g \<Rightarrow> string \<Rightarrow> (string, (string \<times> string) list) result"
  git_branches_containing :: "'g \<Rightarrow> string \<Rightarrow> (string, string list) result"
  git_current_branch :: "'g \<Rightarrow> (string, string) result"
  git_releases :: "'g \<Rightarrow> release_env"
  git_exec :: "git_op \<Rightarrow> 'g \<Rightarrow> (string, unit) result \<times> 'g"

record rollback_opts =
  ro_sha :: "string option"
  ro_dry_run :: bool
  ro_no_push :: bool
  ro_force :: bool
  ro_scope :: rollback_tag_scope
  ro_mode :: rollback_mode
  ro_branch :: "string option"

datatype tag_event =
    SkippedTag string
  | GuardSkipped
  | ConfigSkipped string
  | NoRunDir "string list"
  | NoReport string
  | UnwindRun string string "event list"
  | UnwindForced string string
  | WouldWithdraw string "string list"
  | WouldReset string
  | WouldRevert string string
  | WouldPush string
  | WouldDeleteRelease string
  | WouldKeepRelease string
  | WouldDeleteTag string
  | RanGit git_op bool
  | ReleaseLeft string
  | KeptTag string
  | RemoteSkipped string
  | PushSkipped
  | HistoryRewritten

record ('g, 't, 'w) rb_world =
  rw_git :: 'g
  rw_files :: "'t fs"
  rw_scopes :: "(string \<times> nat \<times> nat) list"
  rw_backoff :: nat
  rw_world :: 'w

record ('t, 'w) rb_env =
  rb_os :: "'t os"
  rb_cwd :: string
  rb_process_env :: "string \<Rightarrow> string option"
  rb_config :: "(string, repo_config) result"
  rb_probes :: burn_probes
  rb_scm_token :: "repo_config \<Rightarrow> ('t, 'w) run_context \<Rightarrow> (string, ('t, 'w) run_context) result"
  rb_time_vars :: "('t, 'w) run_context \<Rightarrow> (string, ('t, 'w) run_context) result"
  rb_registry :: "('t, 'w) run_context \<Rightarrow> ('t, 'w) publisher list"
  rb_aux :: "('t, 'w) publisher list"

type_synonym ('g, 't, 'w, 'a) step = "(rollback_error, 'a) result \<times> ('g, 't, 'w) rb_world \<times> tag_event list"

text \<open>The \<open>?\<close> operator: go on with the value, or return the error with what was done so far.\<close>

definition and_then ::
    "('e, 'a) result \<times> 's \<times> 'v list \<Rightarrow> ('a \<Rightarrow> 's \<Rightarrow> ('e, 'b) result \<times> 's \<times> 'v list) \<Rightarrow> ('e, 'b) result \<times> 's \<times> 'v list" where
  "and_then m k =
     (case m of
        (Inl e, st, evs) \<Rightarrow> (Inl e, st, evs)
      | (Inr a, st, evs) \<Rightarrow> (let (r, st', evs') = k a st in (r, st', evs @ evs')))"

definition run_git :: "'g repo_ops \<Rightarrow> git_op \<Rightarrow> ('g, 't, 'w) rb_world \<Rightarrow> ('g, 't, 'w, unit) step" where
  "run_git ops cmd st =
     (let (r, g) = git_exec ops cmd (rw_git st)
      in (case r of Inl e \<Rightarrow> Inl (CommandFailed e) | Inr _ \<Rightarrow> Inr (), st\<lparr>rw_git := g\<rparr>, [RanGit cmd (is_ok r)]))"

subsection \<open>Deleting tags and the releases they own\<close>

datatype release_cleanup = Cleared | Retained

definition delete_release_at_tag ::
    "'g repo_ops \<Rightarrow> string \<Rightarrow> bool \<Rightarrow> 'g \<Rightarrow> release_cleanup \<times> 'g \<times> tag_event list" where
  "delete_release_at_tag ops tag attributed g =
     (let renv = git_releases ops g
      in case github_slug renv of
           Inl _ \<Rightarrow> (Cleared, g, [])
         | Inr slug \<Rightarrow>
             (case release_at renv slug tag of
                Inl msg \<Rightarrow>
                  (if is_not_found msg then Cleared else if attributed then Retained else Cleared, g, [])
              | Inr release_json \<Rightarrow>
                  (case doc_id release_json of
                     None \<Rightarrow> (if attributed then Retained else Cleared, g, [])
                   | Some ident \<Rightarrow>
                       if \<not> attributed then (Cleared, g, [ReleaseLeft tag])
                       else let (r, g') = git_exec ops (DeleteRelease tag ident) g
                            in (if is_ok r then Cleared else Retained, g', [RanGit (DeleteRelease tag ident) (is_ok r)]))))"

definition delete_tag_refs :: "'g repo_ops \<Rightarrow> rollback_opts \<Rightarrow> string \<Rightarrow> 'g \<Rightarrow> 'g \<times> tag_event list" where
  "delete_tag_refs ops opts tag g =
     (let (g, remote) =
            (if ro_no_push opts then (g, [RemoteSkipped tag])
             else let (r, g') = git_exec ops (DeleteRemoteTag tag) g in (g', [RanGit (DeleteRemoteTag tag) (is_ok r)]));
          (r, g) = git_exec ops (DeleteLocalTag tag) g
      in (g, remote @ [RanGit (DeleteLocalTag tag) (is_ok r)]))"

definition delete_tag ::
    "'g repo_ops \<Rightarrow> rollback_opts \<Rightarrow> string set \<Rightarrow> string \<Rightarrow> 'g \<Rightarrow> 'g \<times> tag_event list" where
  "delete_tag ops opts attributed tag g =
     (if ro_dry_run opts
      then (g, (if ro_no_push opts then []
                else [if tag \<in> attributed then WouldDeleteRelease tag else WouldKeepRelease tag]) @ [WouldDeleteTag tag])
      else if ro_no_push opts then delete_tag_refs ops opts tag g
      else case delete_release_at_tag ops tag (tag \<in> attributed) g of
             (Retained, g', evs) \<Rightarrow> (g', evs @ [KeptTag tag])
           | (Cleared, g', evs) \<Rightarrow> (let (g'', evs') = delete_tag_refs ops opts tag g' in (g'', evs @ evs')))"

fun delete_tags :: "'g repo_ops \<Rightarrow> rollback_opts \<Rightarrow> string set \<Rightarrow> string list \<Rightarrow> 'g \<Rightarrow> 'g \<times> tag_event list" where
  "delete_tags ops opts attributed [] g = (g, [])"
| "delete_tags ops opts attributed (tag # tags) g =
     (let (g1, evs) = delete_tag ops opts attributed tag g;
          (g2, evs') = delete_tags ops opts attributed tags g1
      in (g2, evs @ evs'))"

definition deleting ::
    "'g repo_ops \<Rightarrow> rollback_opts \<Rightarrow> string set \<Rightarrow> string list \<Rightarrow> ('g, 't, 'w) rb_world \<Rightarrow> ('g, 't, 'w, unit) step" where
  "deleting ops opts attributed tags st =
     (let (g, evs) = delete_tags ops opts attributed tags (rw_git st) in (Inr (), st\<lparr>rw_git := g\<rparr>, evs))"

definition resolve_push_branch :: "'g repo_ops \<Rightarrow> string \<Rightarrow> string option \<Rightarrow> 'g \<Rightarrow> (rollback_error, string) result" where
  "resolve_push_branch ops bump_sha explicit g =
     (case explicit of
        Some b \<Rightarrow> Inr b
      | None \<Rightarrow>
          (let from_head = (case git_current_branch ops g of Inr b \<Rightarrow> Inr b | Inl _ \<Rightarrow> Inl (BranchUnknown (take 12 bump_sha)))
           in case git_branches_containing ops g bump_sha of
                Inr [only] \<Rightarrow> Inr only
              | Inr (b # b' # bs) \<Rightarrow> Inl (AmbiguousBranch (take 12 bump_sha) (b # b' # bs))
              | _ \<Rightarrow> from_head))"

subsection \<open>The publisher unwind\<close>

definition discover_unwind_targets :: "'t os \<Rightarrow> 't fs \<Rightarrow> string \<Rightarrow> string list \<Rightarrow> (string \<times> string) list" where
  "discover_unwind_targets os fs dist_root tags =
     concat (map (\<lambda>root. map (\<lambda>tag. (tag, root)) (filter (\<lambda>tag. os_is_dir os fs (path_join root (run_dir_prefix @ tag))) tags))
       (layout_roots os fs dist_root))"

definition default_options :: context_options where
  "default_options = \<lparr>dry_run = False, snapshot = False, nightly = False, strict = False, publish_only = False,
     partial_target = None, single_target = None, skip_stages = [], publisher_allowlist = [],
     simulate_failure_publishers = [], summary_json_path = None, runtime_nondeterministic_allowlist = []\<rparr>"

definition new_context ::
    "('t, 'w) rb_env \<Rightarrow> repo_config \<Rightarrow> string \<Rightarrow> ('g, 't, 'w) rb_world \<Rightarrow> ('t, 'w) run_context" where
  "new_context renv config dist1 st =
     \<lparr>options = default_options, preflight_strict = rc_preflight_strict config, render_strict = False, dist = dist1, git_info = None,
      template_vars = btree_insert ''ProjectName'' (rc_project_name config) [], artifacts = [], skip_memento = [],
      publish_report = None, publish_attempted = False, verify_release_issues = None, determinism = None,
      retry_scopes = rw_scopes st, retry_total_backoff = rw_backoff st, pending_outcome = None, pending_evidence = None,
      env = rb_process_env renv, files = rw_files st, world = rw_world st\<rparr>"

definition unwind_context ::
    "('t, 'w) rb_env \<Rightarrow> repo_config \<Rightarrow> string \<times> string \<Rightarrow> ('g, 't, 'w) rb_world
      \<Rightarrow> (string, ('t, 'w) run_context) result" where
  "unwind_context renv config target st =
     (case rb_scm_token renv config (new_context renv config (snd target) st) of
        Inl e \<Rightarrow> Inl e
      | Inr ctx \<Rightarrow>
          (let vars = btree_insert ''Tag'' (fst target) (template_vars ctx);
               vars = (case split_tag_family (fst target) of
                         Some (_, version) \<Rightarrow> btree_insert ''RawVersion'' (version_string version)
                           (btree_insert ''Version'' (version_string version) vars)
                       | None \<Rightarrow> vars)
           in rb_time_vars renv (ctx\<lparr>template_vars := vars\<rparr>)))"

definition unwind_target ::
    "('t, 'w) rb_env \<Rightarrow> rollback_opts \<Rightarrow> repo_config \<Rightarrow> string \<times> string \<Rightarrow> ('g, 't, 'w) rb_world
      \<Rightarrow> ('g, 't, 'w, unit) step" where
  "unwind_target renv opts config target st =
     (case unwind_context renv config target st of
        Inl e \<Rightarrow> (Inl (CommandFailed e), st, [])
      | Inr ctx \<Rightarrow>
          if \<not> prior_state_exists ctx (fst target) then (Inr (), st, [NoReport (fst target)])
          else if ro_dry_run opts
          then (case planned_rollback_names (rb_os renv) ctx (fst target) of
                  Inl e \<Rightarrow> (Inl (PreviewUnreadable (fst target) e), st, [])
                | Inr planned \<Rightarrow> (Inr (), st, [WouldWithdraw (fst target) planned]))
          else (let (answer, ctx', evs) =
                      run_with_publishers (rb_os renv) (rb_aux renv) ctx (fst target) (rb_registry renv ctx);
                    st' = st\<lparr>rw_files := files ctx', rw_scopes := retry_scopes ctx', rw_backoff := retry_total_backoff ctx',
                             rw_world := world ctx'\<rparr>;
                    ran = [UnwindRun (fst target) (snd target) evs]
                in case answer of
                     Inr _ \<Rightarrow> (Inr (), st', ran)
                   | Inl e \<Rightarrow> if ro_force opts then (Inr (), st', ran @ [UnwindForced (fst target) e])
                             else (Inl (UnwindRefused (fst target) e), st', ran)))"

fun unwind_targets ::
    "('t, 'w) rb_env \<Rightarrow> rollback_opts \<Rightarrow> repo_config \<Rightarrow> (string \<times> string) list \<Rightarrow> ('g, 't, 'w) rb_world
      \<Rightarrow> ('g, 't, 'w, unit) step" where
  "unwind_targets renv opts config [] st = (Inr (), st, [])"
| "unwind_targets renv opts config (target # targets) st =
     and_then (unwind_target renv opts config target st) (\<lambda>_. unwind_targets renv opts config targets)"

definition unwind_published_state ::
    "('t, 'w) rb_env \<Rightarrow> rollback_opts \<Rightarrow> repo_config \<Rightarrow> string list \<Rightarrow> ('g, 't, 'w) rb_world
      \<Rightarrow> ('g, 't, 'w, unit) step" where
  "unwind_published_state renv opts config tags st =
     (let targets = discover_unwind_targets (rb_os renv) (rw_files st) (resolve_dist_dir (rb_cwd renv) config) tags
      in if targets = [] then (Inr (), st, [NoRunDir tags]) else unwind_targets renv opts config targets st)"

subsection \<open>The command\<close>

definition skipped_tags :: "rollback_opts \<Rightarrow> string list \<Rightarrow> string list" where
  "skipped_tags opts tags =
     filter (\<lambda>tag. case classify_tag tag of None \<Rightarrow> True | Some kind \<Rightarrow> \<not> scope_includes (ro_scope opts) kind) tags"

definition deletable_tags :: "rollback_opts \<Rightarrow> string list \<Rightarrow> string list" where
  "deletable_tags opts tags =
     filter (\<lambda>tag. case classify_tag tag of None \<Rightarrow> False | Some kind \<Rightarrow> scope_includes (ro_scope opts) kind) tags"

definition target_tags :: "'g repo_ops \<Rightarrow> rollback_opts \<Rightarrow> 'g \<Rightarrow> (rollback_error, string \<times> string list) result" where
  "target_tags ops opts g =
     (case git_rev_parse ops g (case ro_sha opts of Some s \<Rightarrow> s | None \<Rightarrow> ''HEAD'') of
        Inl e \<Rightarrow> Inl (CommandFailed e)
      | Inr target \<Rightarrow>
          (case git_tags_at ops g target of
             Inl e \<Rightarrow> Inl (CommandFailed e)
           | Inr [] \<Rightarrow> Inl (NoTagsAt (short_sha target))
           | Inr tags \<Rightarrow> Inr (target, tags)))"

text \<open>The tags whose GitHub release this rollback owns, with the configuration the unwind reads.\<close>

definition attribution ::
    "('t, 'w) rb_env \<Rightarrow> 'g repo_ops \<Rightarrow> rollback_opts \<Rightarrow> string list \<Rightarrow> ('g, 't, 'w) rb_world
      \<Rightarrow> (rollback_error, string set \<times> repo_config option) result \<times> tag_event list" where
  "attribution renv ops opts deletable st =
     (if ro_force opts
      then (case rb_config renv of
              Inr config \<Rightarrow> (Inr (set deletable, Some config), [GuardSkipped])
            | Inl e \<Rightarrow> (Inr (set deletable, None), [GuardSkipped, ConfigSkipped e]))
      else case rb_config renv of
             Inl e \<Rightarrow> (Inl (ConfigUnloadable e), [])
           | Inr config \<Rightarrow>
               (case check_not_irreversibly_published (rb_os renv) (rw_files st) (rb_cwd renv)
                       (git_releases ops (rw_git st)) deletable config (rb_probes renv) of
                  Inl e \<Rightarrow> (Inl e, [])
                | Inr unsummarized \<Rightarrow>
                    (Inr (set (filter (\<lambda>t. t \<notin> set unsummarized) deletable), Some config), [])))"

definition check_intervening :: "'g repo_ops \<Rightarrow> rollback_opts \<Rightarrow> string \<Rightarrow> 'g \<Rightarrow> (rollback_error, unit) result" where
  "check_intervening ops opts target g =
     (if ro_mode opts \<noteq> ModeRevert then Inr ()
      else case git_commits_since ops g target of
             Inl e \<Rightarrow> Inl (CommandFailed e)
           | Inr commits \<Rightarrow>
               (let suspicious = intervening_commits commits
                in if suspicious \<noteq> [] then Inl (NonBumpCommits suspicious) else Inr ()))"

definition reset_and_delete ::
    "'g repo_ops \<Rightarrow> rollback_opts \<Rightarrow> string \<Rightarrow> string set \<Rightarrow> string list \<Rightarrow> ('g, 't, 'w) rb_world
      \<Rightarrow> ('g, 't, 'w, unit) step" where
  "reset_and_delete ops opts target attributed deletable st =
     and_then (if ro_dry_run opts then (Inr (), st, [WouldReset (short_sha target)])
               else run_git ops (ResetHard (target @ ''~1'')) st)
       (\<lambda>_ st. and_then (deleting ops opts attributed deletable st) (\<lambda>_ st. (Inr (), st, [HistoryRewritten])))"

definition revert_and_delete ::
    "'g repo_ops \<Rightarrow> rollback_opts \<Rightarrow> string \<Rightarrow> string set \<Rightarrow> string list \<Rightarrow> ('g, 't, 'w) rb_world
      \<Rightarrow> ('g, 't, 'w, unit) step" where
  "revert_and_delete ops opts target attributed deletable st =
     (let message = build_revert_message target deletable (ro_dry_run opts)
      in and_then (if ro_dry_run opts then (Inr (), st, [WouldRevert (short_sha target) message])
                   else run_git ops (RevertCommit target message) st)
           (\<lambda>_ st.
              if ro_no_push opts
              then and_then (deleting ops opts attributed deletable st) (\<lambda>_ st. (Inr (), st, [PushSkipped]))
              else case resolve_push_branch ops target (ro_branch opts) (rw_git st) of
                     Inl e \<Rightarrow> (Inl e, st, [])
                   | Inr branch \<Rightarrow>
                       and_then (if ro_dry_run opts then (Inr (), st, [WouldPush branch]) else run_git ops (PushBranch branch) st)
                         (\<lambda>_ st. deleting ops opts attributed deletable st)))"

definition withdraw_tags ::
    "('t, 'w) rb_env \<Rightarrow> 'g repo_ops \<Rightarrow> rollback_opts \<Rightarrow> string \<Rightarrow> string set \<Rightarrow> repo_config option \<Rightarrow> string list
      \<Rightarrow> ('g, 't, 'w) rb_world \<Rightarrow> ('g, 't, 'w, unit) step" where
  "withdraw_tags renv ops opts target attributed config deletable st =
     and_then (case config of Some c \<Rightarrow> unwind_published_state renv opts c deletable st | None \<Rightarrow> (Inr (), st, []))
       (\<lambda>_ st. if ro_mode opts = ModeReset then reset_and_delete ops opts target attributed deletable st
               else revert_and_delete ops opts target attributed deletable st)"

definition run_rollback ::
    "('t, 'w) rb_env \<Rightarrow> 'g repo_ops \<Rightarrow> rollback_opts \<Rightarrow> ('g, 't, 'w) rb_world \<Rightarrow> ('g, 't, 'w, unit) step" where
  "run_rollback renv ops opts st =
     (case target_tags ops opts (rw_git st) of
        Inl e \<Rightarrow> (Inl e, st, [])
      | Inr (target, all_tags) \<Rightarrow>
          (let skips = map SkippedTag (skipped_tags opts all_tags); deletable = deletable_tags opts all_tags
           in if deletable = [] then (Inr (), st, skips)
              else case attribution renv ops opts deletable st of
                     (Inl e, evs) \<Rightarrow> (Inl e, st, skips @ evs)
                   | (Inr (attributed, config), evs) \<Rightarrow>
                       (case check_intervening ops opts target (rw_git st) of
                          Inl e \<Rightarrow> (Inl e, st, skips @ evs)
                        | Inr _ \<Rightarrow>
                            (let (r, st', evs') = withdraw_tags renv ops opts target attributed config deletable st
                             in (r, st', skips @ evs @ evs')))))"

subsection \<open>Steps and their histories\<close>

fun mutates :: "tag_event \<Rightarrow> bool" where
  "mutates (RanGit cmd ok) = True"
| "mutates (UnwindRun tag dist1 evs) = True"
| "mutates _ = False"

fun decides :: "tag_event \<Rightarrow> string option" where
  "decides (RanGit (DeleteRelease tag ident) ok) = Some tag"
| "decides (RanGit (DeleteRemoteTag tag) ok) = Some tag"
| "decides (RanGit (DeleteLocalTag tag) ok) = Some tag"
| "decides (KeptTag tag) = Some tag"
| "decides (ReleaseLeft tag) = Some tag"
| "decides _ = None"

lemma and_then_cases:
  assumes "and_then m k = (r, st', evs)"
  obtains (failed) e where "m = (Inl e, st', evs)" "r = Inl e"
    | (passed) a st evs1 evs2 where "m = (Inr a, st, evs1)" "k a st = (r, st', evs2)" "evs = evs1 @ evs2"
  using assms by (auto simp: and_then_def Let_def split: prod.splits sum.splits)

lemma and_then_simps [simp]:
  "and_then (Inl e, st, evs) k = (Inl e, st, evs)"
  "and_then (Inr a, st, evs) k = (let (r, st', evs') = k a st in (r, st', evs @ evs'))"
  by (simp_all add: and_then_def)

text \<open>A step is quiet when it leaves the state alone and nothing it records is a mutation.\<close>

definition quiet :: "'s \<Rightarrow> ('e, 'a) result \<times> 's \<times> tag_event list \<Rightarrow> bool" where
  "quiet st m \<longleftrightarrow> fst (snd m) = st \<and> (\<forall>e \<in> set (snd (snd m)). \<not> mutates e)"

lemma quiet_simp [simp]: "quiet st (r, st', evs) \<longleftrightarrow> st' = st \<and> (\<forall>e \<in> set evs. \<not> mutates e)"
  by (simp add: quiet_def)

lemma quiet_and_then:
  assumes "quiet st m" and "\<And>a. quiet st (k a st)"
  shows "quiet st (and_then m k)"
proof -
  obtain r st' evs where m: "and_then m k = (r, st', evs)" by (cases "and_then m k") auto
  from m show ?thesis
  proof (cases rule: and_then_cases)
    case (failed e)
    with assms(1) m show ?thesis by simp
  next
    case (passed a st1 evs1 evs2)
    with assms(1) have "st1 = st" "\<forall>e \<in> set evs1. \<not> mutates e" by simp_all
    with assms(2) [of a] passed(2,3) m show ?thesis by auto
  qed
qed

lemma quiet_delete_tags:
  "ro_dry_run opts \<Longrightarrow> fst (delete_tags ops opts attributed tags g) = g
     \<and> (\<forall>e \<in> set (snd (delete_tags ops opts attributed tags g)). \<not> mutates e)"
  by (induction tags) (auto simp: delete_tag_def Let_def split: prod.splits)

lemma quiet_deleting: "ro_dry_run opts \<Longrightarrow> quiet st (deleting ops opts attributed tags st)"
  using quiet_delete_tags [of opts ops attributed tags "rw_git st"]
  by (cases "delete_tags ops opts attributed tags (rw_git st)") (auto simp: deleting_def)

lemma quiet_unwind_target: "ro_dry_run opts \<Longrightarrow> quiet st (unwind_target renv opts config target st)"
  by (auto simp: unwind_target_def split: sum.splits)

lemma quiet_unwind: "ro_dry_run opts \<Longrightarrow> quiet st (unwind_published_state renv opts config tags st)"
proof -
  assume dry: "ro_dry_run opts"
  have "quiet st (unwind_targets renv opts config targets st)" for targets
    by (induction targets) (simp_all add: quiet_and_then quiet_unwind_target dry)
  then show ?thesis by (simp add: unwind_published_state_def Let_def)
qed

lemma quiet_withdraw:
  assumes "ro_dry_run opts"
  shows "quiet st (withdraw_tags renv ops opts target attributed config deletable st)"
proof -
  have "quiet st (reset_and_delete ops opts target attributed deletable st)"
    unfolding reset_and_delete_def by (intro quiet_and_then) (simp_all add: assms quiet_deleting)
  moreover have "quiet st (revert_and_delete ops opts target attributed deletable st)"
    unfolding revert_and_delete_def Let_def
    by (intro quiet_and_then)
       (auto simp: assms simp del: and_then_simps intro!: quiet_and_then quiet_deleting split: sum.split)
  ultimately show ?thesis
    unfolding withdraw_tags_def
    by (intro quiet_and_then) (auto simp: assms quiet_unwind split: option.split)
qed

lemma attribution_reads: "attribution renv ops opts deletable st = (r, evs) \<Longrightarrow> e \<in> set evs \<Longrightarrow> \<not> mutates e \<and> decides e = None"
  by (auto simp: attribution_def split: if_splits sum.splits)

lemma run_rollback_cases:
  assumes "run_rollback renv ops opts st = (r, st', evs)"
  obtains (early) "st' = st" "\<forall>e \<in> set evs. \<not> mutates e \<and> decides e = None"
        "\<And>target tags. r = Inr () \<Longrightarrow> target_tags ops opts (rw_git st) = Inr (target, tags) \<Longrightarrow> deletable_tags opts tags = []"
    | (withdrew) target tags attributed config seen wevs where
        "target_tags ops opts (rw_git st) = Inr (target, tags)" "deletable_tags opts tags \<noteq> []"
        "attribution renv ops opts (deletable_tags opts tags) st = (Inr (attributed, config), seen)"
        "check_intervening ops opts target (rw_git st) = Inr ()"
        "withdraw_tags renv ops opts target attributed config (deletable_tags opts tags) st = (r, st', wevs)"
        "evs = map SkippedTag (skipped_tags opts tags) @ seen @ wevs"
proof (cases "target_tags ops opts (rw_git st)")
  case (Inl e)
  with assms show ?thesis by (intro early) (simp_all add: run_rollback_def)
next
  case (Inr found)
  obtain target tags where found: "target_tags ops opts (rw_git st) = Inr (target, tags)" using Inr by (cases found) simp
  let ?del = "deletable_tags opts tags"
  obtain answer seen where attr: "attribution renv ops opts ?del st = (answer, seen)"
    by (cases "attribution renv ops opts ?del st")
  show ?thesis
  proof (cases "\<exists>a. ?del \<noteq> [] \<and> answer = Inr a \<and> check_intervening ops opts target (rw_git st) = Inr ()")
    case True
    then obtain attributed config where "answer = Inr (attributed, config)" "?del \<noteq> []"
      "check_intervening ops opts target (rw_git st) = Inr ()" by auto
    moreover obtain r1 st1 wevs where "withdraw_tags renv ops opts target attributed config ?del st = (r1, st1, wevs)"
      by (cases "withdraw_tags renv ops opts target attributed config ?del st")
    ultimately show ?thesis
      using assms found attr by (intro withdrew [of target tags attributed config seen wevs]) (auto simp: run_rollback_def Let_def)
  next
    case False
    with assms found attr attribution_reads [OF attr] show ?thesis
      by (intro early) (auto simp: run_rollback_def Let_def split: if_splits sum.splits prod.splits)
  qed
qed

lemma run_git_mutates: "run_git ops cmd st = (r, st', evs) \<Longrightarrow> \<exists>ok. evs = [RanGit cmd ok] \<and> (r = Inr () \<longleftrightarrow> ok)"
  by (auto simp: run_git_def Let_def split: prod.splits sum.splits)

text \<open>The repository as the commands of a history leave it.\<close>

fun ran_cmd :: "tag_event \<Rightarrow> git_op option" where
  "ran_cmd (RanGit cmd ok) = Some cmd"
| "ran_cmd _ = None"

definition replay :: "'g repo_ops \<Rightarrow> tag_event list \<Rightarrow> 'g \<Rightarrow> 'g" where
  "replay ops = fold (\<lambda>e g. case ran_cmd e of None \<Rightarrow> g | Some cmd \<Rightarrow> snd (git_exec ops cmd g))"

lemma replay_simps [simp]:
  "replay ops [] g = g" "replay ops (e # es) g = replay ops es (case ran_cmd e of None \<Rightarrow> g | Some cmd \<Rightarrow> snd (git_exec ops cmd g))"
  "replay ops (xs @ ys) g = replay ops ys (replay ops xs g)"
  by (simp_all add: replay_def)

lemma replay_quiet: "\<forall>e \<in> set evs. ran_cmd e = None \<Longrightarrow> replay ops evs g = g"
  by (induction evs) auto

lemma not_mutates_ran: "\<not> mutates e \<Longrightarrow> ran_cmd e = None"
  by (cases e) auto

lemma run_git_replay: "run_git ops cmd st = (r, st', evs) \<Longrightarrow> rw_git st' = replay ops evs (rw_git st)"
  by (auto simp: run_git_def Let_def split: prod.splits)

text \<open>A step that failed before it changed anything is repeated exactly by its dry run.\<close>

lemma unwind_target_untouched:
  assumes "unwind_target renv opts config target st = (r, st', evs)" and "\<forall>e \<in> set evs. \<not> mutates e" and "\<not> ro_dry_run opts"
  shows "unwind_target renv (opts\<lparr>ro_dry_run := True\<rparr>) config target st = (r, st', evs) \<and> st' = st"
  using assms by (auto simp: unwind_target_def Let_def split: sum.splits if_splits prod.splits)

lemma unwind_targets_untouched:
  assumes "unwind_targets renv opts config targets st = (r, st', evs)" and "\<forall>e \<in> set evs. \<not> mutates e" and "\<not> ro_dry_run opts"
  shows "unwind_targets renv (opts\<lparr>ro_dry_run := True\<rparr>) config targets st = (r, st', evs)"
  using assms(1,2)
proof (induction targets arbitrary: st evs)
  case (Cons target targets)
  from Cons.prems(1) [unfolded unwind_targets.simps] show ?case
  proof (cases rule: and_then_cases)
    case (failed e)
    with unwind_target_untouched [OF failed(1) Cons.prems(2) assms(3)] show ?thesis by simp
  next
    case (passed a st1 evs1 evs2)
    with unwind_target_untouched [OF passed(1) _ assms(3)] Cons.prems(2) Cons.IH [OF passed(2)] show ?thesis by simp
  qed
qed simp

lemma revert_mutates:
  assumes "\<not> ro_dry_run opts"
  shows "\<exists>e \<in> set (snd (snd (revert_and_delete ops opts target attributed deletable st))). mutates e"
    and "\<exists>e \<in> set (snd (snd (reset_and_delete ops opts target attributed deletable st))). mutates e"
  using assms
  by (auto simp: revert_and_delete_def reset_and_delete_def and_then_def run_git_def Let_def split: sum.split prod.split)

lemma withdraw_untouched:
  assumes "withdraw_tags renv ops opts target attributed config deletable st = (r, st', evs)"
    and "\<forall>e \<in> set evs. \<not> mutates e" and "\<not> ro_dry_run opts"
  shows "withdraw_tags renv ops (opts\<lparr>ro_dry_run := True\<rparr>) target attributed config deletable st = (r, st', evs)"
  using assms(1) [unfolded withdraw_tags_def]
proof (cases rule: and_then_cases)
  case (failed e)
  then obtain c where c: "config = Some c" "unwind_published_state renv opts c deletable st = (Inl e, st', evs)" "r = Inl e"
    by (cases config) auto
  then have "unwind_published_state renv (opts\<lparr>ro_dry_run := True\<rparr>) c deletable st = (Inl e, st', evs)"
    using unwind_targets_untouched assms(2,3) by (fastforce simp: unwind_published_state_def Let_def split: if_splits)
  with c show ?thesis by (simp add: withdraw_tags_def)
next
  case (passed a st1 evs1 evs2)
  with revert_mutates [OF assms(3), of ops target attributed deletable st1] assms(2) show ?thesis
    by (auto split: if_splits)
qed

subsection \<open>The order of the steps\<close>

fun is_unwind :: "tag_event \<Rightarrow> bool" where
  "is_unwind (UnwindRun tag dist1 evs) = True"
| "is_unwind _ = False"

lemma unwind_target_events:
  "unwind_target renv opts config target st = (r, st', evs) \<Longrightarrow>
     rw_git st' = rw_git st \<and> (\<forall>e \<in> set evs. decides e = None \<and> ran_cmd e = None)"
  by (auto simp: unwind_target_def Let_def split: sum.splits if_splits prod.splits)

lemma unwind_events:
  assumes "unwind_published_state renv opts config tags st = (r, st', evs)"
  shows "rw_git st' = rw_git st \<and> (\<forall>e \<in> set evs. decides e = None \<and> ran_cmd e = None)"
proof -
  have "rw_git st' = rw_git st \<and> (\<forall>e \<in> set evs. decides e = None \<and> ran_cmd e = None)"
    if "unwind_targets renv opts config targets st = (r, st', evs)" for targets st evs
    using that
  proof (induction targets arbitrary: st evs)
    case (Cons target targets)
    from Cons.prems(1) [unfolded unwind_targets.simps] show ?case
    proof (cases rule: and_then_cases)
      case (failed e)
      from unwind_target_events [OF failed(1)] show ?thesis .
    next
      case (passed a st1 evs1 evs2)
      from unwind_target_events [OF passed(1)] Cons.IH [OF passed(2)] passed(3) show ?thesis by auto
    qed
  qed simp
  with assms show ?thesis by (auto simp: unwind_published_state_def Let_def split: if_splits)
qed

text \<open>The commands by which the version bump was undone, all of them successful.\<close>

definition bump_undone :: "rollback_opts \<Rightarrow> string \<Rightarrow> string list \<Rightarrow> tag_event list \<Rightarrow> bool" where
  "bump_undone opts target deletable evs \<longleftrightarrow>
     (if ro_mode opts = ModeReset then evs = [RanGit (ResetHard (target @ ''~1'')) True]
      else if ro_no_push opts then evs = [RanGit (RevertCommit target (build_revert_message target deletable False)) True]
      else \<exists>branch. evs = [RanGit (RevertCommit target (build_revert_message target deletable False)) True,
                           RanGit (PushBranch branch) True])"

lemma bump_undone_events: "bump_undone opts target deletable evs \<Longrightarrow> e \<in> set evs \<Longrightarrow> decides e = None \<and> \<not> is_unwind e"
  by (auto simp: bump_undone_def split: if_splits)

lemma deleting_events:
  "deleting ops opts attributed tags st = (r, st', evs) \<Longrightarrow>
     r = Inr () \<and> evs = snd (delete_tags ops opts attributed tags (rw_git st))"
  by (auto simp: deleting_def split: prod.splits)

definition undone_then_deleted ::
    "'g repo_ops \<Rightarrow> rollback_opts \<Rightarrow> string \<Rightarrow> string set \<Rightarrow> string list \<Rightarrow> 'g \<Rightarrow> tag_event list \<Rightarrow> bool" where
  "undone_then_deleted ops opts target attributed deletable g evs \<longleftrightarrow>
     (\<exists>undone rest. bump_undone opts target deletable undone
        \<and> evs = undone @ snd (delete_tags ops opts attributed deletable (replay ops undone g)) @ rest
        \<and> set rest \<subseteq> {HistoryRewritten, PushSkipped})"

lemma reset_shape:
  assumes "reset_and_delete ops opts target attributed deletable st = (r, st', evs)" "\<not> ro_dry_run opts" "ro_mode opts = ModeReset"
  shows "(\<exists>e. r = Inl e) \<and> (\<forall>e \<in> set evs. decides e = None)
     \<or> r = Inr () \<and> undone_then_deleted ops opts target attributed deletable (rw_git st) evs"
  using assms(1) [unfolded reset_and_delete_def]
proof (cases rule: and_then_cases)
  case (failed e)
  with assms(2) show ?thesis using run_git_mutates by fastforce
next
  case (passed a st1 evs1 evs2)
  from passed(1) assms(2) have "evs1 = [RanGit (ResetHard (target @ ''~1'')) True]" "rw_git st1 = replay ops evs1 (rw_git st)"
    using run_git_mutates run_git_replay by fastforce+
  moreover from passed(2) obtain dels where "evs2 = dels @ [HistoryRewritten]" "r = Inr ()"
    "dels = snd (delete_tags ops opts attributed deletable (rw_git st1))"
    by (cases rule: and_then_cases) (auto dest: deleting_events)
  ultimately show ?thesis
    using passed(3) assms(3) unfolding undone_then_deleted_def bump_undone_def
    by (intro disjI2 conjI exI [of _ evs1] exI [of _ "[HistoryRewritten]"]) simp_all
qed

lemma revert_shape:
  assumes "revert_and_delete ops opts target attributed deletable st = (r, st', evs)" "\<not> ro_dry_run opts" "ro_mode opts \<noteq> ModeReset"
  shows "(\<exists>e. r = Inl e) \<and> (\<forall>e \<in> set evs. decides e = None)
     \<or> r = Inr () \<and> undone_then_deleted ops opts target attributed deletable (rw_git st) evs"
  using assms(1) [unfolded revert_and_delete_def Let_def]
proof (cases rule: and_then_cases)
  case (failed e)
  with assms(2) show ?thesis using run_git_mutates by fastforce
next
  case (passed a st1 evs1 evs2)
  let ?reverted = "RanGit (RevertCommit target (build_revert_message target deletable False)) True"
  from passed(1) assms(2) have e1: "evs1 = [?reverted]" and g1: "rw_git st1 = replay ops evs1 (rw_git st)"
    using run_git_mutates run_git_replay by fastforce+
  show ?thesis
  proof (cases "ro_no_push opts")
    case True
    with passed(2) obtain dels where "evs2 = dels @ [PushSkipped]" "r = Inr ()"
      "dels = snd (delete_tags ops opts attributed deletable (rw_git st1))"
      by simp (cases rule: and_then_cases, auto dest: deleting_events)
    with e1 g1 passed(3) assms(3) True show ?thesis unfolding undone_then_deleted_def bump_undone_def
      by (intro disjI2 conjI exI [of _ evs1] exI [of _ "[PushSkipped]"]) simp_all
  next
    case False
    show ?thesis
    proof (cases "resolve_push_branch ops target (ro_branch opts) (rw_git st1)")
      case (Inl e)
      with False passed(2,3) e1 show ?thesis by auto
    next
      case (Inr branch)
      with False passed(2) assms(2) have "and_then (run_git ops (PushBranch branch) st1)
          (\<lambda>_. deleting ops opts attributed deletable) = (r, st', evs2)" by simp
      then show ?thesis
      proof (cases rule: and_then_cases)
        case (failed e)
        with run_git_mutates [OF failed(1)] e1 passed(3) show ?thesis by auto
      next
        case (passed b st2 evs3 evs4)
        with run_git_mutates [OF passed(1)] have e3: "evs3 = [RanGit (PushBranch branch) True]" by auto
        have "evs = (evs1 @ evs3) @ snd (delete_tags ops opts attributed deletable (replay ops (evs1 @ evs3) (rw_git st))) @ []"
          using deleting_events [OF passed(2)] run_git_replay [OF passed(1)] passed(3) \<open>evs = evs1 @ evs2\<close> g1 by simp
        moreover have "bump_undone opts target deletable (evs1 @ evs3)"
          using e1 e3 False assms(3) by (simp add: bump_undone_def)
        ultimately show ?thesis
          using deleting_events [OF passed(2)] unfolding undone_then_deleted_def by (metis empty_set empty_subsetI)
      qed
    qed
  qed
qed

lemma withdraw_shape:
  assumes "withdraw_tags renv ops opts target attributed config deletable st = (r, st', evs)" "\<not> ro_dry_run opts"
  shows "(\<exists>e. r = Inl e) \<and> (\<forall>e \<in> set evs. decides e = None)
     \<or> r = Inr () \<and> (\<exists>unwound rest. evs = unwound @ rest \<and> (\<forall>e \<in> set unwound. decides e = None \<and> ran_cmd e = None)
           \<and> undone_then_deleted ops opts target attributed deletable (rw_git st) rest)"
  using assms(1) [unfolded withdraw_tags_def]
proof (cases rule: and_then_cases)
  case (failed e)
  then show ?thesis by (cases config) (auto dest: unwind_events)
next
  case (passed a st1 evs1 evs2)
  then have "rw_git st1 = rw_git st" "\<forall>e \<in> set evs1. decides e = None \<and> ran_cmd e = None"
    by (cases config; use unwind_events in fastforce)+
  with passed(2,3) reset_shape [OF _ assms(2)] revert_shape [OF _ assms(2)] show ?thesis
    by (cases "ro_mode opts = ModeReset") fastforce+
qed

subsection \<open>What happens to one tag\<close>

fun drops_ref :: "tag_event \<Rightarrow> bool" where
  "drops_ref (RanGit (DeleteRemoteTag tag) ok) = True"
| "drops_ref (RanGit (DeleteLocalTag tag) ok) = True"
| "drops_ref _ = False"

lemma delete_tag_events:
  assumes "e \<in> set (snd (delete_tag ops opts attributed tag g))"
  shows "decides e = Some t \<Longrightarrow> t = tag" and "\<not> is_unwind e" and "e = KeptTag t \<Longrightarrow> t = tag"
    and "e = RanGit (DeleteRelease t ident) ok \<Longrightarrow> t = tag \<and> tag \<in> attributed \<and> \<not> ro_no_push opts"
  using assms
  by (auto simp: delete_tag_def delete_release_at_tag_def delete_tag_refs_def Let_def
      split: if_splits prod.splits sum.splits option.splits release_cleanup.splits)

lemma delete_tag_kept:
  assumes "KeptTag t \<in> set (snd (delete_tag ops opts attributed tag g))"
    and "e \<in> set (snd (delete_tag ops opts attributed tag g))"
  shows "\<not> drops_ref e"
  using assms
  by (auto simp: delete_tag_def delete_release_at_tag_def delete_tag_refs_def Let_def
      split: if_splits prod.splits sum.splits option.splits release_cleanup.splits)

lemma delete_tag_release_failed:
  assumes "RanGit (DeleteRelease t ident) False \<in> set (snd (delete_tag ops opts attributed tag g))"
  shows "KeptTag tag \<in> set (snd (delete_tag ops opts attributed tag g))"
  using assms
  by (auto simp: delete_tag_def delete_release_at_tag_def delete_tag_refs_def Let_def
      split: if_splits prod.splits sum.splits option.splits release_cleanup.splits)

lemma delete_tag_accounted:
  assumes "\<not> ro_dry_run opts"
  shows "KeptTag tag \<in> set (snd (delete_tag ops opts attributed tag g))
     \<or> (\<exists>ok. RanGit (DeleteLocalTag tag) ok \<in> set (snd (delete_tag ops opts attributed tag g)))"
  using assms
  by (auto simp: delete_tag_def delete_tag_refs_def Let_def split: prod.splits release_cleanup.splits)

lemma delete_tags_split:
  assumes "distinct tags"
  shows "\<exists>h. set (snd (delete_tags ops opts attributed tags g)) =
     (\<Union>tag \<in> set tags. set (snd (delete_tag ops opts attributed tag (h tag))))"
  using assms
proof (induction tags arbitrary: g)
  case (Cons tag tags)
  obtain g1 evs where first: "delete_tag ops opts attributed tag g = (g1, evs)" by (cases "delete_tag ops opts attributed tag g")
  from Cons obtain h where h: "set (snd (delete_tags ops opts attributed tags g1)) =
     (\<Union>t \<in> set tags. set (snd (delete_tag ops opts attributed t (h t))))" by (metis distinct.simps(2))
  have "(\<Union>t \<in> set tags. set (snd (delete_tag ops opts attributed t ((h(tag := g)) t)))) =
     (\<Union>t \<in> set tags. set (snd (delete_tag ops opts attributed t (h t))))"
    using Cons.prems by (intro SUP_cong) auto
  with first h have "set (snd (delete_tags ops opts attributed (tag # tags) g)) =
     (\<Union>t \<in> set (tag # tags). set (snd (delete_tag ops opts attributed t ((h(tag := g)) t))))"
    by (simp add: Let_def case_prod_beta)
  then show ?case by blast
qed simp

lemma delete_tags_member:
  assumes "e \<in> set (snd (delete_tags ops opts attributed tags g))"
  obtains tag g1 where "tag \<in> set tags" "e \<in> set (snd (delete_tag ops opts attributed tag g1))"
  using assms
proof (induction tags arbitrary: g)
  case (Cons tag tags)
  then show ?case by (auto simp: Let_def case_prod_beta)
qed simp

lemma run_shape:
  assumes "run_rollback renv ops opts st = (r, st', evs)" and "\<not> ro_dry_run opts"
  shows "(\<forall>e \<in> set evs. decides e = None)
       \<and> (\<forall>target tags. r = Inr () \<and> target_tags ops opts (rw_git st) = Inr (target, tags) \<longrightarrow> deletable_tags opts tags = [])
     \<or> (\<exists>target tags attributed config seen pre undone rest.
          target_tags ops opts (rw_git st) = Inr (target, tags)
          \<and> attribution renv ops opts (deletable_tags opts tags) st = (Inr (attributed, config), seen)
          \<and> r = Inr () \<and> bump_undone opts target (deletable_tags opts tags) undone
          \<and> evs = pre @ undone @ snd (delete_tags ops opts attributed (deletable_tags opts tags)
                (replay ops (pre @ undone) (rw_git st))) @ rest
          \<and> (\<forall>e \<in> set pre. decides e = None) \<and> set rest \<subseteq> {HistoryRewritten, PushSkipped})"
  using assms(1)
proof (cases rule: run_rollback_cases)
  case early
  then show ?thesis by blast
next
  case (withdrew target tags attributed config seen wevs)
  let ?start = "map SkippedTag (skipped_tags opts tags) @ seen"
  have pre: "\<forall>e \<in> set ?start. decides e = None \<and> ran_cmd e = None"
    using attribution_reads [OF withdrew(3)] not_mutates_ran by fastforce
  from withdraw_shape [OF withdrew(5) assms(2)] show ?thesis
  proof
    assume "(\<exists>e. r = Inl e) \<and> (\<forall>e \<in> set wevs. decides e = None)"
    with pre withdrew(6) show ?thesis by auto
  next
    assume "r = Inr () \<and> (\<exists>unwound rest. wevs = unwound @ rest \<and> (\<forall>e \<in> set unwound. decides e = None \<and> ran_cmd e = None)
           \<and> undone_then_deleted ops opts target attributed (deletable_tags opts tags) (rw_git st) rest)"
    then obtain unwound undone rest where "r = Inr ()" and
      wevs: "wevs = unwound @ undone @ snd (delete_tags ops opts attributed (deletable_tags opts tags)
         (replay ops undone (rw_git st))) @ rest"
      and un: "\<forall>e \<in> set unwound. decides e = None \<and> ran_cmd e = None" and "bump_undone opts target (deletable_tags opts tags) undone"
      "set rest \<subseteq> {HistoryRewritten, PushSkipped}"
      unfolding undone_then_deleted_def by blast
    moreover from pre un have "\<forall>e \<in> set (?start @ unwound). decides e = None" and "replay ops (?start @ unwound) (rw_git st) = rw_git st"
      by (auto intro!: replay_quiet simp del: replay_simps)
    moreover from this(2) wevs withdrew(6) have "evs = (?start @ unwound) @ undone
        @ snd (delete_tags ops opts attributed (deletable_tags opts tags) (replay ops ((?start @ unwound) @ undone) (rw_git st))) @ rest"
      by (simp only: replay_simps append_assoc)
    ultimately show ?thesis using withdrew(1,3) by blast
  qed
qed

lemma attributed_tags:
  assumes "attribution renv ops opts deletable st = (Inr (attributed, config), seen)" and "\<not> ro_force opts"
  obtains c unsummarized where "rb_config renv = Inr c" "config = Some c"
    "check_not_irreversibly_published (rb_os renv) (rw_files st) (rb_cwd renv) (git_releases ops (rw_git st)) deletable c
       (rb_probes renv) = Inr unsummarized"
    "attributed = set deletable - set unsummarized"
  using assms by (auto simp: attribution_def split: sum.splits)

definition recorded_runs :: "('t, 'w) rb_env \<Rightarrow> repo_config \<Rightarrow> ('g, 't, 'w) rb_world \<Rightarrow> run_summary set" where
  "recorded_runs renv config st =
     set (collect_run_summaries (rb_os renv) (rw_files st) (resolve_dist_dir (rb_cwd renv) config))"

subsection \<open>Properties of the command\<close>

text \<open>
  C9. Nothing is withdrawn, reverted, pushed or deleted without evidence that it is safe. If a run without
  \<open>--force\<close> performs any mutation at all, then the configuration was loaded; no recorded run of a tag it
  would delete shows a burned submitter or an irreversible publish; every crates.io, npm and PyPI version the tags
  stamp was answered as absent by its registry, no tag escaping the mapping and no name being unresolvable; no
  moderated registry reported the version as taken; each tag no recorded run accounts for has no GitHub release
  beyond a draft; and in revert mode every commit above the bump is one of the tool's own rollbacks.
\<close>
theorem mutation_needs_evidence:
  assumes "run_rollback renv ops opts st = (r, st', evs)" and "\<not> ro_force opts" and "e \<in> set evs" and "mutates e"
  shows "\<exists>target tags config. target_tags ops opts (rw_git st) = Inr (target, tags) \<and> rb_config renv = Inr config
     \<and> (\<forall>tag \<in> set (deletable_tags opts tags). \<forall>s \<in> recorded_runs renv config st.
          rs_tag s = tag \<longrightarrow> \<not> rs_irreversibly_published s \<and> burned_submitter_names s = [])
     \<and> crates_io_clear config (rb_probes renv) (deletable_tags opts tags)
     \<and> immutable_clear config (rb_probes renv) (deletable_tags opts tags)
     \<and> moderated_clear config (rb_probes renv) (deletable_tags opts tags)
     \<and> (\<forall>tag \<in> set (deletable_tags opts tags). (\<forall>s \<in> recorded_runs renv config st. rs_tag s \<noteq> tag)
          \<longrightarrow> release_clear (git_releases ops (rw_git st)) tag)
     \<and> (ro_mode opts = ModeRevert \<longrightarrow> (\<exists>commits. git_commits_since ops (rw_git st) target = Inr commits
          \<and> (\<forall>(sha, subject) \<in> set commits. own_rollback_subject subject)))"
  using assms(1)
proof (cases rule: run_rollback_cases)
  case early
  with assms(3,4) show ?thesis by blast
next
  case (withdrew target tags attributed config seen wevs)
  from withdrew(3) assms(2) obtain c unsummarized where c: "rb_config renv = Inr c"
    and guard: "check_not_irreversibly_published (rb_os renv) (rw_files st) (rb_cwd renv) (git_releases ops (rw_git st))
       (deletable_tags opts tags) c (rb_probes renv) = Inr unsummarized"
    by (rule attributed_tags)
  from withdrew(4) have "ro_mode opts = ModeRevert \<longrightarrow> (\<exists>commits. git_commits_since ops (rw_git st) target = Inr commits
          \<and> (\<forall>(sha, subject) \<in> set commits. own_rollback_subject subject))"
    by (auto simp: check_intervening_def intervening_commits_def filter_not_Nil_iff Let_def split: sum.splits if_splits)
  with withdrew(1) c guard_evidence [OF guard] show ?thesis by (auto simp: recorded_runs_def)
qed

text \<open>A repository with one release tag on its bump commit, in a checkout that never ran the release.\<close>

definition demo_repo :: "unit repo_ops" where
  "demo_repo = \<lparr>git_rev_parse = (\<lambda>g s. Inr ''0123456789''), git_tags_at = (\<lambda>g s. Inr [''v1.2.0'', ''latest'']),
     git_commits_since = (\<lambda>g s. Inr []), git_branches_containing = (\<lambda>g s. Inr [''main'']),
     git_current_branch = (\<lambda>g. Inr ''main''),
     git_releases = (\<lambda>g. \<lparr>github_slug = Inr (''acme'', ''app''), has_origin = True, release_at = (\<lambda>slug tag. Inl ''HTTP 404'')\<rparr>),
     git_exec = (\<lambda>cmd g. (Inr (), g))\<rparr>"

definition demo_rollback_config :: repo_config where
  "demo_rollback_config = \<lparr>rc_dist = ''dist'', rc_project_name = ''app'', rc_preflight_strict = False, rc_monorepo = None,
     rc_crates = [], rc_workspaces = None, rc_npms = None, rc_pypis = None\<rparr>"

definition demo_rollback_env :: "(doc, unit) rb_env" where
  "demo_rollback_env = \<lparr>rb_os = mem_os, rb_cwd = ''/repo'', rb_process_env = (\<lambda>_. None), rb_config = Inr demo_rollback_config,
     rb_probes = \<lparr>probe_crates_io = (\<lambda>n v. Inr False), probe_npm = (\<lambda>r p v. Inr False), probe_pypi = (\<lambda>r p v. Inr False),
       probe_chocolatey = (\<lambda>i v. Inr None), probe_winget = (\<lambda>s. Inr None)\<rparr>,
     rb_scm_token = (\<lambda>c ctx. Inr ctx), rb_time_vars = Inr, rb_registry = (\<lambda>ctx. []), rb_aux = []\<rparr>"

definition demo_opts :: "bool \<Rightarrow> rollback_opts" where
  "demo_opts dry = \<lparr>ro_sha = None, ro_dry_run = dry, ro_no_push = False, ro_force = False, ro_scope = ScopeAll,
     ro_mode = ModeRevert, ro_branch = None\<rparr>"

definition demo_world :: "(unit, doc, unit) rb_world" where
  "demo_world = \<lparr>rw_git = (), rw_files = (\<lambda>_. None), rw_scopes = [], rw_backoff = 0, rw_world = ()\<rparr>"

lemma demo_shapes: "regex_match LOCKSTEP_TAG_RE ''v1.2.0''" "classify_tag ''v1.2.0'' = Some Lockstep" "classify_tag ''latest'' = None"
  by code_simp+

lemma demo_targets:
  "target_tags demo_repo (demo_opts dry) () = Inr (''0123456789'', [''v1.2.0'', ''latest''])"
  "deletable_tags (demo_opts dry) [''v1.2.0'', ''latest''] = [''v1.2.0'']"
  by (simp_all add: target_tags_def demo_repo_def demo_opts_def deletable_tags_def demo_shapes scope_includes_def)

lemma demo_attribution:
  "attribution demo_rollback_env demo_repo (demo_opts dry) [''v1.2.0''] demo_world = (Inr ({}, Some demo_rollback_config), [])"
  by (simp add: attribution_def demo_opts_def demo_rollback_env_def check_not_irreversibly_published_def
      collect_run_summaries_def collect_run_summary_paths_def layout_roots_def summaries_in_def mem_os_def
      demo_rollback_config_def unsummarized_tags_def summaries_of_def tag_burned_def burned_names_def
      check_not_burned_on_crates_io_def universe_of_def crate_universe_def crate_universe_walk_def
      check_not_burned_on_npm_pypi_def immutable_entries_def check_not_burned_on_moderated_registries_def
      moderated_entries_def crates_versioned_by_tag_def monorepo_tag_prefix_def check_no_published_releases_def
      demo_repo_def probe_release_for_tag_def is_not_found_def contains_def Let_def List.map_filter_simps)

definition demo_events :: "bool \<Rightarrow> tag_event list" where
  "demo_events dry =
     (let message = build_revert_message ''0123456789'' [''v1.2.0''] dry
      in [SkippedTag ''latest'', NoRunDir [''v1.2.0'']]
         @ (if dry then [WouldRevert ''0123456'' message, WouldPush ''main'', WouldKeepRelease ''v1.2.0'', WouldDeleteTag ''v1.2.0'']
            else [RanGit (RevertCommit ''0123456789'' message) True, RanGit (PushBranch ''main'') True,
                  RanGit (DeleteRemoteTag ''v1.2.0'') True, RanGit (DeleteLocalTag ''v1.2.0'') True]))"

lemma demo_unwind:
  "unwind_published_state demo_rollback_env (demo_opts dry) demo_rollback_config tags demo_world = (Inr (), demo_world, [NoRunDir tags])"
  by (simp add: unwind_published_state_def discover_unwind_targets_def layout_roots_def demo_rollback_env_def mem_os_def)

lemma demo_withdraw:
  "withdraw_tags demo_rollback_env demo_repo (demo_opts dry) ''0123456789'' {} (Some demo_rollback_config) [''v1.2.0''] demo_world
     = (Inr (), demo_world, tl (demo_events dry))"
  unfolding withdraw_tags_def option.case demo_unwind and_then_simps
  by (cases dry)
     (simp_all add: revert_and_delete_def run_git_def deleting_def delete_tag_def
      delete_tag_refs_def delete_release_at_tag_def resolve_push_branch_def demo_events_def demo_world_def Let_def
      demo_opts_def demo_repo_def short_sha_def is_not_found_def contains_def)

lemma demo_run: "run_rollback demo_rollback_env demo_repo (demo_opts dry) demo_world = (Inr (), demo_world, demo_events dry)"
proof -
  have git: "rw_git demo_world = ()" by simp
  have skips: "skipped_tags (demo_opts dry) [''v1.2.0'', ''latest''] = [''latest'']"
    by (simp add: skipped_tags_def demo_shapes demo_opts_def scope_includes_def)
  have "check_intervening demo_repo (demo_opts dry) ''0123456789'' () = Inr ()"
    by (simp add: check_intervening_def demo_repo_def intervening_commits_def)
  then show ?thesis
    by (simp add: run_rollback_def git demo_targets skips demo_attribution demo_withdraw Let_def)
       (simp add: demo_events_def Let_def)
qed

theorem mutation_needs_evidence_witness:
  "RanGit (DeleteRemoteTag ''v1.2.0'') True \<in> set (demo_events False)
   \<and> release_clear (git_releases demo_repo ()) ''v1.2.0''"
proof -
  let ?e = "RanGit (DeleteRemoteTag ''v1.2.0'') True"
  have e: "?e \<in> set (demo_events False)" by (simp add: demo_events_def Let_def)
  from mutation_needs_evidence [OF demo_run [of False] _ e]
  have "\<forall>tag \<in> {''v1.2.0''}. (\<forall>s \<in> recorded_runs demo_rollback_env demo_rollback_config demo_world. rs_tag s \<noteq> tag)
      \<longrightarrow> release_clear (git_releases demo_repo ()) tag"
    by (auto simp: demo_targets demo_opts_def [of False] demo_rollback_env_def demo_targets(1,2) [of False, unfolded demo_opts_def])
  moreover have "recorded_runs demo_rollback_env demo_rollback_config demo_world = {}"
    by (simp add: recorded_runs_def collect_run_summaries_def collect_run_summary_paths_def layout_roots_def
        summaries_in_def demo_rollback_env_def mem_os_def List.map_filter_simps)
  ultimately show ?thesis using e by simp
qed

text \<open>
  C12. A dry run is a faithful preview. It leaves the repository, the files and the outside world exactly as they
  were and performs no mutation; and whenever the real run would stop before its first mutation -- a refusal of the guard,
  an intervening commit, no tag to delete, a context that cannot be built -- the dry run gives the same answer with the
  same history.
\<close>
theorem dry_run_previews:
  assumes "run_rollback renv ops opts st = (r, st', evs)"
  shows "(ro_dry_run opts \<longrightarrow> st' = st \<and> (\<forall>e \<in> set evs. \<not> mutates e))
     \<and> ((\<forall>e \<in> set evs. \<not> mutates e) \<longrightarrow> run_rollback renv ops (opts\<lparr>ro_dry_run := True\<rparr>) st = (r, st', evs))"
proof (rule conjI; rule impI)
  assume dry: "ro_dry_run opts"
  from assms show "st' = st \<and> (\<forall>e \<in> set evs. \<not> mutates e)"
  proof (cases rule: run_rollback_cases)
    case (withdrew target tags attributed config seen wevs)
    with quiet_withdraw [OF dry, of st renv ops target attributed config "deletable_tags opts tags"]
      attribution_reads [OF withdrew(3)] show ?thesis by auto
  qed simp
next
  assume still: "\<forall>e \<in> set evs. \<not> mutates e"
  let ?dry = "opts\<lparr>ro_dry_run := True\<rparr>"
  show "run_rollback renv ops ?dry st = (r, st', evs)"
  proof (cases "ro_dry_run opts")
    case True
    then have "?dry = opts" by simp
    with assms show ?thesis by simp
  next
    case False
    have fields: "ro_sha ?dry = ro_sha opts" "ro_scope ?dry = ro_scope opts" "ro_force ?dry = ro_force opts" "ro_mode ?dry = ro_mode opts"
      by simp_all
    have same: "target_tags ops ?dry = target_tags ops opts" "skipped_tags ?dry = skipped_tags opts"
      "deletable_tags ?dry = deletable_tags opts" "attribution renv ops ?dry = attribution renv ops opts"
      "check_intervening ops ?dry = check_intervening ops opts"
      unfolding fun_eq_iff target_tags_def skipped_tags_def deletable_tags_def attribution_def check_intervening_def fields
      by simp_all
    show ?thesis
    proof (cases "\<exists>target tags attributed config seen. target_tags ops opts (rw_git st) = Inr (target, tags)
        \<and> deletable_tags opts tags \<noteq> [] \<and> check_intervening ops opts target (rw_git st) = Inr ()
        \<and> attribution renv ops opts (deletable_tags opts tags) st = (Inr (attributed, config), seen)")
      case True
      then obtain target tags attributed config seen where
        go: "target_tags ops opts (rw_git st) = Inr (target, tags)" "deletable_tags opts tags \<noteq> []"
          "check_intervening ops opts target (rw_git st) = Inr ()"
          "attribution renv ops opts (deletable_tags opts tags) st = (Inr (attributed, config), seen)" by blast
      obtain r1 st1 wevs where w: "withdraw_tags renv ops opts target attributed config (deletable_tags opts tags) st = (r1, st1, wevs)"
        by (cases "withdraw_tags renv ops opts target attributed config (deletable_tags opts tags) st")
      with go assms have "r1 = r" "st1 = st'" "evs = map SkippedTag (skipped_tags opts tags) @ seen @ wevs"
        by (simp_all add: run_rollback_def Let_def)
      with withdraw_untouched [OF w _ False] still go show ?thesis by (simp add: run_rollback_def same Let_def)
    next
      case False
      with assms show ?thesis
        by (auto simp: run_rollback_def same Let_def split: sum.splits prod.splits if_splits)
    qed
  qed
qed

theorem dry_run_previews_witness:
  "run_rollback demo_rollback_env demo_repo (demo_opts True) demo_world = (Inr (), demo_world, demo_events True)
   \<and> filter mutates (demo_events True) = []"
  using dry_run_previews [OF demo_run [of True]] demo_run [of True] by (simp add: demo_opts_def filter_not_Nil_iff)

fun deletes :: "tag_event \<Rightarrow> bool" where
  "deletes (RanGit (DeleteRelease tag ident) ok) = True"
| "deletes (RanGit (DeleteRemoteTag tag) ok) = True"
| "deletes (RanGit (DeleteLocalTag tag) ok) = True"
| "deletes _ = False"

lemma deletes_decides: "deletes e \<Longrightarrow> decides e \<noteq> None \<and> mutates e"
  by (cases e rule: deletes.cases) auto

lemma delete_tags_no_unwind: "e \<in> set (snd (delete_tags ops opts attributed tags g)) \<Longrightarrow> \<not> is_unwind e"
  by (elim delete_tags_member) (rule delete_tag_events(2))

lemma located_after:
  assumes "as @ bs = pre @ e # post" and "e \<notin> set as"
  shows "\<exists>mid. pre = as @ mid \<and> bs = mid @ e # post"
proof -
  from assms(1) obtain us where "as = pre @ us \<and> us @ bs = e # post \<or> as @ us = pre \<and> bs = us @ e # post"
    unfolding append_eq_append_conv2 by blast
  then show ?thesis using assms(2) by (cases us) auto
qed

text \<open>
  C10. Destruction comes last. Whenever a tag or a GitHub release is deleted, the version bump has already been undone
  by commands that all succeeded -- the reset, or the revert commit and, unless \<open>--no-push\<close> is given, its push -- no publisher
  withdrawal runs afterwards, and the command as a whole succeeds: a failed withdrawal, revert or push leaves every tag in place.
\<close>
theorem destruction_comes_last:
  assumes "run_rollback renv ops opts st = (r, st', pre @ e # post)" and "deletes e"
  shows "r = Inr () \<and> (\<forall>x \<in> set post. \<not> is_unwind x)
     \<and> (\<exists>target tags undone before between. target_tags ops opts (rw_git st) = Inr (target, tags)
          \<and> bump_undone opts target (deletable_tags opts tags) undone \<and> pre = before @ undone @ between)"
proof -
  from deletes_decides [OF assms(2)] have e: "decides e \<noteq> None" "mutates e" by simp_all
  have real: "\<not> ro_dry_run opts"
  proof
    assume dry: "ro_dry_run opts"
    from assms(1) show False
    proof (cases rule: run_rollback_cases)
      case early
      with e(2) show False by simp
    next
      case (withdrew target tags attributed config seen wevs)
      have "e \<in> set (pre @ e # post)" by simp
      with withdrew(6) attribution_reads [OF withdrew(3)] e(2) have "e \<in> set wevs" by auto
      with quiet_withdraw [OF dry, of st renv ops target attributed config "deletable_tags opts tags"] withdrew(5) e(2)
      show False by simp
    qed
  qed
  from run_shape [OF assms(1) real] e(1) obtain target tags attributed config seen pre1 undone rest where
    shape: "target_tags ops opts (rw_git st) = Inr (target, tags)" "r = Inr ()"
      "bump_undone opts target (deletable_tags opts tags) undone"
      "pre @ e # post = pre1 @ undone @ snd (delete_tags ops opts attributed (deletable_tags opts tags)
         (replay ops (pre1 @ undone) (rw_git st))) @ rest"
      "\<forall>e \<in> set pre1. decides e = None" "set rest \<subseteq> {HistoryRewritten, PushSkipped}"
    by auto
  have absent: "e \<notin> set (pre1 @ undone)" using shape(5) bump_undone_events [OF shape(3)] e(1) by auto
  let ?g = "replay ops (pre1 @ undone) (rw_git st)"
  have whole: "(pre1 @ undone) @ snd (delete_tags ops opts attributed (deletable_tags opts tags) ?g) @ rest = pre @ e # post"
    using shape(4) by simp
  from located_after [OF whole absent] obtain mid where mid: "pre = (pre1 @ undone) @ mid"
    "snd (delete_tags ops opts attributed (deletable_tags opts tags) ?g) @ rest = mid @ e # post"
    by (elim exE conjE)
  have "\<not> is_unwind x" if "x \<in> set post" for x
  proof -
    have "x \<in> set (mid @ e # post)" using that by simp
    then have "x \<in> set (snd (delete_tags ops opts attributed (deletable_tags opts tags) ?g)) \<or> x \<in> set rest"
      unfolding mid(2) [symmetric] by simp
    then show ?thesis
      using delete_tags_no_unwind [of x ops opts attributed "deletable_tags opts tags" ?g] shape(6) by auto
  qed
  with shape(1-3) mid(1) show ?thesis by (metis append_assoc)
qed

theorem destruction_comes_last_witness:
  "\<exists>pre post. demo_events False = pre @ RanGit (DeleteRemoteTag ''v1.2.0'') True # post
     \<and> (\<exists>undone before between. bump_undone (demo_opts False) ''0123456789'' [''v1.2.0''] undone \<and> pre = before @ undone @ between)"
proof -
  let ?e = "RanGit (DeleteRemoteTag ''v1.2.0'') True"
  have "?e \<in> set (demo_events False)" by (simp add: demo_events_def Let_def)
  then obtain pre post where split: "demo_events False = pre @ ?e # post" by (meson split_list)
  from destruction_comes_last [OF demo_run [of False, unfolded split]]
  obtain target tags undone before between where "target_tags demo_repo (demo_opts False) (rw_git demo_world) = Inr (target, tags)"
    "bump_undone (demo_opts False) target (deletable_tags (demo_opts False) tags) undone" "pre = before @ undone @ between"
    unfolding deletes.simps by blast
  moreover from this(1) have "target = ''0123456789''" "tags = [''v1.2.0'', ''latest'']" using demo_targets(1) [of False] by simp_all
  ultimately have "bump_undone (demo_opts False) ''0123456789'' [''v1.2.0''] undone \<and> pre = before @ undone @ between"
    by (simp add: demo_targets(2))
  with split show ?thesis by blast
qed

text \<open>The release at a tag is the rollback's own: a recorded run (or \<open>--force\<close>) ties the tag to the attempt.\<close>

definition owns_release :: "('t, 'w) rb_env \<Rightarrow> rollback_opts \<Rightarrow> ('g, 't, 'w) rb_world \<Rightarrow> string \<Rightarrow> bool" where
  "owns_release renv opts st tag \<longleftrightarrow>
     ro_force opts \<or> (\<exists>config. rb_config renv = Inr config \<and> (\<exists>s \<in> recorded_runs renv config st. rs_tag s = tag))"

lemma attributed_iff_owned:
  assumes "attribution renv ops opts deletable st = (Inr (attributed, config), seen)" and "tag \<in> set deletable"
  shows "tag \<in> attributed \<longleftrightarrow> owns_release renv opts st tag"
proof (cases "ro_force opts")
  case True
  with assms show ?thesis by (auto simp: attribution_def owns_release_def split: sum.splits)
next
  case False
  from assms(1) False obtain c unsummarized where c: "rb_config renv = Inr c"
    and guard: "check_not_irreversibly_published (rb_os renv) (rw_files st) (rb_cwd renv) (git_releases ops (rw_git st))
       deletable c (rb_probes renv) = Inr unsummarized" and a: "attributed = set deletable - set unsummarized"
    by (rule attributed_tags)
  from guard_evidence [OF guard] a c False assms(2) show ?thesis by (auto simp: owns_release_def recorded_runs_def)
qed

text \<open>The lookup says that no release needs deleting: the origin is not on GitHub, or GitHub answers that there is none.\<close>

definition release_absent :: "release_env \<Rightarrow> string \<Rightarrow> bool" where
  "release_absent renv tag \<longleftrightarrow>
     (case github_slug renv of
        Inl e \<Rightarrow> True
      | Inr slug \<Rightarrow> (case release_at renv slug tag of Inl msg \<Rightarrow> is_not_found msg | Inr release_json \<Rightarrow> False))"

text \<open>One event of the deletions, in its place: the tag it is about and the repository that tag's turn starts from.\<close>

lemma delete_tag_replay: "\<not> ro_dry_run opts \<Longrightarrow> fst (delete_tag ops opts attributed tag g) = replay ops (snd (delete_tag ops opts attributed tag g)) g"
  by (auto simp: delete_tag_def delete_release_at_tag_def delete_tag_refs_def Let_def
      split: prod.splits sum.splits option.splits release_cleanup.splits if_splits)

lemma delete_tags_at:
  assumes "\<not> ro_dry_run opts" and "snd (delete_tags ops opts attributed tags g) = p @ e # q"
  shows "\<exists>tag p0 p1 p2. tag \<in> set tags \<and> p = p0 @ p1 \<and> snd (delete_tag ops opts attributed tag (replay ops p0 g)) = p1 @ e # p2"
  using assms(2)
proof (induction tags arbitrary: g p)
  case (Cons tag tags)
  let ?evs = "snd (delete_tag ops opts attributed tag g)" and ?g = "fst (delete_tag ops opts attributed tag g)"
  have whole: "?evs @ snd (delete_tags ops opts attributed tags ?g) = p @ e # q"
    using Cons.prems by (simp add: Let_def case_prod_beta)
  then obtain us where "?evs = p @ us \<and> us @ snd (delete_tags ops opts attributed tags ?g) = e # q
      \<or> ?evs @ us = p \<and> snd (delete_tags ops opts attributed tags ?g) = us @ e # q"
    unfolding append_eq_append_conv2 by blast
  then consider (here) p2 where "?evs = p @ e # p2" | (later) vs where "p = ?evs @ vs" "snd (delete_tags ops opts attributed tags ?g) = vs @ e # q"
    by (cases us) auto
  then show ?case
  proof cases
    case here
    then show ?thesis by (intro exI [of _ tag] exI [of _ "[]"] exI [of _ p] exI [of _ p2]) simp
  next
    case later
    from Cons.IH [OF later(2)] obtain t p0 p1 p2 where "t \<in> set tags" "vs = p0 @ p1"
      "snd (delete_tag ops opts attributed t (replay ops p0 ?g)) = p1 @ e # p2" by blast
    with later(1) delete_tag_replay [OF assms(1), of ops attributed tag g] show ?thesis
      by (intro exI [of _ t] exI [of _ "?evs @ p0"] exI [of _ p1] exI [of _ p2]) simp
  qed
qed simp

lemma deletion_located:
  assumes "run_rollback renv ops opts st = (r, st', pre @ e # post)" and "\<not> ro_dry_run opts" and "decides e = Some tag"
  shows "\<exists>attributed p0 p1 p2. pre = p0 @ p1 \<and> (tag \<in> attributed \<longleftrightarrow> owns_release renv opts st tag)
     \<and> snd (delete_tag ops opts attributed tag (replay ops p0 (rw_git st))) = p1 @ e # p2"
proof -
  from run_shape [OF assms(1,2)] assms(3) obtain target tags attributed config seen pre1 undone rest where
    shape: "attribution renv ops opts (deletable_tags opts tags) st = (Inr (attributed, config), seen)"
      "bump_undone opts target (deletable_tags opts tags) undone"
      "pre @ e # post = pre1 @ undone @ snd (delete_tags ops opts attributed (deletable_tags opts tags)
         (replay ops (pre1 @ undone) (rw_git st))) @ rest"
      "\<forall>e \<in> set pre1. decides e = None" "set rest \<subseteq> {HistoryRewritten, PushSkipped}"
    by auto
  let ?g = "replay ops (pre1 @ undone) (rw_git st)"
  let ?dels = "snd (delete_tags ops opts attributed (deletable_tags opts tags) ?g)"
  have absent: "e \<notin> set (pre1 @ undone)" using shape(4) bump_undone_events [OF shape(2)] assms(3) by auto
  have whole: "(pre1 @ undone) @ ?dels @ rest = pre @ e # post" using shape(3) by simp
  from located_after [OF whole absent] obtain mid where mid: "pre = (pre1 @ undone) @ mid" "?dels @ rest = mid @ e # post"
    by (elim exE conjE)
  have "e \<notin> set rest" using shape(5) assms(3) by auto
  moreover from mid(2) obtain us where "?dels = mid @ us \<and> us @ rest = e # post \<or> ?dels @ us = mid \<and> rest = us @ e # post"
    unfolding append_eq_append_conv2 by blast
  ultimately obtain q where "?dels = mid @ e # q" by (cases us) auto
  from delete_tags_at [OF assms(2) this] obtain t p0 p1 p2 where t: "t \<in> set (deletable_tags opts tags)" "mid = p0 @ p1"
    "snd (delete_tag ops opts attributed t (replay ops p0 ?g)) = p1 @ e # p2" by blast
  from t(3) delete_tag_events(1) [of e ops opts attributed t "replay ops p0 ?g" tag] assms(3) have "t = tag" by simp
  with t mid(1) attributed_iff_owned [OF shape(1), of tag] show ?thesis
    by (intro exI [of _ attributed] exI [of _ "(pre1 @ undone) @ p0"] exI [of _ p1] exI [of _ p2]) simp
qed

text \<open>The order within one tag: its release, then the remote ref, then the local one.\<close>

lemma delete_tag_order:
  assumes "snd (delete_tag ops opts attributed tag g) = p1 @ e # p2" and "\<not> ro_dry_run opts" "\<not> ro_no_push opts"
  shows "e = RanGit (DeleteLocalTag t) ok \<Longrightarrow> p1 \<noteq> [] \<and> (\<exists>ok'. last p1 = RanGit (DeleteRemoteTag t) ok')"
    and "e = RanGit (DeleteRemoteTag t) ok \<Longrightarrow> tag \<in> attributed \<Longrightarrow>
           (\<exists>ident. p1 \<noteq> [] \<and> last p1 = RanGit (DeleteRelease tag ident) True)
           \<or> p1 = [] \<and> release_absent (git_releases ops g) tag"
    and "e = ReleaseLeft t \<Longrightarrow> tag \<notin> attributed"
    and "e = KeptTag t \<Longrightarrow> tag \<in> attributed"
  using assms
  by (auto simp: delete_tag_def delete_release_at_tag_def delete_tag_refs_def Let_def release_absent_def Cons_eq_append_conv
      append_eq_Cons_conv split: prod.splits sum.splits option.splits release_cleanup.splits if_splits)

lemma fate_in_order:
  assumes "run_rollback renv ops opts st = (r, st', pre @ e # post)" and "\<not> ro_dry_run opts" "\<not> ro_no_push opts"
  shows "e = RanGit (DeleteLocalTag tag) ok \<Longrightarrow> pre \<noteq> [] \<and> (\<exists>ok'. last pre = RanGit (DeleteRemoteTag tag) ok')"
    and "e = RanGit (DeleteRemoteTag tag) ok \<Longrightarrow> owns_release renv opts st tag \<Longrightarrow>
           (\<exists>ident. pre \<noteq> [] \<and> last pre = RanGit (DeleteRelease tag ident) True)
           \<or> release_absent (git_releases ops (replay ops pre (rw_git st))) tag"
    and "e = ReleaseLeft tag \<or> e = KeptTag tag \<Longrightarrow> e = KeptTag tag \<longleftrightarrow> owns_release renv opts st tag"
proof -
  note located = deletion_located [OF assms(1,2), of tag]
  show "pre \<noteq> [] \<and> (\<exists>ok'. last pre = RanGit (DeleteRemoteTag tag) ok')" if "e = RanGit (DeleteLocalTag tag) ok"
    using located that delete_tag_order(1) [OF _ assms(2,3) that] by fastforce
  show "(\<exists>ident. pre \<noteq> [] \<and> last pre = RanGit (DeleteRelease tag ident) True)
           \<or> release_absent (git_releases ops (replay ops pre (rw_git st))) tag"
    if "e = RanGit (DeleteRemoteTag tag) ok" "owns_release renv opts st tag"
    using located that delete_tag_order(2) [OF _ assms(2,3) that(1)] by fastforce
  show "e = KeptTag tag \<longleftrightarrow> owns_release renv opts st tag" if "e = ReleaseLeft tag \<or> e = KeptTag tag"
    using located that delete_tag_order(3,4) [OF _ assms(2,3), of _ _ _ _ _ e _ tag] by fastforce
qed

text \<open>
  C11. The fate of every tag. Only tags at the target commit that have the shape of a release tag and lie in the requested
  scope are decided about, and a run that returns successfully has, for every selected tag, either kept it or gone on to
  delete it. A GitHub release is deleted only if it is the rollback's own: a recorded run (or \<open>--force\<close>) ties its tag to
  the attempt. When that deletion fails the tag is kept, and neither half of a kept tag is deleted. Unless the push is
  left out, the local tag is deleted right after the remote one was tried, and the remote tag of a release that is the
  rollback's own only right after that release was deleted, or when GitHub answers at that point that there is none (or
  the origin is not on GitHub), so never after an inconclusive lookup. Only such a tag is ever kept; a release that is not the
  rollback's own is left in place, and its tag is deleted all the same.
\<close>
theorem fate_of_every_tag:
  assumes "run_rollback renv ops opts st = (r, st', evs)" and "\<not> ro_dry_run opts"
    and "target_tags ops opts (rw_git st) = Inr (target, tags)" and "distinct tags"
  shows "(\<forall>e \<in> set evs. \<forall>t. decides e = Some t \<longrightarrow>
            t \<in> set tags \<and> (\<exists>kind. classify_tag t = Some kind \<and> scope_includes (ro_scope opts) kind))
     \<and> (RanGit (DeleteRelease tag ident) ok \<in> set evs \<longrightarrow> owns_release renv opts st tag)
     \<and> (RanGit (DeleteRelease tag ident) False \<in> set evs \<longrightarrow> KeptTag tag \<in> set evs)
     \<and> (KeptTag tag \<in> set evs \<longrightarrow> (\<forall>e \<in> set evs. decides e = Some tag \<longrightarrow> \<not> drops_ref e))
     \<and> (r = Inr () \<and> tag \<in> set (deletable_tags opts tags) \<longrightarrow>
          KeptTag tag \<in> set evs \<or> (\<exists>ok. RanGit (DeleteLocalTag tag) ok \<in> set evs))
     \<and> (\<forall>pre e post. evs = pre @ e # post \<and> \<not> ro_no_push opts \<longrightarrow>
          (e = RanGit (DeleteLocalTag tag) ok \<longrightarrow> pre \<noteq> [] \<and> (\<exists>ok'. last pre = RanGit (DeleteRemoteTag tag) ok'))
          \<and> (e = RanGit (DeleteRemoteTag tag) ok \<and> owns_release renv opts st tag \<longrightarrow>
               (\<exists>ident. pre \<noteq> [] \<and> last pre = RanGit (DeleteRelease tag ident) True)
               \<or> release_absent (git_releases ops (replay ops pre (rw_git st))) tag)
          \<and> (e = KeptTag tag \<longrightarrow> owns_release renv opts st tag)
          \<and> (e = ReleaseLeft tag \<longrightarrow> \<not> owns_release renv opts st tag))"
    (is "?all \<and> ?own \<and> ?failed \<and> ?kept \<and> ?accounted \<and> ?order")
proof -
  have order: ?order
  proof (intro allI impI)
    fix pre e post
    assume at: "evs = pre @ e # post \<and> \<not> ro_no_push opts"
    then have "run_rollback renv ops opts st = (r, st', pre @ e # post)" using assms(1) by simp
    note order = fate_in_order [OF this assms(2) conjunct2 [OF at]]
    from order(1) [of tag ok] order(2) [of tag ok] order(3) [of tag]
    show "(e = RanGit (DeleteLocalTag tag) ok \<longrightarrow> pre \<noteq> [] \<and> (\<exists>ok'. last pre = RanGit (DeleteRemoteTag tag) ok'))
          \<and> (e = RanGit (DeleteRemoteTag tag) ok \<and> owns_release renv opts st tag \<longrightarrow>
               (\<exists>ident. pre \<noteq> [] \<and> last pre = RanGit (DeleteRelease tag ident) True)
               \<or> release_absent (git_releases ops (replay ops pre (rw_git st))) tag)
          \<and> (e = KeptTag tag \<longrightarrow> owns_release renv opts st tag)
          \<and> (e = ReleaseLeft tag \<longrightarrow> \<not> owns_release renv opts st tag)"
      by auto
  qed
  let ?del = "deletable_tags opts tags"
  consider (none) "\<forall>e \<in> set evs. decides e = None" "r = Inr () \<longrightarrow> ?del = []"
    | (some) attributed config seen h where "attribution renv ops opts ?del st = (Inr (attributed, config), seen)"
        "\<And>e. decides e \<noteq> None \<Longrightarrow> e \<in> set evs \<longleftrightarrow> (\<exists>t \<in> set ?del. e \<in> set (snd (delete_tag ops opts attributed t (h t))))"
  proof -
    have dist1: "distinct ?del" using assms(4) by (simp add: deletable_tags_def)
    from run_shape [OF assms(1,2)] show ?thesis
    proof (elim disjE exE conjE)
      fix attributed config seen pre undone rest target' tags'
      assume *: "target_tags ops opts (rw_git st) = Inr (target', tags')"
        "attribution renv ops opts (deletable_tags opts tags') st = (Inr (attributed, config), seen)"
        "bump_undone opts target' (deletable_tags opts tags') undone"
        "evs = pre @ undone @ snd (delete_tags ops opts attributed (deletable_tags opts tags')
            (replay ops (pre @ undone) (rw_git st))) @ rest"
        "\<forall>e \<in> set pre. decides e = None" "set rest \<subseteq> {HistoryRewritten, PushSkipped}"
      from *(1) assms(3) have same: "tags' = tags" by simp
      let ?g = "replay ops (pre @ undone) (rw_git st)"
      from delete_tags_split [OF dist1, of ops opts attributed ?g] obtain h where
        h: "set (snd (delete_tags ops opts attributed ?del ?g)) =
          (\<Union>t \<in> set ?del. set (snd (delete_tag ops opts attributed t (h t))))" by (elim exE)
      have "e \<in> set evs \<longleftrightarrow> e \<in> set (snd (delete_tags ops opts attributed ?del ?g))" if "decides e \<noteq> None" for e
        using *(4-6) bump_undone_events [OF *(3), of e] that unfolding same by auto
      then show thesis using that(2) [of attributed config seen h] *(2) h unfolding same by blast
    next
      assume "\<forall>e \<in> set evs. decides e = None"
        "\<forall>target tags. r = Inr () \<and> target_tags ops opts (rw_git st) = Inr (target, tags) \<longrightarrow> deletable_tags opts tags = []"
      then show thesis using that(1) assms(3) by blast
    qed
  qed
  then show ?thesis
  proof cases
    case none
    have "x \<notin> set evs" if "decides x \<noteq> None" for x using none(1) that by auto
    with none have ?all ?own ?failed ?kept ?accounted by fastforce+
    with order show ?thesis by blast
  next
    case some
    have del: "t \<in> set tags \<and> (\<exists>kind. classify_tag t = Some kind \<and> scope_includes (ro_scope opts) kind)" if "t \<in> set ?del" for t
      using that by (auto simp: deletable_tags_def split: option.splits)
    have one: "t \<in> set ?del \<and> e \<in> set (snd (delete_tag ops opts attributed t (h t)))" if "e \<in> set evs" "decides e = Some t" for e t
      using some(2) [of e] that delete_tag_events(1) by (metis option.distinct(1))
    have rel: "owns_release renv opts st tag" if "RanGit (DeleteRelease tag ident) ok \<in> set evs"
    proof -
      from one [OF that] have "tag \<in> set ?del" "tag \<in> attributed" using delete_tag_events(4) by fastforce+
      with attributed_iff_owned [OF some(1)] show ?thesis by simp
    qed
    have failed: "KeptTag tag \<in> set evs" if "RanGit (DeleteRelease tag ident) False \<in> set evs"
      using one [OF that] delete_tag_release_failed some(2) [of "KeptTag tag"] by fastforce
    have kept: "\<not> drops_ref e" if "KeptTag tag \<in> set evs" "e \<in> set evs" "decides e = Some tag" for e
      using one [OF that(1), of tag] one [OF that(2,3)] delete_tag_kept by fastforce
    have all: "KeptTag tag \<in> set evs \<or> (\<exists>ok. RanGit (DeleteLocalTag tag) ok \<in> set evs)" if "tag \<in> set ?del"
      using delete_tag_accounted [OF assms(2), of tag ops attributed "h tag"] that some(2) by fastforce
    show ?thesis using del one rel failed kept all order by blast
  qed
qed

theorem fate_of_every_tag_witness:
  "KeptTag ''v1.2.0'' \<in> set (demo_events False) \<or> (\<exists>ok. RanGit (DeleteLocalTag ''v1.2.0'') ok \<in> set (demo_events False))"
proof -
  have "target_tags demo_repo (demo_opts False) (rw_git demo_world) = Inr (''0123456789'', [''v1.2.0'', ''latest''])"
    using demo_targets(1) by simp
  from fate_of_every_tag [OF demo_run [of False] _ this, of "''v1.2.0''"] show ?thesis
    by (simp add: demo_targets) (simp add: demo_opts_def)
qed

subsection \<open>Where preview and run differ\<close>

text \<open>
  Under \<open>--force\<close> an unreadable run record is only a warning for the real run, while its dry run still stops
  with an error: the preview is stricter than what it previews.
\<close>

lemma forced_preview_stricter:
  assumes "unwind_context renv config target st = Inr ctx" "prior_state_exists ctx (fst target)"
    "fst (load_prior_state (rb_os renv) ctx (fst target) False) = Inl e"
    "fst (load_prior_state (rb_os renv) ctx (fst target) True) = Inl e" "ro_force opts"
  shows "\<not> is_ok (fst (unwind_target renv (opts\<lparr>ro_dry_run := True\<rparr>) config target st))
     \<and> is_ok (fst (unwind_target renv (opts\<lparr>ro_dry_run := False\<rparr>) config target st))"
proof -
  have preview: "\<exists>e'. planned_rollback_names (rb_os renv) ctx (fst target) = Inl e'"
    using assms(3) by (cases "validate_run_id (fst target)") (auto simp: planned_rollback_names_def)
  have real: "\<exists>e' evs. run_with_publishers (rb_os renv) (rb_aux renv) ctx (fst target) (rb_registry renv ctx) = (Inl e', ctx, evs)"
    using assms(4) by (cases "load_prior_state (rb_os renv) ctx (fst target) True")
      (auto simp: run_with_publishers_def split: sum.split)
  from preview obtain e' where "planned_rollback_names (rb_os renv) ctx (fst target) = Inl e'" by blast
  moreover from real obtain e'' evs where
    "run_with_publishers (rb_os renv) (rb_aux renv) ctx (fst target) (rb_registry renv ctx) = (Inl e'', ctx, evs)" by blast
  ultimately show ?thesis using assms(1,2,5) by (simp add: unwind_target_def Let_def)
qed

text \<open>A dry run in reset mode still ends with the warning that local history was rewritten.\<close>

lemma dry_reset_claims_rewrite:
  assumes "ro_dry_run opts"
  shows "HistoryRewritten \<in> set (snd (snd (reset_and_delete ops opts target attributed deletable st)))"
  using assms by (simp add: reset_and_delete_def deleting_def Let_def split: prod.split)

end
