(* ===== verification/Duration.thy ===== *)
theory Duration
  imports Prelude
begin

section \<open>Durations (\<open>config/string_or_bool.rs\<close>, \<open>HumanDuration\<close>)\<close>

text \<open>
  \<open>std::time::Duration\<close> is a count of nanoseconds below \<open>2 ^ 64\<close> seconds; the accessors and
  constructors the sources call are written out. The parser every duration field of the
  configuration shares is a scan with a pending digit buffer; the recursion follows its
  \<open>while let Some(&c) = iter.peek()\<close> loop and ends because each turn consumes a character.

  Main results: the parser accepts exactly the language of the schema pattern, with the sum of the
  terms as its value, below the one-year cap; and the printed form of a duration is read back
  as the duration cut to whole seconds (whole milliseconds below one second).
\<close>

type_synonym duration = nat

definition nanos_per_sec :: nat where "nanos_per_sec = 1000000000"
definition nanos_per_milli :: nat where "nanos_per_milli = 1000000"

definition duration_limit :: nat where
  "duration_limit = 2 ^ 64 * nanos_per_sec"

definition from_secs :: "nat \<Rightarrow> duration" where "from_secs n = n * nanos_per_sec"
definition from_millis :: "nat \<Rightarrow> duration" where "from_millis n = n * nanos_per_milli"
definition as_secs :: "duration \<Rightarrow> nat" where "as_secs d = d div nanos_per_sec"
definition as_millis :: "duration \<Rightarrow> nat" where "as_millis d = d div nanos_per_milli"

definition checked_add_duration :: "duration \<Rightarrow> duration \<Rightarrow> duration option" where
  "checked_add_duration a b = (if a + b < duration_limit then Some (a + b) else None)"

lemmas duration_units = nanos_per_sec_def nanos_per_milli_def from_secs_def from_millis_def as_secs_def as_millis_def

definition as_humantime_string :: "duration \<Rightarrow> string" where
  "as_humantime_string d =
     (let total_secs = as_secs d
      in if total_secs = 0 then show_nat (as_millis d) @ ''ms''
         else let hours = total_secs div 3600;
                  mins = (total_secs mod 3600) div 60;
                  secs = total_secs mod 60;
                  out = (if hours > 0 then show_nat hours @ ''h'' else []);
                  out = (if mins > 0 then out @ show_nat mins @ ''m'' else out)
              in if secs > 0 \<or> out = [] then out @ show_nat secs @ ''s'' else out)"

definition is_duration_space :: "char \<Rightarrow> bool" where
  "is_duration_space c \<longleftrightarrow> c = CHR '' '' \<or> c = CHR 0x09"

definition max_duration_digits :: nat where "max_duration_digits = 19"

definition max_duration :: duration where "max_duration = from_secs 31536000"

definition trim_matches :: "(char \<Rightarrow> bool) \<Rightarrow> string \<Rightarrow> string" where
  "trim_matches P s = rev (dropWhile P (rev (dropWhile P s)))"

definition too_long :: "string \<Rightarrow> string" where
  "too_long input = [CHR 0x27] @ input @ [CHR 0x27]
     @ '' is longer than the longest duration anodizer accepts, one year ('' @ show_nat (as_secs max_duration) @ ''s)''"

text \<open>The unit at the head of the input: one character, or the two of \<open>ms\<close>, and what follows it.\<close>

definition read_unit :: "char \<Rightarrow> string \<Rightarrow> string \<times> string" where
  "read_unit c cs =
     (case cs of
        next # r \<Rightarrow> if c = CHR ''m'' \<and> next = CHR ''s'' then (''ms'', r) else ([c], cs)
      | [] \<Rightarrow> ([c], cs))"

definition checked_seconds :: "string \<Rightarrow> nat \<Rightarrow> nat \<Rightarrow> (string, duration) result" where
  "checked_seconds input n per_unit =
     (if n * per_unit < 2 ^ 64 then Inr (from_secs (n * per_unit)) else Inl (too_long input))"

definition segment_of :: "string \<Rightarrow> string \<Rightarrow> nat \<Rightarrow> (string, duration) result" where
  "segment_of input unit n =
     (if unit = ''ms'' then Inr (from_millis n)
      else if unit = ''s'' then Inr (from_secs n)
      else if unit = ''m'' then checked_seconds input n 60
      else if unit = ''h'' then checked_seconds input n 3600
      else if unit = ''d'' then checked_seconds input n 86400
      else Inl (''unknown duration unit '' @ [CHR 0x27] @ unit @ [CHR 0x27] @ '' in '' @ [CHR 0x27] @ input @ [CHR 0x27]))"

function (sequential) scan_terms :: "string \<Rightarrow> string \<Rightarrow> duration \<Rightarrow> string \<Rightarrow> bool \<Rightarrow> (string, duration) result" where
  "scan_terms input [] tot number_buf had_any =
     (if number_buf \<noteq> []
      then Inl (''trailing number '' @ [CHR 0x27] @ number_buf @ [CHR 0x27] @ '' without a unit in '' @ [CHR 0x27] @ input @ [CHR 0x27])
      else if \<not> had_any then Inl (''no duration components found in '' @ [CHR 0x27] @ input @ [CHR 0x27])
      else Inr tot)"
| "scan_terms input (c # cs) tot number_buf had_any =
     (if is_duration_space c then scan_terms input cs tot number_buf had_any
      else if is_ascii_digit c then scan_terms input cs tot (number_buf @ [c]) had_any
      else if number_buf = [] then Inl (''expected digit before unit in '' @ [CHR 0x27] @ input @ [CHR 0x27])
      else let (unit, rest) = read_unit c cs
           in if length number_buf > max_duration_digits
              then Inl (''number '' @ [CHR 0x27] @ number_buf @ [CHR 0x27] @ '' in '' @ [CHR 0x27] @ input @ [CHR 0x27]
                     @ '' has more than '' @ show_nat max_duration_digits @ '' digits'')
              else case parse_u64 number_buf of
                     None \<Rightarrow> Inl (''invalid number '' @ [CHR 0x27] @ number_buf @ [CHR 0x27] @ '' in '' @ [CHR 0x27] @ input @ [CHR 0x27]
                               @ '': number too large to fit in target type'')
                   | Some n \<Rightarrow>
                       (case segment_of input unit n of
                          Inl e \<Rightarrow> Inl e
                        | Inr segment \<Rightarrow>
                            (case checked_add_duration tot segment of
                               None \<Rightarrow> Inl (too_long input)
                             | Some t \<Rightarrow>
                                 if t \<le> max_duration then scan_terms input rest t [] True
                                 else Inl (too_long input))))"
  by pat_completeness auto

lemma read_unit_shrinks: "read_unit c cs = (unit, rest) \<Longrightarrow> length rest \<le> length cs"
  by (auto simp: read_unit_def split: list.splits if_splits)

termination scan_terms
  by (relation "measure (\<lambda>(input, s, _). length s)")
    (auto simp: less_Suc_eq_le intro: read_unit_shrinks [OF sym])

definition parse_humantime_duration :: "string \<Rightarrow> (string, duration) result" where
  "parse_humantime_duration input =
     (let s = trim_matches is_duration_space input
      in if s = [] then Inl ''empty duration string'' else scan_terms input s 0 [] False)"


section \<open>Properties\<close>

subsection \<open>The language of the schema pattern\<close>

text \<open>
  \<open>HUMAN_DURATION_PATTERN\<close>: leading blanks, then one or more terms, each a number of 1 to 19
  digits with blanks allowed after the first digit, a unit, and blanks. A term is worth its number
  times its unit.
\<close>

definition term_number :: "string \<Rightarrow> bool" where
  "term_number w \<longleftrightarrow> w \<noteq> [] \<and> is_ascii_digit (hd w) \<and> list_all (\<lambda>c. is_ascii_digit c \<or> is_duration_space c) w
     \<and> length (filter is_ascii_digit w) \<le> max_duration_digits"

definition number_value :: "string \<Rightarrow> nat" where
  "number_value w = digits_val (filter is_ascii_digit w)"

definition unit_nanos :: "string \<Rightarrow> nat option" where
  "unit_nanos = map_of [(''ms'', nanos_per_milli), (''s'', nanos_per_sec), (''m'', 60 * nanos_per_sec),
     (''h'', 3600 * nanos_per_sec), (''d'', 86400 * nanos_per_sec)]"

abbreviation blanks :: "string \<Rightarrow> bool" where
  "blanks s \<equiv> list_all is_duration_space s"

inductive duration_terms :: "string \<Rightarrow> nat \<Rightarrow> bool" where
  last_term: "term_number w \<Longrightarrow> unit_nanos u = Some k \<Longrightarrow> blanks sp \<Longrightarrow>
    duration_terms (w @ u @ sp) (number_value w * k)"
| more_terms: "term_number w \<Longrightarrow> unit_nanos u = Some k \<Longrightarrow> blanks sp \<Longrightarrow> duration_terms rest t \<Longrightarrow>
    duration_terms (w @ u @ sp @ rest) (number_value w * k + t)"

lemma unit_nanos_cases [consumes 1, case_names ms s m h d]:
  assumes "unit_nanos u = Some k"
  obtains "u = ''ms''" "k = nanos_per_milli" | "u = ''s''" "k = nanos_per_sec" | "u = ''m''" "k = 60 * nanos_per_sec"
  | "u = ''h''" "k = 3600 * nanos_per_sec" | "u = ''d''" "k = 86400 * nanos_per_sec"
  using assms by (auto simp: unit_nanos_def split: if_splits)

lemma blank_not_digit: "is_duration_space c \<Longrightarrow> \<not> is_ascii_digit c"
  by (auto simp: is_duration_space_def)

lemma duration_terms_hd: "duration_terms s t \<Longrightarrow> s \<noteq> [] \<and> is_ascii_digit (hd s)"
  by (induction rule: duration_terms.induct) (auto simp: term_number_def)

subsection \<open>The scan\<close>

lemma scan_blanks: "blanks sp \<Longrightarrow> scan_terms input (sp @ s) t b h = scan_terms input s t b h"
  by (induction sp) simp_all

lemma scan_number:
  "list_all (\<lambda>c. is_ascii_digit c \<or> is_duration_space c) w \<Longrightarrow>
   scan_terms input (w @ s) t b h = scan_terms input s t (b @ filter is_ascii_digit w) h"
  by (induction w arbitrary: b) (auto simp: blank_not_digit)

lemma digits_val_bound: "list_all is_ascii_digit ds \<Longrightarrow> digits_val ds < 10 ^ length ds"
proof (induction ds rule: rev_induct)
  case (snoc c ds)
  then have "is_ascii_digit c" by simp
  then have "digit_val c \<le> 9" by (auto simp: digit_val_def is_ascii_digit_def)
  with snoc show ?case by (simp add: digits_val_snoc)
qed (simp add: digits_val_def)

lemma digits_val_u64:
  assumes "list_all is_ascii_digit ds" "length ds \<le> max_duration_digits"
  shows "digits_val ds < 2 ^ 64"
proof -
  have "digits_val ds < 10 ^ length ds" using assms(1) by (rule digits_val_bound)
  also have "\<dots> \<le> 10 ^ 19" using assms(2) by (intro power_increasing) (simp_all add: max_duration_digits_def)
  finally show ?thesis by simp
qed

text \<open>One term's worth is added, or refused at the cap; no intermediate overflow hides a large value.\<close>

lemma checked_step:
  assumes "seg = Inr x \<or> seg = Inl (too_long input) \<and> max_duration < x"
  shows "(case seg of Inl e \<Rightarrow> Inl e
     | Inr segment \<Rightarrow> (case checked_add_duration t segment of None \<Rightarrow> Inl (too_long input)
         | Some t' \<Rightarrow> if t' \<le> max_duration then f t' else Inl (too_long input)))
   = (if t + x \<le> max_duration then f (t + x) else Inl (too_long input))"
proof -
  have "max_duration < duration_limit" by (simp add: max_duration_def duration_limit_def duration_units)
  with assms show ?thesis by (auto simp: checked_add_duration_def)
qed

lemma checked_seconds_worth:
  "checked_seconds input n p = Inr (n * (p * nanos_per_sec))
   \<or> checked_seconds input n p = Inl (too_long input) \<and> max_duration < n * (p * nanos_per_sec)"
proof (cases "n * p < 2 ^ 64")
  case False
  then have "2 ^ 64 * nanos_per_sec \<le> n * p * nanos_per_sec" by (intro mult_right_mono) simp_all
  moreover have "max_duration < 2 ^ 64 * nanos_per_sec" by (simp add: max_duration_def duration_units)
  ultimately have "max_duration < n * (p * nanos_per_sec)" by (simp only: mult.assoc)
  with False show ?thesis by (simp add: checked_seconds_def)
qed (simp add: checked_seconds_def from_secs_def mult.assoc)

lemma segment_worth:
  assumes "unit_nanos u = Some k"
  shows "segment_of input u n = Inr (n * k) \<or> segment_of input u n = Inl (too_long input) \<and> max_duration < n * k"
  using assms
proof (cases rule: unit_nanos_cases)
  case m
  then show ?thesis using checked_seconds_worth [of input n 60] by (simp add: segment_of_def)
next
  case h
  then show ?thesis using checked_seconds_worth [of input n 3600] by (simp add: segment_of_def)
next
  case d
  then show ?thesis using checked_seconds_worth [of input n 86400] by (simp add: segment_of_def)
qed (simp_all add: segment_of_def from_secs_def from_millis_def)

lemma segment_units: "segment_of input u n = Inr seg \<Longrightarrow> \<exists>k. unit_nanos u = Some k \<and> seg = n * k"
  by (auto simp: segment_of_def unit_nanos_def checked_seconds_def duration_units split: if_splits)

lemma unit_head:
  assumes "unit_nanos u = Some k" "u = ''m'' \<Longrightarrow> s = [] \<or> hd s \<noteq> CHR ''s''"
  obtains c cs where "u @ s = c # cs" "read_unit c cs = (u, s)" "\<not> is_duration_space c" "\<not> is_ascii_digit c"
  using assms(1)
proof (cases rule: unit_nanos_cases)
  case m
  with assms(2) have "read_unit (CHR ''m'') s = (u, s)" by (auto simp: read_unit_def split: list.splits)
  with m that [of "CHR ''m''" s] show ?thesis by (simp add: is_duration_space_def)
qed (use that in \<open>auto simp: read_unit_def is_duration_space_def split: list.splits\<close>)

lemma scan_unit:
  assumes "unit_nanos u = Some k" "u = ''m'' \<Longrightarrow> s = [] \<or> hd s \<noteq> CHR ''s''"
    and "b \<noteq> []" "list_all is_ascii_digit b" "length b \<le> max_duration_digits"
  shows "scan_terms input (u @ s) t b h =
     (if t + digits_val b * k \<le> max_duration then scan_terms input s (t + digits_val b * k) [] True
      else Inl (too_long input))"
proof -
  obtain c cs where "u @ s = c # cs" "read_unit c cs = (u, s)" "\<not> is_duration_space c" "\<not> is_ascii_digit c"
    using assms(1,2) by (rule unit_head)
  moreover have "parse_u64 b = Some (digits_val b)"
    using assms(3,4) digits_val_u64 [OF assms(4,5)] by (simp add: parse_u64_digits)
  ultimately show ?thesis
    using assms(3,5) checked_step [OF segment_worth [OF assms(1), of input "digits_val b"], where t = t and f = "\<lambda>t. scan_terms input s t [] True"]
    by simp
qed

text \<open>The scan on a string of the language, and what every accepted string looks like.\<close>

lemma scan_term:
  assumes "term_number w" "unit_nanos u = Some k" "u = ''m'' \<Longrightarrow> s = [] \<or> hd s \<noteq> CHR ''s''"
  shows "scan_terms input (w @ u @ s) t [] h =
     (if t + number_value w * k \<le> max_duration then scan_terms input s (t + number_value w * k) [] True
      else Inl (too_long input))"
proof -
  let ?b = "filter is_ascii_digit w"
  have "scan_terms input (w @ u @ s) t [] h = scan_terms input (u @ s) t ?b h"
    using assms(1) scan_number [of w input "u @ s" t "[]" h] by (simp add: term_number_def)
  moreover have "?b \<noteq> []" using assms(1) by (cases w) (simp_all add: term_number_def)
  moreover have "list_all is_ascii_digit ?b" by (simp add: list_all_iff)
  ultimately show ?thesis
    using assms scan_unit [of u k s ?b input t h] by (simp add: term_number_def number_value_def)
qed

lemma hd_blanks_append:
  "blanks sp \<Longrightarrow> sp @ s = [] \<or> hd (sp @ s) \<noteq> CHR ''s''" if "s = [] \<or> is_ascii_digit (hd s)"
  using that by (cases sp) (auto simp: is_duration_space_def)

lemma scan_accepts:
  "duration_terms s t \<Longrightarrow> t0 \<le> max_duration \<Longrightarrow>
   scan_terms input s t0 [] h = (if t0 + t \<le> max_duration then Inr (t0 + t) else Inl (too_long input))"
proof (induction arbitrary: t0 h rule: duration_terms.induct)
  case (last_term w u k sp)
  have "sp = [] \<or> hd sp \<noteq> CHR ''s''" using hd_blanks_append [of "[]" sp] last_term by simp
  with last_term show ?case
    using scan_term [of w u k sp input t0 h] scan_blanks [of sp input "[]" "t0 + number_value w * k" "[]" True] by simp
next
  case (more_terms w u k sp rest t)
  have "sp @ rest = [] \<or> hd (sp @ rest) \<noteq> CHR ''s''"
    using hd_blanks_append [of rest sp] duration_terms_hd [OF more_terms.hyps(4)] more_terms.hyps(3) by blast
  then show ?case
    using more_terms.hyps more_terms.IH [of "t0 + number_value w * k" True]
      scan_term [of w u k "sp @ rest" input t0 h] scan_blanks [of sp input rest "t0 + number_value w * k" "[]" True]
    by (simp add: add.assoc)
qed

text \<open>What is left after a unit or a blank, and what is left while a number is being read.\<close>

definition terms_tail :: "string \<Rightarrow> nat \<Rightarrow> bool" where
  "terms_tail s t \<longleftrightarrow> (blanks s \<and> t = 0) \<or> (\<exists>sp r. s = sp @ r \<and> blanks sp \<and> duration_terms r t)"

definition number_tail :: "string \<Rightarrow> string \<Rightarrow> nat \<Rightarrow> bool" where
  "number_tail b s t \<longleftrightarrow> (\<exists>w u k rest t'. s = w @ u @ rest \<and> list_all (\<lambda>c. is_ascii_digit c \<or> is_duration_space c) w
     \<and> unit_nanos u = Some k \<and> length b + length (filter is_ascii_digit w) \<le> max_duration_digits
     \<and> terms_tail rest t' \<and> t = digits_val (b @ filter is_ascii_digit w) * k + t')"

lemma terms_tail_blank: "is_duration_space c \<Longrightarrow> terms_tail s t \<Longrightarrow> terms_tail (c # s) t"
  unfolding terms_tail_def by (metis append_Cons list.pred_inject(2))

lemma terms_tail_terms: "duration_terms s t \<Longrightarrow> terms_tail s t"
  unfolding terms_tail_def by (auto intro: exI [of _ "[]"])

lemma number_tail_Cons:
  assumes "is_ascii_digit c \<and> b' = b @ [c] \<or> is_duration_space c \<and> b' = b" "number_tail b' s t"
  shows "number_tail b (c # s) t"
proof -
  obtain w u k rest t' where "s = w @ u @ rest" "list_all (\<lambda>c. is_ascii_digit c \<or> is_duration_space c) w"
    "unit_nanos u = Some k" "length b' + length (filter is_ascii_digit w) \<le> max_duration_digits"
    "terms_tail rest t'" "t = digits_val (b' @ filter is_ascii_digit w) * k + t'"
    using assms(2) unfolding number_tail_def by blast
  moreover have "b' @ filter is_ascii_digit w = b @ filter is_ascii_digit (c # w)"
    using assms(1) by (auto simp: blank_not_digit)
  moreover from this have "length b' + length (filter is_ascii_digit w) = length b + length (filter is_ascii_digit (c # w))"
    by (metis length_append)
  moreover have "list_all (\<lambda>c. is_ascii_digit c \<or> is_duration_space c) (c # w)" using assms(1) calculation(2) by auto
  ultimately have "c # s = (c # w) @ u @ rest \<and> list_all (\<lambda>c. is_ascii_digit c \<or> is_duration_space c) (c # w)
      \<and> unit_nanos u = Some k \<and> length b + length (filter is_ascii_digit (c # w)) \<le> max_duration_digits
      \<and> terms_tail rest t' \<and> t = digits_val (b @ filter is_ascii_digit (c # w)) * k + t'" by simp
  then show ?thesis unfolding number_tail_def by blast
qed

lemma number_tail_start:
  assumes "is_ascii_digit c" "number_tail [c] s t"
  shows "duration_terms (c # s) t"
proof -
  obtain w u k rest t' where s: "s = w @ u @ rest" and w: "list_all (\<lambda>c. is_ascii_digit c \<or> is_duration_space c) w"
    and u: "unit_nanos u = Some k" and len: "length [c] + length (filter is_ascii_digit w) \<le> max_duration_digits"
    and tail: "terms_tail rest t'" and t: "t = digits_val ([c] @ filter is_ascii_digit w) * k + t'"
    using assms(2) unfolding number_tail_def by blast
  have num: "term_number (c # w)" using assms(1) w len by (simp add: term_number_def)
  have val: "number_value (c # w) = digits_val ([c] @ filter is_ascii_digit w)" using assms(1) by (simp add: number_value_def)
  show ?thesis
    using tail last_term [OF num u, of rest] more_terms [OF num u]
    by (auto simp: terms_tail_def s t val)
qed

lemma scan_rejects_rest:
  "scan_terms input s t0 b h = Inr d \<Longrightarrow> list_all is_ascii_digit b \<Longrightarrow>
   \<exists>t. d = t0 + t \<and> (if b = [] then terms_tail s t \<and> (h \<or> \<not> blanks s) else number_tail b s t)"
proof (induction input s t0 b h rule: scan_terms.induct)
  case (1 input t0 b h)
  then show ?case by (auto simp: terms_tail_def split: if_splits)
next
  case (2 input c cs t0 b h)
  consider (blank) "is_duration_space c" | (digit) "\<not> is_duration_space c" "is_ascii_digit c"
    | (other) "\<not> is_duration_space c" "\<not> is_ascii_digit c" by blast
  then show ?case
  proof cases
    case blank
    with 2 show ?thesis by (auto intro: terms_tail_blank number_tail_Cons split: if_splits)
  next
    case digit
    with 2 obtain t where "d = t0 + t" "number_tail (b @ [c]) cs t" by auto
    with digit show ?thesis
      using number_tail_start [of c cs t] number_tail_Cons [of c "b @ [c]" b cs t]
      by (auto intro: terms_tail_terms)
  next
    case other
    obtain u rest where r: "read_unit c cs = (u, rest)" by (cases "read_unit c cs")
    then have cs: "c # cs = u @ rest" by (auto simp: read_unit_def split: list.splits if_splits)
    from 2(4) other r have b: "b \<noteq> []" "length b \<le> max_duration_digits" by (auto split: if_splits)
    with 2(4) other r obtain n seg t1 where n: "parse_u64 b = Some n" "segment_of input u n = Inr seg"
        "checked_add_duration t0 seg = Some t1" "t1 \<le> max_duration" "scan_terms input rest t1 [] True = Inr d"
      by (auto split: option.splits sum.splits if_splits)
    have "\<exists>t. d = t1 + t \<and> terms_tail rest t"
      using 2(3) [OF other b(1) r [symmetric] refl _ n(1,2,3,4,5)] b(2) by simp
    then obtain t where t: "d = t1 + t" "terms_tail rest t" by blast
    obtain k where k: "unit_nanos u = Some k" "seg = n * k" using segment_units [OF n(2)] by blast
    have "n = digits_val b" using n(1) b(1) 2(5) by (simp add: parse_u64_digits split: if_splits)
    moreover have "t1 = t0 + seg" using n(3) by (simp add: checked_add_duration_def split: if_splits)
    ultimately have "number_tail b (c # cs) (seg + t)"
      unfolding number_tail_def using b k t cs
      by (intro exI [of _ "[]"] exI [of _ u] exI [of _ k] exI [of _ rest] exI [of _ t]) simp
    with \<open>t1 = t0 + seg\<close> t b show ?thesis by auto
  qed
qed

lemma scan_trailing_blanks: "blanks sp \<Longrightarrow> scan_terms input (s @ sp) t b h = scan_terms input s t b h"
proof (induction input s t b h rule: scan_terms.induct)
  case (1 input t b h)
  then show ?case using scan_blanks [of sp input "[]" t b h] by simp
next
  case (2 input c cs t b h)
  have "read_unit c (cs @ sp) = (fst (read_unit c cs), snd (read_unit c cs) @ sp)"
    using \<open>blanks sp\<close> by (cases cs; cases sp) (auto simp: read_unit_def is_duration_space_def)
  with 2 show ?case
    by (cases "read_unit c cs") (simp split: option.split sum.split)
qed

lemma scan_cap: "scan_terms input s t b h = Inr d \<Longrightarrow> t \<le> max_duration \<Longrightarrow> d \<le> max_duration"
  by (induction input s t b h rule: scan_terms.induct)
    (auto split: if_splits prod.splits option.splits sum.splits)

lemma trim_matches_split:
  obtains l r where "s = l @ trim_matches P s @ r" "list_all P l" "list_all P r"
proof -
  let ?m = "dropWhile P s"
  have "s = takeWhile P s @ ?m" by simp
  moreover have "?m = trim_matches P s @ rev (takeWhile P (rev ?m))"
    unfolding trim_matches_def by (metis rev_append rev_rev_ident takeWhile_dropWhile_id)
  ultimately have "s = takeWhile P s @ trim_matches P s @ rev (takeWhile P (rev ?m))" by simp
  moreover have "list_all P (takeWhile P s)" "list_all P (rev (takeWhile P (rev ?m)))"
    by (auto simp: list_all_iff dest: set_takeWhileD)
  ultimately show ?thesis by (rule that)
qed

lemma parse_scans_input:
  "parse_humantime_duration input =
     (if blanks input then Inl ''empty duration string'' else scan_terms input input 0 [] False)"
proof -
  obtain l r where split: "input = l @ trim_matches is_duration_space input @ r" "blanks l" "blanks r"
    by (rule trim_matches_split)
  then have "scan_terms input input 0 [] False = scan_terms input (trim_matches is_duration_space input) 0 [] False"
    by (metis append.assoc scan_blanks scan_trailing_blanks)
  moreover have "trim_matches is_duration_space input = [] \<longleftrightarrow> blanks input"
  proof
    assume "trim_matches is_duration_space input = []"
    with split show "blanks input" by (metis append_Nil list_all_append)
  qed (auto simp: trim_matches_def list_all_iff dropWhile_eq_Nil_conv dest: set_dropWhileD)
  ultimately show ?thesis by (simp add: parse_humantime_duration_def)
qed

lemma duration_terms_not_blank: "duration_terms s t \<Longrightarrow> \<not> blanks (sp @ s)"
  using duration_terms_hd [of s t] blank_not_digit [of "hd s"] by (cases s) auto

lemma grammar_accepts:
  "blanks sp \<Longrightarrow> duration_terms s d \<Longrightarrow>
   parse_humantime_duration (sp @ s) = (if d \<le> max_duration then Inr d else Inl (too_long (sp @ s)))"
  using duration_terms_not_blank [of s d sp]
  by (simp add: parse_scans_input scan_blanks scan_accepts del: list_all_append)

text \<open>
  C34. The duration grammar of the configuration: a string is accepted, with a value, exactly when it
  is blanks followed by one or more terms of the schema pattern whose values add up to that value,
  and the sum is at most one year; a string of the pattern above the cap is refused with the error
  that names the value.
\<close>
theorem duration_grammar:
  "(parse_humantime_duration input = Inr d \<longleftrightarrow>
      (\<exists>sp s. input = sp @ s \<and> blanks sp \<and> duration_terms s d) \<and> d \<le> max_duration)
   \<and> ((\<exists>sp s. input = sp @ s \<and> blanks sp \<and> duration_terms s d) \<and> max_duration < d \<longrightarrow>
      parse_humantime_duration input = Inl (too_long input))"
proof -
  have "(\<exists>sp s. input = sp @ s \<and> blanks sp \<and> duration_terms s d) \<and> d \<le> max_duration"
    if p: "parse_humantime_duration input = Inr d"
  proof -
    from p have scan: "scan_terms input input 0 [] False = Inr d" "\<not> blanks input"
      by (simp_all add: parse_scans_input split: if_splits)
    with scan_rejects_rest [of input input 0 "[]" False d] scan_cap [OF scan(1)] show ?thesis
      by (auto simp: terms_tail_def)
  qed
  then show ?thesis using grammar_accepts by auto
qed

theorem duration_grammar_witness:
  "parse_humantime_duration '' 366d'' = Inl (too_long '' 366d'')"
proof -
  have "term_number ''366''" "number_value ''366'' = 366"
    by (simp_all add: term_number_def number_value_def max_duration_digits_def digits_val_def digit_val_def)
  then have "duration_terms ''366d'' (366 * (86400 * nanos_per_sec))"
    using last_term [of "''366''" "''d''" "86400 * nanos_per_sec" "[]"] by (simp add: unit_nanos_def)
  moreover have "blanks '' ''" by (simp add: is_duration_space_def)
  moreover have "max_duration < 366 * (86400 * nanos_per_sec)" by (simp add: max_duration_def duration_units)
  moreover have "'' 366d'' = '' '' @ ''366d''" by simp
  ultimately show ?thesis using duration_grammar [of "'' 366d''" "366 * (86400 * nanos_per_sec)"] by metis
qed

subsection \<open>Printing and reading back\<close>

lemma length_show_nat: "n < 10 ^ Suc k \<Longrightarrow> length (show_nat n) \<le> Suc k"
proof (induction k arbitrary: n)
  case (Suc k)
  have "n div 10 < 10 ^ Suc k" using Suc.prems by (simp add: less_mult_imp_div_less)
  with Suc.IH [of "n div 10"] show ?case by (subst show_nat.simps) simp
qed (simp add: show_nat.simps)

lemma show_term:
  assumes "n < 10 ^ 19" "unit_nanos u = Some k"
  shows "duration_terms (show_nat n @ u) (n * k)"
    and "duration_terms rest t \<Longrightarrow> duration_terms (show_nat n @ u @ rest) (n * k + t)"
proof -
  have digits: "filter is_ascii_digit (show_nat n) = show_nat n"
    using show_nat_digits [of n] by (simp add: filter_id_conv list_all_iff)
  then have "term_number (show_nat n)" "number_value (show_nat n) = n"
    using show_nat_digits [of n] show_nat_ne [of n] length_show_nat [of n 18] assms(1)
    by (auto simp: term_number_def number_value_def max_duration_digits_def list_all_iff)
  then show "duration_terms (show_nat n @ u) (n * k)"
    and "duration_terms rest t \<Longrightarrow> duration_terms (show_nat n @ u @ rest) (n * k + t)"
    using last_term [of "show_nat n" u k "[]"] more_terms [of "show_nat n" u k "[]" rest t] assms(2) by simp_all
qed

text \<open>What is left of a duration once it is printed: whole seconds, or whole milliseconds below one second.\<close>

definition printed_part :: "duration \<Rightarrow> duration" where
  "printed_part d = (if d < nanos_per_sec then d - d mod nanos_per_milli else d - d mod nanos_per_sec)"

lemma hms_worth: "(n div 3600) * (3600 * k) + (n mod 3600 div 60) * (60 * k) + (n mod 60) * k = n * (k :: nat)"
proof -
  have "n mod 3600 mod 60 = n mod 60" by (rule mod_mod_cancel) simp
  then have "n = (n div 3600) * 3600 + (n mod 3600 div 60) * 60 + n mod 60"
    using div_mult_mod_eq [of n 3600] div_mult_mod_eq [of "n mod 3600" 60] by linarith
  then have "n * k = ((n div 3600) * 3600 + (n mod 3600 div 60) * 60 + n mod 60) * k" by simp
  then show ?thesis by (simp add: algebra_simps)
qed

lemma as_humantime_terms:
  assumes "d \<le> max_duration"
  shows "duration_terms (as_humantime_string d) (printed_part d)"
proof (cases "as_secs d = 0")
  case True
  then have "d < nanos_per_sec" by (simp add: duration_units div_eq_0_iff)
  moreover have "as_millis d * nanos_per_milli = d - d mod nanos_per_milli" by (simp add: as_millis_def minus_mod_eq_div_mult)
  moreover have "as_millis d < 10 ^ 19" using assms by (simp add: duration_units max_duration_def)
  ultimately show ?thesis
    using show_term(1) [of "as_millis d" "''ms''" nanos_per_milli] True
    by (simp add: as_humantime_string_def printed_part_def unit_nanos_def)
next
  case False
  let ?n = "as_secs d"
  have n: "?n div 3600 < 10 ^ 19" "?n mod 3600 div 60 < 10 ^ 19" "?n mod 60 < 10 ^ 19"
    using assms by (simp_all add: duration_units max_duration_def)
  have unit: "unit_nanos ''h'' = Some (3600 * nanos_per_sec)" "unit_nanos ''m'' = Some (60 * nanos_per_sec)"
    "unit_nanos ''s'' = Some nanos_per_sec" by (simp_all add: unit_nanos_def)
  have "printed_part d = ?n * nanos_per_sec"
    using False by (auto simp: printed_part_def as_secs_def minus_mod_eq_div_mult)
  with hms_worth [of ?n nanos_per_sec]
  have worth: "printed_part d = ?n div 3600 * (3600 * nanos_per_sec) + ?n mod 3600 div 60 * (60 * nanos_per_sec) + ?n mod 60 * nanos_per_sec"
    by simp
  show ?thesis
    using False show_term [OF n(1) unit(1)] show_term [OF n(2) unit(2)] show_term(1) [OF n(3) unit(3)]
    unfolding worth as_humantime_string_def Let_def
    by (auto simp: add.assoc)
qed

text \<open>
  A duration of at most a year printed in its canonical form is read back by the configuration
  parser as the same duration cut to whole seconds, or to whole milliseconds below one second: a
  serialised configuration reloads, and nothing but the fraction the printed form leaves out is lost.
\<close>
theorem humantime_roundtrip:
  assumes "d \<le> max_duration"
  shows "parse_humantime_duration (as_humantime_string d) = Inr (printed_part d)"
proof -
  have "printed_part d \<le> max_duration" using assms by (auto simp: printed_part_def intro: order_trans [OF diff_le_self])
  then show ?thesis using grammar_accepts [OF _ as_humantime_terms [OF assms], of "[]"] by simp
qed

theorem humantime_roundtrip_witness:
  "parse_humantime_duration (as_humantime_string 5400500000000) = Inr (printed_part 5400500000000)
   \<and> printed_part 5400500000000 = from_secs 5400"
  using humantime_roundtrip [of 5400500000000] by (simp add: max_duration_def printed_part_def duration_units)

text \<open>The fraction of a longer duration is not printed.\<close>

lemma humantime_drops_fraction: "printed_part (from_millis 1500) = from_secs 1"
  by (simp add: printed_part_def duration_units)

end
