(* ===== verification/Retry.thy ===== *)
theory Retry
  imports Duration PublishReport RunContext
begin

section \<open>Retry ladders (\<open>core/src/retry/\{policy,driver\}.rs\<close>, \<open>config/retry.rs\<close>)\<close>

text \<open>
  The retry policy and its exponential delay, the one loop every retry ladder of the program runs
  (\<open>retry_steps_sync\<close> and its async twin), the adapters from \<open>ControlFlow\<close>, the accounting of
  backoff per scope, and the wall-clock budget of a publisher invocation.

  \<open>Instant\<close>s and \<open>Duration\<close>s are nanoseconds. \<open>retry_world\<close> holds what the code keeps in process
  globals and thread locals (the backoff totals, the scope stack, the budget anchor), the monotonic
  clock, and in \<open>op_state\<close> whatever the retried closure owns. The operating system's sleep is the
  parameter \<open>slp\<close>: \<open>slp t d\<close> is the clock after a sleep of \<open>d\<close> that starts at \<open>t\<close>. The retried
  operation is a function of the attempt number and the world, and may change any part of it. Besides
  its result the loop returns its trace: attempts, log lines (before redaction) and sleeps with the
  moment each began. The async engine is modelled as the sequence of steps of its one task.

  Main results: the trace of a ladder is exactly a number of retried failures below the attempt
  bound followed by one last attempt, no sleep passes the deadline, the ladder of an operation that
  recovers in time succeeds, its wall-clock time is bounded whatever the attempt count, the delay is
  the mathematical backoff for every attempt number in spite of the fixed-width arithmetic, the
  per-scope tallies add up to the total, and one publisher invocation has one deadline.
\<close>

subsection \<open>Policy\<close>

record retry_policy =
  max_attempts :: u32
  base_delay :: duration
  max_delay :: duration

definition UPLOAD :: retry_policy where
  "UPLOAD = \<lparr>max_attempts = 10, base_delay = from_millis 50, max_delay = from_secs 30\<rparr>"

definition PREFLIGHT :: retry_policy where
  "PREFLIGHT = \<lparr>max_attempts = 3, base_delay = from_millis 200, max_delay = from_secs 1\<rparr>"

definition GUARD_PROBE :: retry_policy where
  "GUARD_PROBE = \<lparr>max_attempts = 3, base_delay = from_secs 1, max_delay = from_secs 30\<rparr>"

text \<open>\<open>1u64.checked_shl(exp).unwrap_or(u64::MAX)\<close>; \<open>as_millis() as u64\<close> keeps the low 64 bits.\<close>

definition shl_or_max :: "u32 \<Rightarrow> u64" where
  "shl_or_max e = (if unat e < 64 then push_bit (unat e) 1 else - 1)"

definition delay_for :: "retry_policy \<Rightarrow> u32 \<Rightarrow> duration" where
  "delay_for p next_attempt =
     (let e = saturating_sub next_attempt 2;
          mult = shl_or_max e;
          ms = saturating_mul (word_of_nat (as_millis (base_delay p)) :: u64) mult
      in min (from_millis (unat ms)) (max_delay p))"

definition with_min_attempts :: "u32 \<Rightarrow> retry_policy \<Rightarrow> retry_policy" where
  "with_min_attempts m p = p\<lparr>max_attempts := max (max_attempts p) m\<rparr>"

definition idempotent_put_attempts :: u32 where "idempotent_put_attempts = 3"

definition with_idempotent_minimum :: "retry_policy \<Rightarrow> retry_policy" where
  "with_idempotent_minimum p = with_min_attempts idempotent_put_attempts p"

text \<open>An \<open>Instant\<close> counts seconds in a signed 64-bit integer.\<close>

definition instant_limit :: nat where "instant_limit = 2 ^ 63 * nanos_per_sec"

definition checked_add_instant :: "nat \<Rightarrow> duration \<Rightarrow> nat option" where
  "checked_add_instant t d = (if t + d < instant_limit then Some (t + d) else None)"

definition budget_exhausted :: "nat \<Rightarrow> retry_policy \<Rightarrow> u32 \<Rightarrow> nat \<Rightarrow> bool" where
  "budget_exhausted now p next_attempt deadline =
     (case checked_add_instant now (delay_for p next_attempt) of Some projected \<Rightarrow> projected > deadline | None \<Rightarrow> True)"

subsection \<open>The \<open>retry:\<close> block\<close>

record retry_config =
  attempts :: u32
  delay :: duration
  cfg_max_delay :: duration
  max_elapsed :: "duration option"

definition default_retry_config :: retry_config where
  "default_retry_config = \<lparr>attempts = 10, delay = from_secs 10, cfg_max_delay = from_secs (5 * 60), max_elapsed = None\<rparr>"

definition to_policy :: "retry_config \<Rightarrow> retry_policy" where
  "to_policy c = \<lparr>max_attempts = max (attempts c) 1, base_delay = delay c, max_delay = cfg_max_delay c\<rparr>"

definition retry_policy_of :: "retry_config option \<Rightarrow> retry_policy" where
  "retry_policy_of cfg = to_policy (case cfg of None \<Rightarrow> default_retry_config | Some c \<Rightarrow> c)"

definition default_max_elapsed :: duration where "default_max_elapsed = from_secs (15 * 60)"

subsection \<open>Scopes, accounting and the budget\<close>

record scope_retry =
  sr_retries :: u32
  sr_backoff_ms :: u64

definition default_scope_retry :: scope_retry where
  "default_scope_retry = \<lparr>sr_retries = 0, sr_backoff_ms = 0\<rparr>"

record 's retry_world =
  clock :: nat
  backoff_millis :: u64
  per_scope :: "scope_retry btree_map"
  scope_stack :: "string list"
  task_scope :: "string option option"
  budget_anchor :: "nat option"
  op_state :: 's

definition unattributed_scope :: string where "unattributed_scope = ''(unattributed)''"

definition enter_scope :: "string \<Rightarrow> 's retry_world \<Rightarrow> 's retry_world" where
  "enter_scope name w = w\<lparr>scope_stack := scope_stack w @ [name]\<rparr>"

definition inherit_scope :: "string option \<Rightarrow> 's retry_world \<Rightarrow> 's retry_world" where
  "inherit_scope label w = (case label of None \<Rightarrow> w | Some l \<Rightarrow> enter_scope l w)"

definition drop_scope :: "'s retry_world \<Rightarrow> 's retry_world" where
  "drop_scope w = w\<lparr>scope_stack := butlast (scope_stack w)\<rparr>"

definition current_scope :: "'s retry_world \<Rightarrow> string option" where
  "current_scope w =
     (case task_scope w of
        Some label \<Rightarrow> label
      | None \<Rightarrow> (if scope_stack w = [] then None else Some (last (scope_stack w))))"

text \<open>\<open>PublisherRetryScope\<close>: the guard is the anchor that was in force when it was entered.\<close>

definition enter_publisher :: "string \<Rightarrow> 's retry_world \<Rightarrow> nat option \<times> 's retry_world" where
  "enter_publisher name w =
     (let w = enter_scope name w;
          prev = budget_anchor w
      in (prev, if prev = None then w\<lparr>budget_anchor := Some (clock w)\<rparr> else w))"

definition drop_publisher :: "nat option \<Rightarrow> 's retry_world \<Rightarrow> 's retry_world" where
  "drop_publisher prev_anchor w = drop_scope (w\<lparr>budget_anchor := prev_anchor\<rparr>)"

definition retry_budget :: "retry_config option \<Rightarrow> duration" where
  "retry_budget cfg =
     (case max_elapsed (case cfg of None \<Rightarrow> default_retry_config | Some c \<Rightarrow> c) of
        Some d \<Rightarrow> d | None \<Rightarrow> default_max_elapsed)"

definition retry_deadline :: "retry_config option \<Rightarrow> 's retry_world \<Rightarrow> nat option" where
  "retry_deadline cfg w =
     checked_add_instant (case budget_anchor w of Some t \<Rightarrow> t | None \<Rightarrow> clock w) (retry_budget cfg)"

definition record_retry_backoff :: "duration \<Rightarrow> 's retry_world \<Rightarrow> 's retry_world" where
  "record_retry_backoff d w =
     (let ms = (if as_millis d < 2 ^ 64 then word_of_nat (as_millis d) else - 1 :: u64);
          key = (case current_scope w of Some s \<Rightarrow> s | None \<Rightarrow> unattributed_scope);
          entry = (case map_of (per_scope w) key of Some e \<Rightarrow> e | None \<Rightarrow> default_scope_retry);
          entry = \<lparr>sr_retries = saturating_add (sr_retries entry) 1, sr_backoff_ms = saturating_add (sr_backoff_ms entry) ms\<rparr>
      in w\<lparr>backoff_millis := backoff_millis w + ms, per_scope := btree_insert key entry (per_scope w)\<rparr>)"

definition total_retry_backoff :: "'s retry_world \<Rightarrow> duration" where
  "total_retry_backoff w = from_millis (unat (backoff_millis w))"

definition breakdown_cmp :: "string \<times> u32 \<times> duration \<Rightarrow> string \<times> u32 \<times> duration \<Rightarrow> ordering" where
  "breakdown_cmp a b = then_cmp (cmp_of (snd (snd b)) (snd (snd a))) (cmp_of (fst a) (fst b))"

definition retry_scope_breakdown :: "'s retry_world \<Rightarrow> (string \<times> u32 \<times> duration) list" where
  "retry_scope_breakdown w =
     sort_by breakdown_cmp (map (\<lambda>(k, v). (k, sr_retries v, from_millis (unat (sr_backoff_ms v)))) (per_scope w))"

datatype ladder_event = Attempt u32 | WarnLn string | StatusLn string | Slept nat duration

definition sleep_backoff_blocking ::
    "(nat \<Rightarrow> duration \<Rightarrow> nat) \<Rightarrow> duration \<Rightarrow> 's retry_world \<Rightarrow> 's retry_world \<times> ladder_event list" where
  "sleep_backoff_blocking slp d w =
     (if d = 0 then (w, [])
      else let w = record_retry_backoff d w in (w\<lparr>clock := slp (clock w) d\<rparr>, [Slept (clock w) d]))"

definition sleep_backoff_async ::
    "(nat \<Rightarrow> duration \<Rightarrow> nat) \<Rightarrow> duration \<Rightarrow> 's retry_world \<Rightarrow> 's retry_world \<times> ladder_event list" where
  "sleep_backoff_async slp d w =
     (if d = 0 then (w, [])
      else let w = record_retry_backoff d w in (w\<lparr>clock := slp (clock w) d\<rparr>, [Slept (clock w) d]))"

subsection \<open>The engine\<close>

datatype ('t, 'e) retry_step = Done 't | DoneQuiet 't | Fail 'e | RetryAfter 'e duration string

definition warn_retry :: "string \<Rightarrow> u32 \<Rightarrow> u32 \<Rightarrow> string \<Rightarrow> duration \<Rightarrow> ladder_event" where
  "warn_retry desc attempt mx cause d =
     WarnLn (desc @ '' attempt '' @ show_nat (unat attempt) @ ''/'' @ show_nat (unat mx) @ '' failed ('' @ cause
       @ ''); retrying in '' @ as_humantime_string d)"

definition warn_giving_up :: "string \<Rightarrow> u32 \<Rightarrow> ladder_event" where
  "warn_giving_up desc n = WarnLn (desc @ '' failed after '' @ count_noun (unat n) ''attempt'' ''attempts'' @ '', giving up'')"

definition note_succeeded :: "string \<Rightarrow> u32 \<Rightarrow> ladder_event" where
  "note_succeeded desc n = StatusLn (desc @ '' succeeded after '' @ count_noun (unat n) ''attempt'' ''attempts'')"

definition deadline_exhausted :: "nat \<Rightarrow> nat option \<Rightarrow> duration \<Rightarrow> bool" where
  "deadline_exhausted now deadline d =
     (case deadline of
        None \<Rightarrow> False
      | Some dl \<Rightarrow> (case checked_add_instant now d of None \<Rightarrow> True | Some projected \<Rightarrow> projected > dl))"

function retry_loop ::
    "(duration \<Rightarrow> 's retry_world \<Rightarrow> 's retry_world \<times> ladder_event list) \<Rightarrow> string \<Rightarrow> u32 \<Rightarrow> nat option
      \<Rightarrow> (u32 \<Rightarrow> 's retry_world \<Rightarrow> ('t, 'e) retry_step \<times> 's retry_world) \<Rightarrow> u32 \<Rightarrow> 's retry_world
      \<Rightarrow> ('e, 't) result \<times> 's retry_world \<times> ladder_event list" where
  "retry_loop sleep_backoff desc mx deadline op attempt w =
     (case op attempt w of
        (Done v, w) \<Rightarrow> (Inr v, w, Attempt attempt # (if attempt > 1 then [note_succeeded desc attempt] else []))
      | (DoneQuiet v, w) \<Rightarrow> (Inr v, w, [Attempt attempt])
      | (Fail e, w) \<Rightarrow> (Inl e, w, [Attempt attempt])
      | (RetryAfter e d cause, w) \<Rightarrow>
          (if attempt \<ge> mx \<or> deadline_exhausted (clock w) deadline d
           then (Inl e, w, [Attempt attempt, warn_giving_up desc attempt])
           else case sleep_backoff d w of
                  (w, evs) \<Rightarrow>
                    (case retry_loop sleep_backoff desc mx deadline op (attempt + 1) w of
                       (r, w, rest) \<Rightarrow> (r, w, Attempt attempt # warn_retry desc attempt mx cause d # evs @ rest))))"
  by auto

lemma unat_next_attempt: "unat (a + 1) = Suc (unat a)" if "a < (b :: u32)"
proof -
  have "unat a < unat b" using that by (simp add: word_less_nat_alt)
  moreover have "unat b < 2 ^ 32" using unsigned_less [of b] by simp
  ultimately show ?thesis by (simp add: unat_word_ariths)
qed

termination retry_loop
  by (relation "measure (\<lambda>(_, _, mx, _, _, attempt, _). unat mx - unat attempt)")
    (auto simp: not_le unat_next_attempt word_less_nat_alt intro!: diff_less_mono2)

declare retry_loop.simps [simp del]

definition retry_steps_sync where
  "retry_steps_sync slp desc max_att deadline op w =
     retry_loop (sleep_backoff_blocking slp) desc (max max_att 1) deadline op 1 w"

definition retry_steps_async where
  "retry_steps_async slp desc max_att deadline op w =
     retry_loop (sleep_backoff_async slp) desc (max max_att 1) deadline op 1 w"

subsection \<open>The \<open>ControlFlow\<close> adapters\<close>

datatype 'e control_flow = Break 'e | Continue 'e

text \<open>The \<open>RetryHint\<close> trait: the display of an error and the wait its server asked for.\<close>

record 'e retry_hint =
  hint_display :: "'e \<Rightarrow> string"
  server_wait :: "'e \<Rightarrow> duration option"

definition controlflow_to_step ::
    "'e retry_hint \<Rightarrow> retry_policy \<Rightarrow> u32 \<Rightarrow> ('e control_flow, 't) result \<Rightarrow> ('t, 'e) retry_step" where
  "controlflow_to_step hint policy attempt result =
     (case result of
        Inr v \<Rightarrow> Done v
      | Inl (Break e) \<Rightarrow> Fail e
      | Inl (Continue e) \<Rightarrow>
          RetryAfter e (case server_wait hint e of Some d \<Rightarrow> d | None \<Rightarrow> delay_for policy (attempt + 1)) (hint_display hint e))"

definition retry_sync_deadline where
  "retry_sync_deadline slp hint desc policy deadline op w =
     retry_steps_sync slp desc (max_attempts policy) deadline
       (\<lambda>attempt w. case op attempt w of (r, w) \<Rightarrow> (controlflow_to_step hint policy attempt r, w)) w"

definition retry_sync where
  "retry_sync slp hint desc policy op w = retry_sync_deadline slp hint desc policy None op w"

definition retry_async_deadline where
  "retry_async_deadline slp hint desc policy deadline op w =
     retry_steps_async slp desc (max_attempts policy) deadline
       (\<lambda>attempt w. case op attempt w of (r, w) \<Rightarrow> (controlflow_to_step hint policy attempt r, w)) w"

definition retry_async where
  "retry_async slp hint desc policy op w = retry_async_deadline slp hint desc policy None op w"


section \<open>Properties\<close>

subsection \<open>The ladder\<close>

text \<open>
  The specification of a trace: a list of retried failures, each with its cause, its delay and the
  moment its sleep began, and an ending at attempt \<open>k\<close>.
\<close>

fun retried_rounds :: "string \<Rightarrow> u32 \<Rightarrow> u32 \<Rightarrow> (string \<times> duration \<times> nat) list \<Rightarrow> ladder_event list" where
  "retried_rounds desc mx a [] = []"
| "retried_rounds desc mx a ((cause, d, t) # fs) =
     [Attempt a, warn_retry desc a mx cause d] @ (if d = 0 then [] else [Slept t d]) @ retried_rounds desc mx (a + 1) fs"

definition ladder_ending :: "string \<Rightarrow> u32 \<Rightarrow> ('e, 't) result \<Rightarrow> ladder_event list \<Rightarrow> bool" where
  "ladder_ending desc k r tr \<longleftrightarrow> tr = [Attempt k]
     \<or> (is_ok r \<and> k > 1 \<and> tr = [Attempt k, note_succeeded desc k])
     \<or> (\<not> is_ok r \<and> tr = [Attempt k, warn_giving_up desc k])"

definition ladder_spec ::
    "string \<Rightarrow> u32 \<Rightarrow> nat option \<Rightarrow> u32 \<Rightarrow> ('e, 't) result \<Rightarrow> ladder_event list \<Rightarrow> bool" where
  "ladder_spec desc mx deadline a r tr \<longleftrightarrow>
     (\<exists>fs k ending. tr = retried_rounds desc mx a fs @ ending \<and> unat k = unat a + length fs \<and> k \<le> mx
        \<and> ladder_ending desc k r ending
        \<and> (\<forall>(cause, d, t) \<in> set fs. \<forall>dl. deadline = Some dl \<longrightarrow> t + d \<le> dl))"

lemma deadline_exhausted_False:
  "\<not> deadline_exhausted now deadline d \<Longrightarrow> deadline = Some dl \<Longrightarrow> now + d \<le> dl"
  by (auto simp: deadline_exhausted_def checked_add_instant_def split: option.splits if_splits)

lemma ladder_spec_stop: "a \<le> mx \<Longrightarrow> ladder_ending desc a r tr \<Longrightarrow> ladder_spec desc mx deadline a r tr"
  unfolding ladder_spec_def by (intro exI [of _ "[]"] exI [of _ a] exI [of _ tr]) simp

lemma ladder_spec_round:
  assumes "a < mx" "\<not> deadline_exhausted t deadline d" "ladder_spec desc mx deadline (a + 1) r rest"
  shows "ladder_spec desc mx deadline a r
     (Attempt a # warn_retry desc a mx cause d # (if d = 0 then [] else [Slept t d]) @ rest)"
proof -
  obtain fs k ending where "rest = retried_rounds desc mx (a + 1) fs @ ending" "unat k = unat (a + 1) + length fs"
    "k \<le> mx" "ladder_ending desc k r ending" "\<forall>(cause, d, t) \<in> set fs. \<forall>dl. deadline = Some dl \<longrightarrow> t + d \<le> dl"
    using assms(3) unfolding ladder_spec_def by blast
  then show ?thesis
    unfolding ladder_spec_def using unat_next_attempt [OF assms(1)] deadline_exhausted_False [OF assms(2)]
    by (intro exI [of _ "(cause, d, t) # fs"] exI [of _ k] exI [of _ ending]) auto
qed

text \<open>One turn of the loop, and induction over the turns.\<close>

lemma retry_loop_again:
  assumes "op a w = (RetryAfter e d cause, w1)" "a < mx" "\<not> deadline_exhausted (clock w1) deadline d"
    and "sb d w1 = (w2, evs)" "retry_loop sb desc mx deadline op (a + 1) w2 = (r, w', rest)"
  shows "retry_loop sb desc mx deadline op a w = (r, w', Attempt a # warn_retry desc a mx cause d # evs @ rest)"
proof -
  have "\<not> mx \<le> a" using assms(2) by simp
  with assms show ?thesis by (subst retry_loop.simps) simp
qed

lemma retry_loop_turn [consumes 1, case_names stop again]:
  assumes "retry_loop sb desc mx deadline op a w = (r, w', tr)"
  obtains "ladder_ending desc a r tr" "w' = snd (op a w)"
  | e d cause w1 w2 evs rest where "op a w = (RetryAfter e d cause, w1)" "a < mx"
      "\<not> deadline_exhausted (clock w1) deadline d" "sb d w1 = (w2, evs)"
      "retry_loop sb desc mx deadline op (a + 1) w2 = (r, w', rest)"
      "tr = Attempt a # warn_retry desc a mx cause d # evs @ rest"
proof -
  obtain step w1 where op: "op a w = (step, w1)" by (cases "op a w")
  show ?thesis
  proof (cases "\<exists>e d cause. step = RetryAfter e d cause \<and> a < mx \<and> \<not> deadline_exhausted (clock w1) deadline d")
    case True
    then obtain e d cause where step: "step = RetryAfter e d cause" "a < mx" "\<not> deadline_exhausted (clock w1) deadline d"
      by blast
    obtain w2 evs where sb: "sb d w1 = (w2, evs)" by (cases "sb d w1")
    obtain r' w3 rest where rec: "retry_loop sb desc mx deadline op (a + 1) w2 = (r', w3, rest)"
      by (metis prod_cases3)
    have "retry_loop sb desc mx deadline op a w = (r', w3, Attempt a # warn_retry desc a mx cause d # evs @ rest)"
      by (rule retry_loop_again [OF op [unfolded step] step(2,3) sb rec])
    with assms op step sb rec show ?thesis by (intro that(2)) auto
  next
    case False
    with assms op show ?thesis
      by (intro that(1)) (auto simp: retry_loop.simps ladder_ending_def not_less split: retry_step.splits if_splits)
  qed
qed

lemma retry_loop_rounds [consumes 1, case_names stop again]:
  assumes "retry_loop sb desc mx deadline op a w = (r, w', tr)"
    and "\<And>a w tr. ladder_ending desc a r tr \<Longrightarrow> w' = snd (op a w) \<Longrightarrow> P a w tr"
    and "\<And>a w e d cause w1 w2 evs rest. op a w = (RetryAfter e d cause, w1) \<Longrightarrow> a < mx \<Longrightarrow>
      \<not> deadline_exhausted (clock w1) deadline d \<Longrightarrow> sb d w1 = (w2, evs) \<Longrightarrow> P (a + 1) w2 rest \<Longrightarrow>
      P a w (Attempt a # warn_retry desc a mx cause d # evs @ rest)"
  shows "P a w tr"
  using assms(1)
proof (induction "unat mx - unat a" arbitrary: a w tr rule: less_induct)
  case less
  from less.prems show ?case
  proof (cases rule: retry_loop_turn)
    case stop
    then show ?thesis by (rule assms(2))
  next
    case (again e d cause w1 w2 evs rest)
    have "unat mx - unat (a + 1) < unat mx - unat a"
      using again(2) unat_next_attempt [OF again(2)] by (simp add: word_less_nat_alt)
    from less.hyps [OF this again(5)] assms(3) [OF again(1-4)] show ?thesis by (simp add: again(6))
  qed
qed

text \<open>
  What the ladder asks of the two sleeps: a zero wait does nothing, any other is recorded as one
  sleep from the current moment and leaves the clock where the operating system says.
\<close>

locale ladder_sleep =
  fixes sleep_backoff :: "duration \<Rightarrow> 's retry_world \<Rightarrow> 's retry_world \<times> ladder_event list"
    and slp :: "nat \<Rightarrow> duration \<Rightarrow> nat"
  assumes slept: "snd (sleep_backoff d w) = (if d = 0 then [] else [Slept (clock w) d])"
    and woke: "clock (fst (sleep_backoff d w)) = (if d = 0 then clock w else slp (clock w) d)"
begin

lemma follows_spec:
  assumes "retry_loop sleep_backoff desc mx deadline op a w = (r, w', tr)" "a \<le> mx"
  shows "ladder_spec desc mx deadline a r tr"
  using assms
proof (induction rule: retry_loop_rounds)
  case (again a w e d cause w1 w2 evs rest)
  have "evs = (if d = 0 then [] else [Slept (clock w1) d])" using slept [of d w1] again(4) by simp
  with again show ?case using ladder_spec_round [of a mx "clock w1" deadline d desc r rest cause] by (simp add: inc_le)
qed (rule ladder_spec_stop)

text \<open>
  The wall clock: attempts of at most \<open>T\<close> and sleeps that overshoot by at most \<open>S\<close> cannot carry a
  ladder with a deadline more than one attempt past it.
\<close>

lemma ends_by:
  assumes "\<And>a w. clock (snd (op a w)) \<le> clock w + T" "\<And>t d. slp t d \<le> t + d + S"
    and "retry_loop sleep_backoff desc mx (Some dl) op a w = (r, w', tr)" "clock w \<le> max t0 (dl + S)"
  shows "clock w' \<le> max t0 (dl + S) + T"
  using assms(3,4)
proof (induction rule: retry_loop_rounds)
  case (stop a w tr)
  with assms(1) [of a w] show ?case by simp
next
  case (again a w e d cause w1 w2 evs rest)
  have "clock w1 + d \<le> dl" using deadline_exhausted_False [OF again(3)] by simp
  moreover have "clock w2 \<le> clock w1 + d + S"
    using woke [of d w1] again(4) assms(2) [of "clock w1" d] by (simp split: if_splits)
  ultimately show ?case using again.IH by simp
qed

lemma recovers:
  assumes "\<And>a w. a < k \<Longrightarrow> \<exists>e d cause w'. op a w = (RetryAfter e d cause, w')"
    and "\<And>w. \<exists>w'. op k w = (Done v, w')" "k \<le> mx"
  shows "a \<le> k \<Longrightarrow> fst (retry_loop sleep_backoff desc mx None op a w) = Inr v"
proof (induction "unat k - unat a" arbitrary: a w rule: less_induct)
  case less
  show ?case
  proof (cases "a = k")
    case True
    with assms(2) [of w] show ?thesis by (subst retry_loop.simps) (auto split: prod.splits)
  next
    case False
    with less.prems have "a < k" by simp
    then obtain e d cause w1 where op: "op a w = (RetryAfter e d cause, w1)" using assms(1) by blast
    have "unat k - unat (a + 1) < unat k - unat a"
      using \<open>a < k\<close> unat_next_attempt [OF \<open>a < k\<close>] by (simp add: word_less_nat_alt)
    from less.hyps [OF this, of "fst (sleep_backoff d w1)"] \<open>a < k\<close>
    have "fst (retry_loop sleep_backoff desc mx None op (a + 1) (fst (sleep_backoff d w1))) = Inr v" by (simp add: inc_le)
    moreover have "\<not> mx \<le> a" using \<open>a < k\<close> assms(3) by simp
    ultimately show ?thesis
      by (subst retry_loop.simps) (auto simp: op deadline_exhausted_def split: prod.splits)
  qed
qed

end

lemma record_retry_backoff_clock [simp]: "clock (record_retry_backoff d w) = clock w"
  by (simp add: record_retry_backoff_def Let_def)

interpretation blocking: ladder_sleep "sleep_backoff_blocking slp" slp for slp
  by unfold_locales (simp_all add: sleep_backoff_blocking_def Let_def)

interpretation tokio: ladder_sleep "sleep_backoff_async slp" slp for slp
  by unfold_locales (simp_all add: sleep_backoff_async_def Let_def)

text \<open>
  C25. Every retry ladder ends, after at most as many attempts as the policy allows (one if it allows
  none), and its trace is determined by its retried failures: attempts numbered from one without
  gaps, every failure that is retried announced before its sleep and no zero wait slept, no sleep
  begun that would pass the deadline, and at the end at most the recovery line of a success after
  the first attempt or the giving-up line of an error.
\<close>
theorem retry_ladder_ends:
  "case retry_steps_sync slp desc n deadline op w of (r, w', tr) \<Rightarrow> ladder_spec desc (max n 1) deadline 1 r tr"
  by (cases "retry_steps_sync slp desc n deadline op w")
    (auto simp: retry_steps_sync_def max.coboundedI2 dest!: blocking.follows_spec)

text \<open>
  C26. A transient failure is ridden out: if every attempt before the \<open>k\<close>-th fails retriably and the
  \<open>k\<close>-th succeeds, with \<open>k\<close> within the attempt bound and no deadline, the ladder returns that success,
  whatever the failed attempts did to the world.
\<close>
theorem retry_rides_out_transients:
  assumes "\<And>a w. a < k \<Longrightarrow> \<exists>e d cause w'. op a w = (RetryAfter e d cause, w')"
    and "\<And>w. \<exists>w'. op k w = (Done v, w')" and "1 \<le> k" "k \<le> max n 1"
  shows "fst (retry_steps_sync slp desc n None op w) = Inr v"
  using assms blocking.recovers [of k op v "max n 1" 1 slp desc w] by (simp add: retry_steps_sync_def)

definition calm_world :: "'s \<Rightarrow> 's retry_world" where
  "calm_world s = \<lparr>clock = 0, backoff_millis = 0, per_scope = [], scope_stack = [], task_scope = None,
     budget_anchor = None, op_state = s\<rparr>"

definition flaky_op :: "u32 \<Rightarrow> unit retry_world \<Rightarrow> (string, string) retry_step \<times> unit retry_world" where
  "flaky_op a w = (if a < 3 then RetryAfter ''status 503'' (from_secs 1) ''status=503'' else Done ''uploaded'', w\<lparr>clock := clock w + 5\<rparr>)"

theorem retry_rides_out_transients_witness:
  "fst (retry_steps_sync (+) ''upload'' 10 None flaky_op (calm_world ())) = Inr ''uploaded''"
  by (rule retry_rides_out_transients [where k = 3]) (simp_all add: flaky_op_def)

text \<open>
  C27. The wall-clock bound: a ladder with a deadline, whose attempts take at most \<open>T\<close> each and whose
  sleeps overshoot by at most \<open>S\<close>, is over at most \<open>T\<close> after the later of its start and the deadline
  plus \<open>S\<close>, however many attempts the policy allows and whatever waits the server asks for.
\<close>
theorem retry_wall_clock_bound:
  assumes "\<And>a w. clock (snd (op a w)) \<le> clock w + T" "\<And>t d. slp t d \<le> t + d + S"
    and "retry_steps_sync slp desc n (Some dl) op w = (r, w', tr)"
  shows "clock w' \<le> max (clock w) (dl + S) + T"
  using assms(3) blocking.ends_by [of op T slp S desc "max n 1" dl 1 w r w' tr "clock w", OF assms(1,2)]
  by (simp add: retry_steps_sync_def)

theorem retry_wall_clock_bound_witness:
  "\<exists>r w' tr. retry_steps_sync (\<lambda>t d. t + d + 2) ''upload'' (- 1) (Some 100) flaky_op (calm_world ()) = (r, w', tr)
     \<and> clock w' \<le> 107"
proof -
  obtain r w' tr where run: "retry_steps_sync (\<lambda>t d. t + d + 2) ''upload'' (- 1) (Some 100) flaky_op (calm_world ()) = (r, w', tr)"
    by (metis prod_cases3)
  have "clock w' \<le> max (clock (calm_world ())) (100 + 2) + 5"
    by (rule retry_wall_clock_bound [OF _ _ run]) (simp_all add: flaky_op_def)
  with run show ?thesis by (auto simp: calm_world_def)
qed

subsection \<open>The delay\<close>

lemma unat_shl_or_max: "unat (shl_or_max e) = (if unat e < 64 then 2 ^ unat e else 2 ^ 64 - 1)"
proof (cases "unat e < 64")
  case True
  have "unat (push_bit (unat e) 1 :: u64) = take_bit 64 (2 ^ unat e)"
    by (subst unsigned_push_bit_eq) (simp_all add: True)
  also have "\<dots> = 2 ^ unat e"
    by (rule take_bit_nat_eq_self) (rule power_strict_increasing, use True in simp_all)
  finally show ?thesis using True by (simp add: shl_or_max_def)
qed (simp add: shl_or_max_def unat_minus_one_eq)

lemma delay_for_nat:
  assumes "as_millis (base_delay p) < 2 ^ 64"
  shows "delay_for p n =
     min (from_millis (min (as_millis (base_delay p) * unat (shl_or_max (saturating_sub n 2))) (2 ^ 64 - 1))) (max_delay p)"
  using assms by (simp add: delay_for_def Let_def unat_saturating_mul unsigned_of_nat take_bit_nat_eq_self)

lemma from_millis_min: "from_millis (min a b) = min (from_millis a) (from_millis b)"
  by (simp add: from_millis_def nat_mult_min_left)

text \<open>
  The wait before attempt \<open>n\<close> is the mathematical backoff: the base delay in whole milliseconds
  doubled \<open>n - 2\<close> times and cut at the cap, for every 32-bit attempt number -- the 64-bit shift and
  product saturate only where the cap already holds. So waits never shrink from one attempt to the
  next and never exceed the cap.
\<close>
theorem delay_for_is_backoff:
  assumes "as_millis (base_delay p) < 2 ^ 64" "max_delay p \<le> from_millis (2 ^ 64 - 1)"
  shows "delay_for p n = min (from_millis (as_millis (base_delay p) * 2 ^ (unat n - 2))) (max_delay p)"
proof -
  let ?b = "as_millis (base_delay p)" and ?e = "unat n - 2"
  have cap: "min (from_millis (min x (2 ^ 64 - 1))) (max_delay p) = min (from_millis x) (max_delay p)" for x
    using assms(2) by (simp add: from_millis_min min.assoc min.absorb2)
  have mult: "unat (shl_or_max (saturating_sub n 2)) = (if ?e < 64 then 2 ^ ?e else 2 ^ 64 - 1)"
    by (simp add: unat_shl_or_max unat_saturating_sub)
  show ?thesis
  proof (cases "?e < 64 \<or> ?b = 0")
    case True
    then show ?thesis by (auto simp: delay_for_nat [OF assms(1)] mult cap [simplified])
  next
    case False
    then have "2 ^ 64 - 1 \<le> ?b * (2 ^ 64 - 1)" by simp
    moreover have "(2::nat) ^ 64 \<le> 2 ^ ?e" by (rule power_increasing) (use False in simp_all)
    moreover have "2 ^ ?e \<le> ?b * 2 ^ ?e" using False by simp
    ultimately have "2 ^ 64 - 1 \<le> ?b * 2 ^ ?e" "2 ^ 64 - 1 \<le> ?b * (2 ^ 64 - 1)" by linarith+
    with False have "delay_for p n = max_delay p" "max_delay p \<le> from_millis (?b * 2 ^ ?e)"
      using assms(2) by (auto simp: delay_for_nat [OF assms(1)] mult from_millis_def intro: order_trans)
    then show ?thesis by simp
  qed
qed

theorem delay_for_is_backoff_witness:
  "delay_for UPLOAD 200 = from_secs 30 \<and> delay_for UPLOAD 5 = from_millis 400"
  using delay_for_is_backoff [of UPLOAD 200] delay_for_is_backoff [of UPLOAD 5]
  by (simp add: UPLOAD_def duration_units)

subsection \<open>Accounting\<close>

datatype scope_op = EnterScope string | LeaveScope | Backoff duration

fun scope_step :: "scope_op \<Rightarrow> 's retry_world \<Rightarrow> 's retry_world" where
  "scope_step (EnterScope name) w = enter_scope name w"
| "scope_step LeaveScope w = drop_scope w"
| "scope_step (Backoff d) w = record_retry_backoff d w"

fun op_millis :: "scope_op \<Rightarrow> nat" where
  "op_millis (Backoff d) = as_millis d"
| "op_millis _ = 0"

abbreviation scope_sum :: "scope_retry btree_map \<Rightarrow> nat" where
  "scope_sum m \<equiv> sum_list (map (\<lambda>kv. unat (sr_backoff_ms (snd kv))) m)"

definition accounted :: "nat \<Rightarrow> 's retry_world \<Rightarrow> bool" where
  "accounted n w \<longleftrightarrow> unat (backoff_millis w) = n \<and> scope_sum (per_scope w) = n \<and> sorted_wrt (<) (map fst (per_scope w))"

lemma scope_sum_insert:
  "sorted_wrt (<) (map fst m) \<Longrightarrow>
   scope_sum (btree_insert k v m) + (case map_of m k of None \<Rightarrow> 0 | Some old \<Rightarrow> unat (sr_backoff_ms old))
   = scope_sum m + unat (sr_backoff_ms v)"
proof (induction m)
  case (Cons kv m)
  obtain k' v' where kv: "kv = (k', v')" by (cases kv)
  have "map_of m k = None" if "k < k'"
    using Cons.prems that by (auto simp: kv map_of_eq_None_iff)
  with Cons kv show ?case by (auto split: option.splits)
qed simp

lemma scope_sum_ge: "map_of m k = Some v \<Longrightarrow> unat (sr_backoff_ms v) \<le> scope_sum m"
  by (induction m) (auto split: if_splits)

lemma accounted_record:
  assumes "accounted n w" "n + as_millis d < 2 ^ 64"
  shows "accounted (n + as_millis d) (record_retry_backoff d w)"
proof -
  let ?key = "case current_scope w of Some s \<Rightarrow> s | None \<Rightarrow> unattributed_scope"
  let ?entry = "case map_of (per_scope w) ?key of Some e \<Rightarrow> e | None \<Rightarrow> default_scope_retry"
  let ?ms = "word_of_nat (as_millis d) :: u64"
  let ?new = "\<lparr>sr_retries = saturating_add (sr_retries ?entry) 1, sr_backoff_ms = saturating_add (sr_backoff_ms ?entry) ?ms\<rparr>"
  have ms: "unat ?ms = as_millis d" using assms(2) by (simp add: unsigned_of_nat take_bit_nat_eq_self)
  have old: "(case map_of (per_scope w) ?key of None \<Rightarrow> 0 | Some old \<Rightarrow> unat (sr_backoff_ms old)) = unat (sr_backoff_ms ?entry)"
    by (simp add: default_scope_retry_def split: option.split)
  have "unat (sr_backoff_ms ?entry) \<le> n"
    using assms(1) scope_sum_ge [of "per_scope w" ?key]
    by (auto simp: accounted_def default_scope_retry_def split: option.split)
  then have new: "unat (sr_backoff_ms ?new) = unat (sr_backoff_ms ?entry) + as_millis d"
    using assms(2) by (simp add: unat_saturating_add ms)
  have "record_retry_backoff d w =
      w\<lparr>backoff_millis := backoff_millis w + ?ms, per_scope := btree_insert ?key ?new (per_scope w)\<rparr>"
    using assms(2) by (simp add: record_retry_backoff_def Let_def)
  moreover have "unat (backoff_millis w + ?ms) = n + as_millis d"
    using assms by (simp add: accounted_def unat_word_ariths ms)
  moreover have "scope_sum (btree_insert ?key ?new (per_scope w)) = n + as_millis d"
    using scope_sum_insert [of "per_scope w" ?key ?new] assms(1) new old by (simp add: accounted_def)
  moreover have "sorted_wrt (<) (map fst (btree_insert ?key ?new (per_scope w)))"
    using assms(1) by (simp only: accounted_def sorted_btree_insert)
  ultimately show ?thesis by (simp add: accounted_def)
qed

lemma accounted_fold:
  "accounted n w \<Longrightarrow> n + sum_list (map op_millis ops) < 2 ^ 64 \<Longrightarrow>
   accounted (n + sum_list (map op_millis ops)) (fold scope_step ops w)"
proof (induction ops arbitrary: n w)
  case (Cons op ops)
  have "accounted (n + op_millis op) (scope_step op w)"
    using Cons.prems
    by (cases op) (auto simp: accounted_def enter_scope_def drop_scope_def intro!: accounted_record [unfolded accounted_def])
  with Cons.IH [of "n + op_millis op" "scope_step op w"] Cons.prems show ?case by (simp add: add.assoc)
qed simp

interpretation breakdown: rust_ord breakdown_cmp
proof -
  have "rust_ord (\<lambda>a b :: string \<times> u32 \<times> duration. cmp_of (snd (snd b)) (snd (snd a)))"
    by (rule rust_ord.intro) (auto simp: cmp_of_def split: if_splits)
  moreover have "rust_ord (\<lambda>a b :: string \<times> u32 \<times> duration. cmp_of (fst a) (fst b))"
    by (rule rust_ord_on) (rule linorder_ord.rust_ord_axioms)
  ultimately show "rust_ord breakdown_cmp"
    unfolding breakdown_cmp_def [abs_def] by (rule rust_ord_then)
qed

lemma breakdown_sum:
  "sum_list (map (\<lambda>r. snd (snd r)) (retry_scope_breakdown w)) = from_millis (scope_sum (per_scope w))"
proof -
  have sorted: "sum_list (map f (sort_by c xs)) = sum_list (map f xs)" for f :: "string \<times> u32 \<times> duration \<Rightarrow> nat" and c xs
    by (metis mset_map mset_sort_by sum_mset_sum_list)
  have "sum_list (map (\<lambda>(k, v). unat (sr_backoff_ms v) * c) m) = scope_sum m * c" for c m
    by (induction m) (auto simp: algebra_simps)
  then show ?thesis
    by (simp add: retry_scope_breakdown_def sorted from_millis_def comp_def case_prod_unfold)
qed

text \<open>
  The backoff report adds up: as long as a run's waits, in milliseconds, add up below \<open>2 ^ 64\<close>,
  the run's total is their sum and equals the sum of the per-scope rows, whatever scopes were entered
  and left in between, and the rows are listed from the largest backoff to the smallest.
\<close>
theorem backoff_breakdown_adds_up:
  assumes "per_scope w = []" "backoff_millis w = 0" "sum_list (map op_millis ops) < 2 ^ 64"
  shows "total_retry_backoff (fold scope_step ops w) = from_millis (sum_list (map op_millis ops))
     \<and> sum_list (map (\<lambda>r. snd (snd r)) (retry_scope_breakdown (fold scope_step ops w))) = total_retry_backoff (fold scope_step ops w)
     \<and> sorted_wrt (\<lambda>a b. snd (snd b) \<le> snd (snd a)) (retry_scope_breakdown (fold scope_step ops w))"
proof -
  have "accounted 0 w" using assms(1,2) by (simp add: accounted_def)
  with accounted_fold [of 0 w ops] assms(3)
  have acc: "accounted (sum_list (map op_millis ops)) (fold scope_step ops w)" by simp
  have "sorted_wrt (\<lambda>a b. breakdown_cmp a b \<noteq> Greater) (retry_scope_breakdown (fold scope_step ops w))"
    unfolding retry_scope_breakdown_def by (rule breakdown.sorted_sort_by)
  then have "sorted_wrt (\<lambda>a b. snd (snd b) \<le> snd (snd a)) (retry_scope_breakdown (fold scope_step ops w))"
    by (rule sorted_wrt_mono_rel [rotated]) (auto simp: breakdown_cmp_def then_cmp_eq_iff cmp_of_def split: if_splits)
  with acc show ?thesis by (simp add: breakdown_sum total_retry_backoff_def accounted_def)
qed

theorem backoff_breakdown_adds_up_witness:
  "total_retry_backoff (fold scope_step [EnterScope ''npm'', Backoff (from_secs 10), LeaveScope, Backoff (from_secs 1)] (calm_world ()))
   = from_secs 11"
  using backoff_breakdown_adds_up [of "calm_world ()" "[EnterScope ''npm'', Backoff (from_secs 10), LeaveScope, Backoff (from_secs 1)]"]
  by (simp add: calm_world_def duration_units)

subsection \<open>One budget per publisher invocation\<close>

text \<open>
  What a publisher can do under its guard: let time pass, ask for its deadline, and open further
  guards around parts of its work.
\<close>

datatype scoped = Spend nat | AskDeadline | Invoke string "scoped list"

fun run_scoped :: "retry_config option \<Rightarrow> scoped \<Rightarrow> 's retry_world \<Rightarrow> 's retry_world \<times> nat option list"
and run_all :: "retry_config option \<Rightarrow> scoped list \<Rightarrow> 's retry_world \<Rightarrow> 's retry_world \<times> nat option list" where
  "run_scoped cfg (Spend n) w = (w\<lparr>clock := clock w + n\<rparr>, [])"
| "run_scoped cfg AskDeadline w = (w, [retry_deadline cfg w])"
| "run_scoped cfg (Invoke name body) w =
     (let (prev, w) = enter_publisher name w; (w, ds) = run_all cfg body w in (drop_publisher prev w, ds))"
| "run_all cfg [] w = (w, [])"
| "run_all cfg (x # xs) w =
     (let (w, ds) = run_scoped cfg x w; (w, es) = run_all cfg xs w in (w, ds @ es))"

lemma one_budget:
  fixes w :: "'s retry_world"
  shows "run_scoped cfg x w = (w', ds) \<Longrightarrow> budget_anchor w = Some t \<Longrightarrow>
     budget_anchor w' = Some t \<and> scope_stack w' = scope_stack w \<and> set ds \<subseteq> {checked_add_instant t (retry_budget cfg)}"
    and "run_all cfg xs w = (w', ds) \<Longrightarrow> budget_anchor w = Some t \<Longrightarrow>
     budget_anchor w' = Some t \<and> scope_stack w' = scope_stack w \<and> set ds \<subseteq> {checked_add_instant t (retry_budget cfg)}"
proof (induction cfg x w and cfg xs w arbitrary: w' ds and w' ds rule: run_scoped_run_all.induct)
  case (3 cfg name body w)
  let ?w1 = "enter_scope name w"
  obtain w2 where w2: "run_all cfg body ?w1 = (w2, ds)" "w' = drop_publisher (Some t) w2"
    using 3(2,3) by (auto simp: enter_publisher_def enter_scope_def Let_def split: prod.splits)
  have "enter_publisher name w = (Some t, ?w1)" using 3(3) by (simp add: enter_publisher_def enter_scope_def Let_def)
  from 3(1) [OF this [symmetric] refl w2(1)] 3(3) w2(2) show ?case
    by (simp add: enter_scope_def drop_publisher_def drop_scope_def)
next
  case (5 cfg x xs w)
  obtain w1 ds1 w2 ds2 where r: "run_scoped cfg x w = (w1, ds1)" "run_all cfg xs w1 = (w2, ds2)"
    by (metis prod.exhaust)
  with 5(3) have out: "w' = w2" "ds = ds1 @ ds2" by simp_all
  from 5(1) [OF r(1) 5(4)] 5(2) [OF r(1) [symmetric] refl r(2)] show ?case by (simp add: out)
qed (auto simp: retry_deadline_def)

text \<open>
  A publisher invocation has one deadline: every time anything under its guard asks -- later,
  after any amount of waiting, or inside further guards -- the answer is the moment the invocation
  began plus the configured budget; and when the guard is dropped the budget is closed and the
  attribution scopes are as before, so the next invocation gets its own.
\<close>
theorem one_deadline_per_invocation:
  assumes "budget_anchor w = None" "run_scoped cfg (Invoke name body) w = (w', ds)"
  shows "set ds \<subseteq> {checked_add_instant (clock w) (retry_budget cfg)} \<and> budget_anchor w' = None
     \<and> scope_stack w' = scope_stack w"
proof -
  let ?w1 = "(enter_scope name w)\<lparr>budget_anchor := Some (clock w)\<rparr>"
  have "enter_publisher name w = (None, ?w1)" using assms(1) by (simp add: enter_publisher_def enter_scope_def Let_def)
  with assms(2) obtain w2 where "run_all cfg body ?w1 = (w2, ds)" "w' = drop_publisher None w2"
    by (auto simp: Let_def split: prod.splits)
  with one_budget(2) [of cfg body ?w1 w2 ds "clock w"] show ?thesis
    by (simp add: drop_publisher_def drop_scope_def enter_scope_def)
qed

theorem one_deadline_per_invocation_witness:
  "snd (run_scoped None (Invoke ''cargo'' [AskDeadline, Spend 5000, Invoke ''auth'' [Spend 10, AskDeadline], AskDeadline]) (calm_world ()))
   = replicate 3 (Some (from_secs 900))"
proof -
  let ?body = "[AskDeadline, Spend 5000, Invoke ''auth'' [Spend 10, AskDeadline], AskDeadline]"
  let ?run = "run_scoped None (Invoke ''cargo'' ?body) (calm_world ())"
  have "budget_anchor (calm_world ()) = None" by (simp add: calm_world_def)
  then have "set (snd ?run) \<subseteq> {checked_add_instant (clock (calm_world ())) (retry_budget None)}"
    using one_deadline_per_invocation [OF _ prod.collapse [symmetric, of ?run]] by (simp only: simp_thms)
  moreover have "checked_add_instant (clock (calm_world ())) (retry_budget None) = Some (from_secs 900)"
    by (simp add: calm_world_def checked_add_instant_def retry_budget_def default_retry_config_def default_max_elapsed_def
      instant_limit_def duration_units)
  ultimately have answers: "set (snd ?run) \<subseteq> {Some (from_secs 900)}" by (simp only:)
  have "length (snd ?run) = 3" by (simp add: Let_def split: prod.split)
  then show ?thesis by (rule replicate_eqI) (use answers in blast)
qed

end
