(* ===== verification/RetryHttp.thy ===== *)
theory RetryHttp
  imports Retry
begin

section \<open>Retriable errors and HTTP ladders (\<open>core/src/retry/\{error,http\}.rs\<close>)\<close>

text \<open>
  The error chain and its classifiers, the rate-limit headers, the jitter, and the HTTP ladders over
  the engine of \<open>Retry\<close>. A Rust error is a value of \<open>std_error\<close>: the two transparent wrappers, an
  \<open>io::Error\<close> with its kind, and any other error with its text and source; \<open>anyhow\<close> contexts are of
  the last kind. The HTTP client is a parameter: \<open>send\<close> returns a response or a transport error and
  may change the world. The wall clock the rate-limit reset is compared with is the parameter
  \<open>wall\<close>, a function of the monotonic clock. Texts are ASCII, where \<open>to_lowercase\<close> is the ASCII one.

  Main results: the classifiers look through every wrapper and context, a failed response outside
  the retriable statuses is sent once unless its own text reads like a network failure, a rate-limited
  response is waited out as long as its server asked, and jitter stays within a fifth of the base.
\<close>

subsection \<open>The error chain\<close>

datatype io_kind =
  UnexpectedEof | TimedOut | ConnectionRefused | ConnectionReset | ConnectionAborted | BrokenPipe | OtherKind

datatype std_error =
    HttpError std_error u16 "duration option"
  | Retriable std_error
  | IoError io_kind string "std_error option"
  | PlainError string "std_error option"

fun display :: "std_error \<Rightarrow> string" where
  "display (HttpError e _ _) = display e"
| "display (Retriable e) = display e"
| "display (IoError _ m _) = m"
| "display (PlainError m _) = m"

fun source :: "std_error \<Rightarrow> std_error option" where
  "source (HttpError e _ _) = source e"
| "source (Retriable e) = source e"
| "source (IoError _ _ s) = s"
| "source (PlainError _ s) = s"

fun transparent_inner :: "std_error \<Rightarrow> std_error option" where
  "transparent_inner (HttpError e _ _) = Some e"
| "transparent_inner (Retriable e) = Some e"
| "transparent_inner _ = None"

definition next_link :: "std_error \<Rightarrow> std_error option" where
  "next_link e = (case transparent_inner e of Some i \<Rightarrow> Some i | None \<Rightarrow> source e)"

lemma next_link_shrinks: "next_link e = Some i \<Longrightarrow> size i < size e"
  by (cases e) (auto simp: next_link_def)

function error_links :: "std_error \<Rightarrow> std_error list" where
  "error_links e = e # (case next_link e of Some i \<Rightarrow> error_links i | None \<Rightarrow> [])"
  by auto

termination error_links
  by (relation "measure size") (auto dest: next_link_shrinks)

declare error_links.simps [simp del]

definition http_status :: "std_error \<Rightarrow> u16" where
  "http_status err =
     (case List.find (\<lambda>e. case e of HttpError _ _ _ \<Rightarrow> True | _ \<Rightarrow> False) (error_links err) of
        Some (HttpError _ s _) \<Rightarrow> s | _ \<Rightarrow> 0)"

fun retry_after_of :: "std_error \<Rightarrow> duration option" where
  "retry_after_of (HttpError _ _ r) = r"
| "retry_after_of _ = None"

definition http_retry_after :: "std_error \<Rightarrow> duration option" where
  "http_retry_after err = Option.bind (List.find (\<lambda>e. retry_after_of e \<noteq> None) (error_links err)) retry_after_of"

definition from_response :: "std_error \<Rightarrow> u16 option \<Rightarrow> std_error" where
  "from_response err resp_status = HttpError err (case resp_status of Some s \<Rightarrow> s | None \<Rightarrow> 0) None"

subsection \<open>Classification\<close>

definition network_error_needles :: "string list" where
  "network_error_needles =
     [''connection reset'', ''network is unreachable'', ''connection closed'', ''connection refused'',
      ''tls handshake timeout'', ''i/o timeout'', ''broken pipe'', ''timeout awaiting response headers'',
      ''context deadline exceeded'', ''operation timed out'', ''the network connection was aborted'',
      ''an existing connection was forcibly closed'', ''dns error'', ''failed to lookup address'',
      ''no such host is known'']"

definition network_text :: "string \<Rightarrow> bool" where
  "network_text s = list_ex (\<lambda>n. contains (to_ascii_lowercase s) n) network_error_needles"

definition network_link :: "std_error \<Rightarrow> bool" where
  "network_link e \<longleftrightarrow>
     (case e of
        IoError kind m _ \<Rightarrow>
          kind \<in> {UnexpectedEof, TimedOut, ConnectionRefused, ConnectionReset, ConnectionAborted, BrokenPipe}
          \<or> to_ascii_lowercase m = ''eof'' \<or> to_ascii_lowercase m = ''unexpected eof''
      | _ \<Rightarrow> False)
     \<or> network_text (display e)"

definition is_network_error :: "std_error \<Rightarrow> bool" where
  "is_network_error err = list_ex network_link (error_links err)"

definition status_is_retriable :: "u16 \<Rightarrow> bool" where
  "status_is_retriable status \<longleftrightarrow> status \<ge> 500 \<or> status = 429"

definition retriable_link :: "std_error \<Rightarrow> bool" where
  "retriable_link e =
     (case e of Retriable _ \<Rightarrow> True | HttpError _ status _ \<Rightarrow> status_is_retriable status | _ \<Rightarrow> False)"

definition is_retriable :: "std_error \<Rightarrow> bool" where
  "is_retriable err = (list_ex retriable_link (error_links err) \<or> is_network_error err)"

definition is_retriable_opt :: "std_error option \<Rightarrow> bool" where
  "is_retriable_opt err = (case err of None \<Rightarrow> False | Some e \<Rightarrow> is_retriable e)"

subsection \<open>Rate limits and jitter\<close>

type_synonym header_map = "string \<Rightarrow> string option"

definition header_int :: "header_map \<Rightarrow> string \<Rightarrow> nat option" where
  "header_int headers name =
     (case headers name of
        None \<Rightarrow> None
      | Some v \<Rightarrow> (case parse_u64 (trim v) of Some n \<Rightarrow> if n > 0 then Some n else None | None \<Rightarrow> None))"

definition rate_limit_retry_after :: "nat \<Rightarrow> u16 \<Rightarrow> header_map \<Rightarrow> duration option" where
  "rate_limit_retry_after now status headers =
     (if status \<noteq> 429 then None
      else case header_int headers ''RateLimit-Reset'' of
             Some reset \<Rightarrow>
               if reset > now then Some (from_secs (reset - now))
               else map_option from_secs (header_int headers ''Retry-After'')
           | None \<Rightarrow> map_option from_secs (header_int headers ''Retry-After''))"

text \<open>
  The clock's sub-second nanoseconds and the value of the process-wide Weyl counter are arguments;
  the counter's next value is the second result.
\<close>

definition jitter_duration :: "u64 \<Rightarrow> u64 \<Rightarrow> duration \<Rightarrow> duration \<times> u64" where
  "jitter_duration subsec seq base =
     (let nanos = word_of_nat base :: u64;
          window = nanos div 5
      in if window = 0 then (base, seq)
         else let seed = Bit_Operations.xor subsec seq;
                  offset = seed mod (window * 2);
                  jittered = saturating_add (saturating_sub nanos window) offset
              in (unat jittered, seq + 0x9E3779B97F4A7C15))"

subsection \<open>The HTTP ladders\<close>

datatype success_class = Strict | AllowRedirects

record http_response =
  status :: u16
  headers :: header_map
  body :: "(string, string) result"

definition is_success :: "u16 \<Rightarrow> bool" where "is_success s \<longleftrightarrow> 200 \<le> s \<and> s < 300"
definition is_redirection :: "u16 \<Rightarrow> bool" where "is_redirection s \<longleftrightarrow> 300 \<le> s \<and> s < 400"
definition is_server_error :: "u16 \<Rightarrow> bool" where "is_server_error s \<longleftrightarrow> 500 \<le> s \<and> s < 600"

definition succeeded :: "success_class \<Rightarrow> u16 \<Rightarrow> bool" where
  "succeeded c s = (case c of Strict \<Rightarrow> is_success s | AllowRedirects \<Rightarrow> is_success s \<or> is_redirection s)"

definition body_text :: "http_response \<Rightarrow> string" where
  "body_text resp = (case body resp of Inr t \<Rightarrow> t | Inl e \<Rightarrow> ''<failed to read body: '' @ e @ ''>'')"

definition to_flow :: "std_error \<Rightarrow> std_error control_flow" where
  "to_flow e = (if is_retriable e then Continue e else Break e)"

text \<open>The error of a failed response, and of a failure before any response.\<close>

definition response_error :: "nat \<Rightarrow> (u16 \<Rightarrow> string \<Rightarrow> string) \<Rightarrow> http_response \<Rightarrow> std_error" where
  "response_error now error_msg resp =
     HttpError (IoError OtherKind (error_msg (status resp) (body_text resp)) None) (status resp)
       (rate_limit_retry_after now (status resp) (headers resp))"

definition transport_error :: "string \<Rightarrow> std_error \<Rightarrow> std_error" where
  "transport_error desc e = PlainError (desc @ '': HTTP transport error'') (Some (from_response e None))"

definition http_attempt where
  "http_attempt wall desc success_class error_msg on_success send attempt w =
     (case send attempt w of
        (Inr resp, w) \<Rightarrow>
          (if succeeded success_class (status resp) then (Inr (on_success resp), w)
           else (Inl (to_flow (response_error (wall (clock w)) error_msg resp)), w))
      | (Inl e, w) \<Rightarrow> (Inl (to_flow (transport_error desc e)), w))"

definition anyhow_hint :: "std_error retry_hint" where
  "anyhow_hint = \<lparr>hint_display = display, server_wait = http_retry_after\<rparr>"

definition exhausted_context :: "string \<Rightarrow> std_error \<Rightarrow> std_error" where
  "exhausted_context desc err =
     (if \<not> is_retriable err then err
      else if starts_with (display err) (desc @ '': '') then PlainError ''exhausted retry attempts'' (Some err)
      else PlainError (desc @ '': exhausted retry attempts'') (Some err))"

definition map_err :: "('e \<Rightarrow> 'f) \<Rightarrow> ('e, 't) result \<times> 'r \<Rightarrow> ('f, 't) result \<times> 'r" where
  "map_err f r = (case r of (Inl e, x) \<Rightarrow> (Inl (f e), x) | (Inr v, x) \<Rightarrow> (Inr v, x))"

definition retry_http_blocking_deadline where
  "retry_http_blocking_deadline slp wall desc policy deadline success_class send error_msg w =
     map_err (exhausted_context desc)
       (retry_steps_sync slp desc (max_attempts policy) deadline
          (\<lambda>attempt w. case http_attempt wall desc success_class error_msg (\<lambda>resp. (status resp, body_text resp)) send attempt w of
             (r, w) \<Rightarrow> (controlflow_to_step anyhow_hint policy attempt r, w)) w)"

definition retry_http_blocking where
  "retry_http_blocking slp wall desc policy success_class send error_msg w =
     retry_http_blocking_deadline slp wall desc policy None success_class send error_msg w"

definition retry_http_async_deadline where
  "retry_http_async_deadline slp wall desc policy deadline success_class send error_msg w =
     map_err (exhausted_context desc)
       (retry_steps_async slp desc (max_attempts policy) deadline
          (\<lambda>attempt w. case http_attempt wall desc success_class error_msg (\<lambda>resp. resp) send attempt w of
             (r, w) \<Rightarrow> (controlflow_to_step anyhow_hint policy attempt r, w)) w)"

definition retry_http_async where
  "retry_http_async slp wall desc policy success_class send error_msg w =
     retry_http_async_deadline slp wall desc policy None success_class send error_msg w"

text \<open>\<open>reason\<close> is \<open>StatusCode::canonical_reason\<close>.\<close>

definition classify_http_sync ::
    "(u16 \<Rightarrow> string option) \<Rightarrow> (std_error, http_response) result \<Rightarrow> (std_error control_flow, http_response) result" where
  "classify_http_sync reason r =
     (case r of
        Inr resp \<Rightarrow>
          (let s = status resp
           in if is_success s \<or> is_redirection s then Inr resp
              else if is_server_error s
              then Inl (Continue (PlainError (''HTTP '' @ show_nat (unat s) @ '' ''
                     @ (case reason s of Some t \<Rightarrow> t | None \<Rightarrow> ''server error'')) None))
              else Inl (Break (PlainError (''HTTP '' @ show_nat (unat s) @ '' ''
                     @ (case reason s of Some t \<Rightarrow> t | None \<Rightarrow> ''client error'')) None)))
      | Inl e \<Rightarrow> Inl (Continue e))"


section \<open>Properties\<close>

subsection \<open>Wrapping\<close>

lemma error_links_wrap [simp]:
  "error_links (HttpError e s r) = HttpError e s r # error_links e"
  "error_links (Retriable e) = Retriable e # error_links e"
  "error_links (IoError k m None) = [IoError k m None]"
  "error_links (IoError k m (Some e)) = IoError k m (Some e) # error_links e"
  "error_links (PlainError m None) = [PlainError m None]"
  "error_links (PlainError m (Some e)) = PlainError m (Some e) # error_links e"
  by (simp_all add: error_links.simps [of "HttpError e s r"] error_links.simps [of "Retriable e"]
    error_links.simps [of "IoError k m None"] error_links.simps [of "IoError k m (Some e)"]
    error_links.simps [of "PlainError m None"] error_links.simps [of "PlainError m (Some e)"] next_link_def)

lemma network_text_head: "network_text (display e) \<Longrightarrow> is_network_error e"
  by (simp add: is_network_error_def error_links.simps [of e] network_link_def)

lemma is_retriable_Http: "is_retriable (HttpError e s r) \<longleftrightarrow> status_is_retriable s \<or> is_retriable e"
  using network_text_head [of e] by (auto simp: is_retriable_def is_network_error_def retriable_link_def network_link_def)

lemma is_retriable_context: "is_retriable (PlainError m (Some e)) \<longleftrightarrow> network_text m \<or> is_retriable e"
  by (auto simp: is_retriable_def is_network_error_def retriable_link_def network_link_def)

text \<open>
  The classifiers look through what the program wraps around an error: a status wrapper adds
  exactly its own status to the verdict, a context adds exactly its own text, and a context hides
  neither the status nor the server's wait; the retriable marker overrides every status inside it.
\<close>
theorem classifiers_see_through_wrappers:
  "(is_retriable (HttpError e s r) \<longleftrightarrow> status_is_retriable s \<or> is_retriable e)
   \<and> (is_retriable (PlainError m (Some e)) \<longleftrightarrow> network_text m \<or> is_retriable e)
   \<and> is_retriable (Retriable e)
   \<and> http_status (PlainError m (Some e)) = http_status e \<and> http_status (HttpError e s r) = s
   \<and> http_retry_after (PlainError m (Some e)) = http_retry_after e
   \<and> http_retry_after (HttpError e s (Some d)) = Some d \<and> display (HttpError e s r) = display e"
  by (simp add: is_retriable_Http is_retriable_context http_status_def http_retry_after_def)
    (simp add: is_retriable_def retriable_link_def)

subsection \<open>Which responses are sent again\<close>

definition reads_like_network_failure :: "string \<Rightarrow> bool" where
  "reads_like_network_failure m \<longleftrightarrow> network_text m \<or> to_ascii_lowercase m \<in> {''eof'', ''unexpected eof''}"

lemma response_error_retriable:
  "is_retriable (response_error now error_msg resp) \<longleftrightarrow>
     status_is_retriable (status resp) \<or> reads_like_network_failure (error_msg (status resp) (body_text resp))"
  by (auto simp: response_error_def is_retriable_def is_network_error_def retriable_link_def network_link_def
    reads_like_network_failure_def)

text \<open>
  C28. A failed response is sent once: a response that is no success, whose status is neither 429 nor
  a server error and whose message does not itself read like a network failure, ends the ladder at
  its first attempt with that response's error, without a wait and without a retry line.
\<close>
theorem client_error_sent_once:
  assumes "send 1 w = (Inr resp, w1)" "\<not> succeeded c (status resp)" "\<not> status_is_retriable (status resp)"
    and "\<not> reads_like_network_failure (error_msg (status resp) (body_text resp))"
  shows "retry_http_blocking_deadline slp wall desc policy deadline c send error_msg w
     = (Inl (response_error (wall (clock w1)) error_msg resp), w1, [Attempt 1])"
proof -
  have "\<not> is_retriable (response_error (wall (clock w1)) error_msg resp)"
    using assms(3,4) by (simp add: response_error_retriable)
  then show ?thesis
    using assms(1,2)
    by (simp add: retry_http_blocking_deadline_def retry_steps_sync_def retry_loop.simps http_attempt_def to_flow_def
      controlflow_to_step_def map_err_def exhausted_context_def)
qed

definition canned :: "http_response \<Rightarrow> u32 \<Rightarrow> unit retry_world \<Rightarrow> (std_error, http_response) result \<times> unit retry_world" where
  "canned resp attempt w = (Inr resp, w)"

definition plain_msg :: "u16 \<Rightarrow> string \<Rightarrow> string" where
  "plain_msg s b = ''status '' @ b"

theorem client_error_sent_once_witness:
  "let resp = \<lparr>status = 404, headers = (\<lambda>_. None), body = Inr ''gone''\<rparr>
   in retry_http_blocking_deadline (+) (\<lambda>t. t) ''push'' UPLOAD None Strict (canned resp) plain_msg (calm_world ())
      = (Inl (response_error (clock (calm_world ())) plain_msg resp), calm_world (), [Attempt 1])"
  unfolding Let_def
  by (rule client_error_sent_once)
    (simp_all add: canned_def succeeded_def is_success_def status_is_retriable_def reads_like_network_failure_def
      plain_msg_def body_text_def network_text_def network_error_needles_def contains_def to_ascii_lowercase_def to_ascii_lower_def sublist_Cons_right)

text \<open>The text of a response counts: a 404 whose body mentions a reset connection is retried.\<close>

lemma client_error_retried_by_text:
  "is_retriable (response_error now (\<lambda>s b. b) \<lparr>status = 404, headers = h, body = Inr ''connection reset''\<rparr>)"
  by (simp add: response_error_retriable reads_like_network_failure_def body_text_def network_text_def
    network_error_needles_def contains_def to_ascii_lowercase_def to_ascii_lower_def sublist_Cons_right)

text \<open>The one-shot classifier does not retry the rate-limit status the shared rule retries.\<close>

lemma classify_http_sync_429:
  "status resp = 429 \<Longrightarrow> (\<exists>e. classify_http_sync reason (Inr resp) = Inl (Break e)) \<and> status_is_retriable 429"
  by (simp add: classify_http_sync_def Let_def is_success_def is_redirection_def is_server_error_def status_is_retriable_def)

subsection \<open>Waiting as long as the server asks\<close>

text \<open>
  A rate limit is waited out: when a first response is a 429 that asks for a wait -- the reset
  time if it lies ahead, else the delay in seconds -- and a second attempt is allowed, the ladder
  sleeps exactly that wait, from the moment the response arrived, before it sends again; the
  policy's own backoff and cap play no part.
\<close>
theorem rate_limit_waited_out:
  assumes "send 1 w = (Inr resp, w1)" "status resp = 429"
    and "rate_limit_retry_after (wall (clock w1)) 429 (headers resp) = Some d" "d > 0" "1 < max_attempts policy"
  shows "\<exists>r w' line rest. retry_http_blocking_deadline slp wall desc policy None c send error_msg w
     = (r, w', Attempt 1 # WarnLn line # Slept (clock w1) d # Attempt 2 # rest)"
proof -
  let ?op = "\<lambda>attempt w. case http_attempt wall desc c error_msg (\<lambda>resp. (status resp, body_text resp)) send attempt w of
             (r, w) \<Rightarrow> (controlflow_to_step anyhow_hint policy attempt r, w)"
  let ?mx = "max (max_attempts policy) 1" and ?e = "response_error (wall (clock w1)) error_msg resp"
  let ?w2 = "fst (sleep_backoff_blocking slp d w1)"
  have "\<not> succeeded c (status resp)" using assms(2) by (cases c) (simp_all add: succeeded_def is_success_def is_redirection_def)
  moreover have "is_retriable ?e" using assms(2) by (simp add: response_error_retriable status_is_retriable_def)
  moreover have "http_retry_after ?e = Some d" using assms(2,3) by (simp add: response_error_def http_retry_after_def)
  ultimately have op: "?op 1 w = (RetryAfter ?e d (display ?e), w1)"
    using assms(1) by (simp add: http_attempt_def to_flow_def controlflow_to_step_def anyhow_hint_def)
  have mx: "\<not> ?mx \<le> 1" using assms(5) by (simp add: max_def not_le)
  obtain r w' rest where second: "retry_loop (sleep_backoff_blocking slp) desc ?mx None ?op 2 ?w2 = (r, w', rest)"
    by (rule prod_cases3)
  then have "\<exists>rest'. rest = Attempt 2 # rest'"
    by (cases rule: retry_loop_turn) (auto simp: ladder_ending_def)
  moreover have "retry_loop (sleep_backoff_blocking slp) desc ?mx None ?op 1 w
      = (r, w', Attempt 1 # warn_retry desc 1 ?mx (display ?e) d # Slept (clock w1) d # rest)"
  proof -
    have "sleep_backoff_blocking slp d w1 = (?w2, [Slept (clock w1) d])"
      using blocking.slept [of slp d w1] assms(4) by (cases "sleep_backoff_blocking slp d w1") simp
    moreover have "\<not> deadline_exhausted (clock w1) None d" by (simp add: deadline_exhausted_def)
    moreover have "(1 :: u32) < ?mx" using mx by (simp only: not_le)
    moreover have "retry_loop (sleep_backoff_blocking slp) desc ?mx None ?op (1 + 1) ?w2 = (r, w', rest)"
      using second by (simp only: one_add_one)
    ultimately show ?thesis
      using retry_loop_again [of ?op 1 w ?e d "display ?e" w1 ?mx None "sleep_backoff_blocking slp" ?w2 "[Slept (clock w1) d]" desc r w' rest] op
      by simp
  qed
  ultimately show ?thesis
    by (auto simp: retry_http_blocking_deadline_def retry_steps_sync_def map_err_def warn_retry_def split: sum.splits)
qed

theorem rate_limit_waited_out_witness:
  "\<exists>r w' line rest. retry_http_blocking_deadline (+) (\<lambda>t. t) ''push'' UPLOAD None Strict
      (canned \<lparr>status = 429, headers = [''Retry-After'' \<mapsto> ''7''], body = Inr []\<rparr>) plain_msg (calm_world ())
     = (r, w', Attempt 1 # WarnLn line # Slept 0 (from_secs 7) # Attempt 2 # rest)"
proof -
  have "rate_limit_retry_after (clock (calm_world ())) 429 [''Retry-After'' \<mapsto> ''7''] = Some (from_secs 7)"
    by (simp add: rate_limit_retry_after_def header_int_def trim_def parse_u64_def digits_val_def digit_val_def)
  then show ?thesis
    using rate_limit_waited_out [of "canned \<lparr>status = 429, headers = [''Retry-After'' \<mapsto> ''7''], body = Inr []\<rparr>"
      "calm_world ()" "\<lparr>status = 429, headers = [''Retry-After'' \<mapsto> ''7''], body = Inr []\<rparr>" "calm_world ()" "\<lambda>t. t" "from_secs 7" UPLOAD]
    by (simp add: canned_def UPLOAD_def duration_units calm_world_def)
qed

subsection \<open>Jitter\<close>

text \<open>
  Jitter keeps a wait within a fifth of its base on either side, for every clock reading and
  counter value and every base that fits the 64 bits it is computed in; no step of the computation
  wraps or divides by zero. A base below five nanoseconds is returned as it is.
\<close>
theorem jitter_within_a_fifth:
  assumes "base < 2 ^ 64"
  shows "base - base div 5 \<le> fst (jitter_duration subsec seq base)
     \<and> fst (jitter_duration subsec seq base) \<le> base + base div 5
     \<and> (0 < base div 5 \<longrightarrow> fst (jitter_duration subsec seq base) < base + base div 5)"
proof -
  let ?n = "word_of_nat base :: u64" and ?seed = "Bit_Operations.xor subsec seq"
  have n: "unat ?n = base" using assms by (simp add: unsigned_of_nat take_bit_nat_eq_self)
  have win: "unat (?n div 5) = base div 5" by (simp add: unat_div n)
  show ?thesis
  proof (cases "base div 5 = 0")
    case True
    then have "?n div 5 = 0" using win by (metis unsigned_0 unsigned_word_eqI)
    with True show ?thesis by (simp add: jitter_duration_def Let_def)
  next
    case False
    then have pos: "?n div 5 \<noteq> 0" using win by (metis unsigned_0)
    have two: "unat (?n div 5 * 2) = base div 5 * 2"
      using win assms by (simp add: unat_word_ariths)
    have off: "unat (?seed mod (?n div 5 * 2)) < base div 5 * 2"
      using False by (simp add: unat_mod two)
    have "unat (saturating_sub ?n (?n div 5)) = base - base div 5" by (simp add: unat_saturating_sub n win)
    then have "fst (jitter_duration subsec seq base) = min (base - base div 5 + unat (?seed mod (?n div 5 * 2))) (2 ^ 64 - 1)"
      using pos by (simp add: jitter_duration_def Let_def unat_saturating_add)
    with off assms False show ?thesis by linarith
  qed
qed

theorem jitter_within_a_fifth_witness:
  "fst (jitter_duration 123456789 0 (from_secs 10)) < from_secs 12 \<and> from_secs 8 \<le> fst (jitter_duration 123456789 0 (from_secs 10))"
  using jitter_within_a_fifth [of "from_secs 10" 123456789 0] by (simp add: duration_units)

end
