(* ===== verification/NextVersion.thy ===== *)
theory NextVersion
  imports Tags "HOL-Library.Product_Lexorder"
begin

section \<open>The next version (\<open>cli/src/commands/tag/\<close>, \<open>cli/src/commands/bump/\<close>)\<close>

text \<open>
  Models how \<open>anodizer tag\<close> derives the next version: the classification of commit messages (\<open>core/src/git/conventional.rs\<close>)
  with squash-merge expansion (\<open>core/src/git/commits/squash.rs\<close>), the bump detection and its demotion below 1.0
  (\<open>tag/bump_detect.rs\<close>), the previous tag (\<open>tag/crate_info.rs\<close>) and the plan (\<open>tag/plan.rs\<close>); and the inference of
  \<open>anodizer bump\<close> (\<open>bump/inference.rs\<close>, \<open>bump/plan.rs\<close>). Reading the commit log is a parameter. The components of a version
  are \<open>u64\<close>; the increments wrap as they do in a release build. A tuple of components is compared lexicographically.

  Main results: a planned version is above the previous tag and not below the manifest; with the tags of the
  repository it is above every tag of the family; \<open>bump\<close> and \<open>tag\<close> infer the same level from the same messages.
\<close>

subsection \<open>Commit messages\<close>

datatype conventional_level = Patch | Minor | Major

fun level_rank :: "conventional_level \<Rightarrow> nat" where
  "level_rank Patch = 0" | "level_rank Minor = 1" | "level_rank Major = 2"

text \<open>The derived order on the variants.\<close>

instantiation conventional_level :: linorder
begin

definition less_eq_conventional_level :: "conventional_level \<Rightarrow> conventional_level \<Rightarrow> bool" where
  "less_eq_conventional_level a b \<longleftrightarrow> level_rank a \<le> level_rank b"

definition less_conventional_level :: "conventional_level \<Rightarrow> conventional_level \<Rightarrow> bool" where
  "less_conventional_level a b \<longleftrightarrow> level_rank a < level_rank b"

instance
proof
  fix a b c :: conventional_level
  show "(a < b) = (a \<le> b \<and> \<not> b \<le> a)" by (auto simp: less_eq_conventional_level_def less_conventional_level_def)
  show "a \<le> a" by (simp add: less_eq_conventional_level_def)
  show "a \<le> b \<Longrightarrow> b \<le> c \<Longrightarrow> a \<le> c" by (simp add: less_eq_conventional_level_def)
  show "a \<le> b \<Longrightarrow> b \<le> a \<Longrightarrow> a = b" by (cases a; cases b) (auto simp: less_eq_conventional_level_def)
  show "a \<le> b \<or> b \<le> a" by (auto simp: less_eq_conventional_level_def)
qed

end

definition split_once :: "char \<Rightarrow> string \<Rightarrow> (string \<times> string) option" where
  "split_once d s =
     (if d \<in> set s then Some (takeWhile (\<lambda>c. c \<noteq> d) s, tl (dropWhile (\<lambda>c. c \<noteq> d) s)) else None)"

definition first_line :: "string \<Rightarrow> string" where
  "first_line msg = (case lines_str msg of l # _ \<Rightarrow> l | [] \<Rightarrow> [])"

definition trim_end :: "string \<Rightarrow> string" where
  "trim_end s = rev (dropWhile is_whitespace (rev s))"

definition classify_commit :: "string \<Rightarrow> conventional_level option" where
  "classify_commit msg =
     (if contains msg ''BREAKING CHANGE'' \<or> contains msg ''BREAKING-CHANGE'' then Some Major
      else case split_once CHR '':'' (dropWhile is_whitespace (first_line msg)) of
             None \<Rightarrow> None
           | Some (ty, _) \<Rightarrow>
               (case (case split_once CHR ''('' ty of
                        None \<Rightarrow> (ty, [])
                      | Some (h, scope_rest) \<Rightarrow>
                          (h, case split_once CHR '')'' scope_rest of Some (_, after) \<Rightarrow> after | None \<Rightarrow> [])) of
                  (head, marker) \<Rightarrow>
                    if starts_with marker ''!'' \<or> ends_with ty ''!'' then Some Major
                    else if trim head = ''feat'' then Some Minor
                    else if trim head \<in> {''fix'', ''perf'', ''revert''} then Some Patch
                    else None))"

text \<open>
  \<open>\s*[*-]\s+([a-zA-Z]+(?:\([^)]*\))?!?:\s+\S.*)\<close> on one line: the classes of adjacent parts are disjoint, so the
  scan from left to right finds the one match.
\<close>

definition skip_spaces1 :: "string \<Rightarrow> string option" where
  "skip_spaces1 s = (case s of c # _ \<Rightarrow> if is_whitespace c then Some (dropWhile is_whitespace s) else None | [] \<Rightarrow> None)"

definition skip_scope :: "string \<Rightarrow> string option" where
  "skip_scope s = (case expect CHR ''('' s of None \<Rightarrow> Some s | Some r \<Rightarrow> map_option snd (split_once CHR '')'' r))"

definition conventional_subject :: "string \<Rightarrow> bool" where
  "conventional_subject s =
     (is_ascii_alphabetic (hd (s @ [CHR 0x00]))
      \<and> (case skip_scope (dropWhile is_ascii_alphabetic s) of
           None \<Rightarrow> False
         | Some r \<Rightarrow>
             (case Option.bind (expect CHR '':'' (case expect CHR ''!'' r of Some r' \<Rightarrow> r' | None \<Rightarrow> r)) skip_spaces1 of
                None \<Rightarrow> False
              | Some rest \<Rightarrow> rest \<noteq> [])))"

definition squashed_subject :: "string \<Rightarrow> string option" where
  "squashed_subject line =
     (case dropWhile is_whitespace line of
        b # r \<Rightarrow>
          if b = CHR ''*'' \<or> b = CHR ''-''
          then (case skip_spaces1 r of
                  Some s \<Rightarrow> if conventional_subject s then Some (trim_end s) else None
                | None \<Rightarrow> None)
          else None
      | [] \<Rightarrow> None)"

text \<open>\<open>\s*\(#\d+\)$\<close>, read from the end of the trimmed subject.\<close>

definition without_pr_number :: "string \<Rightarrow> string" where
  "without_pr_number subject =
     (let s = trim subject
      in case rev s of
           c # r \<Rightarrow>
             if c = CHR '')'' \<and> takeWhile is_ascii_digit r \<noteq> [] \<and> prefix ''#('' (dropWhile is_ascii_digit r)
             then trim_end (rev (drop 2 (dropWhile is_ascii_digit r)))
             else s
         | [] \<Rightarrow> s)"

definition squashed_subjects :: "string \<Rightarrow> string \<Rightarrow> string list" where
  "squashed_subjects subject body =
     filter (\<lambda>bullet. without_pr_number bullet \<noteq> without_pr_number subject)
       (List.map_filter squashed_subject (lines_str body))"

definition messages_with_squashed :: "string \<Rightarrow> string \<Rightarrow> bool \<Rightarrow> string list" where
  "messages_with_squashed subject body expand_squash_merges =
     (if trim body = [] then subject else subject @ [CHR 0x0A, CHR 0x0A] @ body)
     # (if expand_squash_merges then squashed_subjects subject body else [])"

subsection \<open>Configuration\<close>

record tag_config =
  default_bump :: "string option"
  bump_minor_pre_major :: "bool option"
  bump_patch_for_minor_pre_major :: "bool option"
  tag_prefix :: "string option"
  release_branches :: "string list option"
  custom_tag :: "string option"
  tag_context :: "string option"
  branch_history :: "string option"
  initial_version :: "string option"
  tag_prerelease :: "bool option"
  tag_prerelease_suffix :: "string option"
  force_without_changes :: "bool option"
  force_without_changes_pre :: "bool option"
  major_string_token :: "string option"
  minor_string_token :: "string option"
  patch_string_token :: "string option"
  none_string_token :: "string option"
  git_api_tagging :: "bool option"
  skip_ci_on_bump :: "bool option"

record resolved_config =
  r_default_bump :: string
  r_bump_minor_pre_major :: bool
  r_bump_patch_for_minor_pre_major :: bool
  r_tag_prefix :: string
  r_release_branches :: "string list"
  r_custom_tag :: "string option"
  r_tag_context :: string
  r_branch_history :: string
  r_initial_version :: string
  r_prerelease :: bool
  r_prerelease_suffix :: string
  r_force_without_changes :: bool
  r_force_without_changes_pre :: bool
  r_major_string_token :: string
  r_minor_string_token :: string
  r_patch_string_token :: string
  r_none_string_token :: string
  r_git_api_tagging :: bool
  r_skip_ci_on_bump :: bool
  r_expand_squash_merges :: bool

definition unwrap_or :: "'a option \<Rightarrow> 'a \<Rightarrow> 'a" where
  "unwrap_or v d = (case v of Some x \<Rightarrow> x | None \<Rightarrow> d)"

definition empty_tag_config :: tag_config where
  "empty_tag_config = \<lparr>default_bump = None, bump_minor_pre_major = None, bump_patch_for_minor_pre_major = None, tag_prefix = None,
     release_branches = None, custom_tag = None, tag_context = None, branch_history = None, initial_version = None,
     tag_prerelease = None, tag_prerelease_suffix = None, force_without_changes = None, force_without_changes_pre = None,
     major_string_token = None, minor_string_token = None, patch_string_token = None, none_string_token = None,
     git_api_tagging = None, skip_ci_on_bump = None\<rparr>"

text \<open>\<open>Config::repo_tag_prefix\<close>: the configured prefix, else \<open>v\<close>.\<close>

definition repo_tag_prefix :: "tag_config option \<Rightarrow> string" where
  "repo_tag_prefix cfg = unwrap_or (Option.bind cfg tag_prefix) ''v''"

text \<open>\<open>ResolvedConfig::from_config\<close>, from the \<open>tag\<close> block, the two options it reads and \<open>expand_squash_merges\<close>.\<close>

definition from_config :: "tag_config option \<Rightarrow> bool \<Rightarrow> string option \<Rightarrow> string option \<Rightarrow> resolved_config" where
  "from_config config_tag expand opt_default_bump opt_custom_tag =
     (let cfg = unwrap_or config_tag empty_tag_config
      in \<lparr>r_default_bump = unwrap_or (case opt_default_bump of Some b \<Rightarrow> Some b | None \<Rightarrow> default_bump cfg) ''none'',
          r_bump_minor_pre_major = unwrap_or (bump_minor_pre_major cfg) False,
          r_bump_patch_for_minor_pre_major = unwrap_or (bump_patch_for_minor_pre_major cfg) False,
          r_tag_prefix = repo_tag_prefix config_tag,
          r_release_branches = unwrap_or (release_branches cfg) [],
          r_custom_tag = (case opt_custom_tag of Some t \<Rightarrow> Some t | None \<Rightarrow> custom_tag cfg),
          r_tag_context = unwrap_or (tag_context cfg) ''repo'',
          r_branch_history = unwrap_or (branch_history cfg) ''compare'',
          r_initial_version = unwrap_or (initial_version cfg) ''0.0.0'',
          r_prerelease = unwrap_or (tag_prerelease cfg) False,
          r_prerelease_suffix = unwrap_or (tag_prerelease_suffix cfg) ''beta'',
          r_force_without_changes = unwrap_or (force_without_changes cfg) False,
          r_force_without_changes_pre = unwrap_or (force_without_changes_pre cfg) False,
          r_major_string_token = unwrap_or (major_string_token cfg) ''#major'',
          r_minor_string_token = unwrap_or (minor_string_token cfg) ''#minor'',
          r_patch_string_token = unwrap_or (patch_string_token cfg) ''#patch'',
          r_none_string_token = unwrap_or (none_string_token cfg) ''#none'',
          r_git_api_tagging = unwrap_or (git_api_tagging cfg) False,
          r_skip_ci_on_bump = unwrap_or (skip_ci_on_bump cfg) False,
          r_expand_squash_merges = expand\<rparr>)"

definition resolve_effective_push :: "bool \<Rightarrow> bool \<Rightarrow> bool option \<Rightarrow> bool" where
  "resolve_effective_push no_push push config_push = (if no_push then False else push \<or> config_push = Some True)"

definition resolve_effective_sign :: "bool \<Rightarrow> bool \<Rightarrow> bool option \<Rightarrow> bool" where
  "resolve_effective_sign no_sign sign config_sign = (if no_sign then False else sign \<or> config_sign = Some True)"

subsection \<open>The bump\<close>

datatype bump_kind = BumpMajor | BumpMinor | BumpPatch | BumpNone

text \<open>The readers of the commit log; \<open>path\<close> restricts them to a directory.\<close>

record commit_log =
  last_messages :: "nat \<Rightarrow> string option \<Rightarrow> bool \<Rightarrow> (string, string list) result"
  messages_between :: "string \<Rightarrow> string \<Rightarrow> string option \<Rightarrow> bool \<Rightarrow> (string, string list) result"

definition get_messages_for_bump :: "commit_log \<Rightarrow> resolved_config \<Rightarrow> string option \<Rightarrow> string option \<Rightarrow> (string, string list) result" where
  "get_messages_for_bump clog cfg prev_tag path =
     (let expand = r_expand_squash_merges cfg
      in if r_branch_history cfg = ''last'' then last_messages clog 1 path expand
         else if r_branch_history cfg = ''full'' \<or> r_branch_history cfg = ''compare''
         then (case prev_tag of
                 Some tag \<Rightarrow> messages_between clog tag ''HEAD'' path expand
               | None \<Rightarrow> last_messages clog 500 path expand)
         else Inl (''unknown branch_history mode: '' @ r_branch_history cfg))"

text \<open>\<open>str::split\<close> at every whitespace character.\<close>

fun split_ws :: "string \<Rightarrow> string list" where
  "split_ws [] = [[]]"
| "split_ws (c # cs) =
     (if is_whitespace c then [] # split_ws cs
      else (case split_ws cs of [] \<Rightarrow> [[c]] | p # ps \<Rightarrow> (c # p) # ps))"

definition message_has_token :: "string \<Rightarrow> string \<Rightarrow> bool" where
  "message_has_token msg token = list_ex (\<lambda>w. w = token) (split_ws (first_line msg))"

definition has_explicit_bump_token :: "string list \<Rightarrow> resolved_config \<Rightarrow> bool" where
  "has_explicit_bump_token messages cfg =
     (let has = (\<lambda>token. list_ex (\<lambda>m. message_has_token m token) messages)
      in has (r_major_string_token cfg) \<or> has (r_minor_string_token cfg) \<or> has (r_patch_string_token cfg))"

definition demote_pre_major :: "bump_kind \<Rightarrow> nat \<Rightarrow> bool \<Rightarrow> bool \<Rightarrow> bump_kind" where
  "demote_pre_major bump base_major minor_pre_major patch_for_minor_pre_major =
     (if base_major \<noteq> 0 then bump
      else if bump = BumpMajor \<and> minor_pre_major then BumpMinor
      else if bump = BumpMinor \<and> patch_for_minor_pre_major then BumpPatch
      else bump)"

text \<open>\<open>Iterator::max\<close>.\<close>

definition max_level :: "conventional_level list \<Rightarrow> conventional_level option" where
  "max_level ls = (case ls of [] \<Rightarrow> None | l # r \<Rightarrow> Some (fold max r l))"

fun kind_of_level :: "conventional_level \<Rightarrow> bump_kind" where
  "kind_of_level Major = BumpMajor" | "kind_of_level Minor = BumpMinor" | "kind_of_level Patch = BumpPatch"

definition detect_conventional_bump :: "string list \<Rightarrow> bump_kind option" where
  "detect_conventional_bump messages = map_option kind_of_level (max_level (List.map_filter classify_commit messages))"

text \<open>The scan collects, per token, whether any message has it.\<close>

definition detect_bump_from_tokens ::
    "string list \<Rightarrow> string \<Rightarrow> string \<Rightarrow> string \<Rightarrow> string \<Rightarrow> string \<Rightarrow> bump_kind" where
  "detect_bump_from_tokens messages major_token minor_token patch_token none_token dflt =
     (case fold (\<lambda>msg (has_major, has_minor, has_patch, has_none).
              (has_major \<or> message_has_token msg major_token, has_minor \<or> message_has_token msg minor_token,
               has_patch \<or> message_has_token msg patch_token, has_none \<or> message_has_token msg none_token))
            messages (False, False, False, False) of
        (has_major, has_minor, has_patch, has_none) \<Rightarrow>
          if has_major then BumpMajor
          else if has_minor then BumpMinor
          else if has_patch then BumpPatch
          else if has_none then BumpNone
          else case detect_conventional_bump messages of
                 Some bump \<Rightarrow> bump
               | None \<Rightarrow>
                   if dflt = ''major'' then BumpMajor
                   else if dflt = ''minor'' then BumpMinor
                   else if dflt = ''patch'' then BumpPatch
                   else BumpNone)"

definition detect_bump :: "string list \<Rightarrow> resolved_config \<Rightarrow> bump_kind" where
  "detect_bump messages cfg =
     detect_bump_from_tokens messages (r_major_string_token cfg) (r_minor_string_token cfg) (r_patch_string_token cfg)
       (r_none_string_token cfg) (r_default_bump cfg)"

definition detect_bump_demoted :: "string list \<Rightarrow> resolved_config \<Rightarrow> string option \<Rightarrow> bump_kind" where
  "detect_bump_demoted messages cfg prev_tag =
     (let bump = detect_bump messages cfg
      in if has_explicit_bump_token messages cfg then bump
         else let base_major = (case Option.bind prev_tag (\<lambda>t. ok_opt (parse_semver_tag t)) of Some sv \<Rightarrow> major sv | None \<Rightarrow> 0)
              in demote_pre_major bump base_major (r_bump_minor_pre_major cfg) (r_bump_patch_for_minor_pre_major cfg))"

definition u64_succ :: "nat \<Rightarrow> nat" where
  "u64_succ n = (n + 1) mod 2 ^ 64"

fun apply_bump :: "nat \<Rightarrow> nat \<Rightarrow> nat \<Rightarrow> bump_kind \<Rightarrow> nat \<times> nat \<times> nat" where
  "apply_bump ma mi pa BumpMajor = (u64_succ ma, 0, 0)"
| "apply_bump ma mi pa BumpMinor = (ma, u64_succ mi, 0)"
| "apply_bump ma mi pa BumpPatch = (ma, mi, u64_succ pa)"
| "apply_bump ma mi pa BumpNone = (ma, mi, pa)"

subsection \<open>The plan\<close>

definition triple :: "sem_ver \<Rightarrow> nat \<times> nat \<times> nat" where
  "triple v = (major v, minor v, patch v)"

definition manifest_version_ahead :: "string option \<Rightarrow> (nat \<times> nat \<times> nat) option \<Rightarrow> bool" where
  "manifest_version_ahead candidate baseline =
     (case (Option.bind candidate (\<lambda>v. ok_opt (parse_semver v)), baseline) of
        (Some c, Some b) \<Rightarrow> triple c > b
      | _ \<Rightarrow> False)"

text \<open>\<open>max_by_key\<close> keeps the last of equal keys.\<close>

definition group_manifest_version :: "string option list \<Rightarrow> string option" where
  "group_manifest_version manifests =
     map_option fst
       (fold (\<lambda>(raw, sv) best.
          case best of
            None \<Rightarrow> Some (raw, sv)
          | Some (raw', sv') \<Rightarrow> if triple sv' \<le> triple sv then Some (raw, sv) else Some (raw', sv'))
        (List.map_filter (\<lambda>m. Option.bind m (\<lambda>v. map_option (Pair v) (ok_opt (parse_semver v)))) manifests) None)"

record tag_plan =
  new_tag :: string
  new_version :: string
  old_tag :: string
  crate_versions :: "string \<rightharpoonup> string"

record plan_inputs =
  in_cfg :: resolved_config
  in_prev_tag :: "string option"
  in_bump :: bump_kind
  in_cargo_current_ver :: "string option"
  in_version_override :: "string option"

datatype plan_line = StatusLine string | WarnLine string

text \<open>The components to start from, and the tag they come from.\<close>

definition plan_base :: "resolved_config \<Rightarrow> string option \<Rightarrow> bump_kind \<Rightarrow> (semver_error, (nat \<times> nat \<times> nat) \<times> string) result" where
  "plan_base cfg prev_tag bump =
     (case prev_tag of
        Some prev \<Rightarrow>
          (case parse_semver_tag prev of
             Inl e \<Rightarrow> Inl e
           | Inr base \<Rightarrow> Inr (apply_bump (major base) (minor base) (patch base) bump, prev))
      | None \<Rightarrow>
          (case parse_semver_tag (r_tag_prefix cfg @ r_initial_version cfg) of
             Inr base \<Rightarrow> Inr (triple base, [])
           | Inl _ \<Rightarrow> Inr ((0, 1, 0), [])))"

definition derived_version :: "resolved_config \<Rightarrow> nat \<times> nat \<times> nat \<Rightarrow> string" where
  "derived_version cfg v =
     (case v of (ma, mi, pa) \<Rightarrow>
        show_nat ma @ ''.'' @ show_nat mi @ ''.'' @ show_nat pa
        @ (if r_prerelease cfg then ''-'' @ r_prerelease_suffix cfg else []))"

definition planned_version :: "plan_inputs \<Rightarrow> (semver_error, tag_plan option) result \<times> plan_line list" where
  "planned_version inputs =
     (let cfg = in_cfg inputs; cargo_ver = in_cargo_current_ver inputs;
          cargo_ahead = manifest_version_ahead cargo_ver
            (map_option triple (Option.bind (in_prev_tag inputs) (\<lambda>t. ok_opt (parse_semver_tag t))))
      in if in_bump inputs = BumpNone \<and> \<not> cargo_ahead \<and> in_version_override inputs = None then (Inr None, [])
         else case plan_base cfg (in_prev_tag inputs) (in_bump inputs) of
                Inl e \<Rightarrow> (Inl e, [])
              | Inr (new, old) \<Rightarrow>
                  let derived = derived_version cfg new;
                      ahead = manifest_version_ahead cargo_ver (Some new);
                      version = (case cargo_ver of Some c \<Rightarrow> if ahead then c else derived | None \<Rightarrow> derived);
                      said = (case cargo_ver of
                                Some c \<Rightarrow>
                                  if ahead \<and> in_version_override inputs = None
                                  then [StatusLine (''Cargo.toml version '' @ c @ '' > tag-derived '' @ derived @ '', using Cargo.toml version'')]
                                  else []
                              | None \<Rightarrow> []);
                      chosen = unwrap_or (in_version_override inputs) version;
                      warned = (case in_version_override inputs of
                                  Some pinned \<Rightarrow>
                                    if pinned \<noteq> version
                                    then [WarnLine (''--version '' @ pinned @ '' overrides the derived version '' @ version
                                            @ '' (autotag + Cargo.toml-ahead guard bypassed)'')]
                                    else []
                                | None \<Rightarrow> [])
                  in (Inr (Some \<lparr>new_tag = r_tag_prefix cfg @ chosen, new_version = chosen, old_tag = old, crate_versions = Map.empty\<rparr>),
                      said @ warned))"

subsection \<open>The repository-level plan\<close>

text \<open>\<open>find_previous_tag\<close> of the tag command: the newest tag of the family that the remote still has.\<close>

definition find_previous_tag ::
    "git_env \<Rightarrow> resolved_config \<Rightarrow> git_config option \<Rightarrow> string set option \<Rightarrow> (string, string option) result" where
  "find_previous_tag env cfg gc remote_tags =
     (case (if r_tag_context cfg = ''branch'' then get_branch_semver_tags_in env (r_tag_prefix cfg) gc None
            else get_all_semver_tags_in env (r_tag_prefix cfg) gc None) of
        Inl e \<Rightarrow> Inl e
      | Inr tags \<Rightarrow>
          let kept = (case remote_tags of Some remote \<Rightarrow> filter (\<lambda>t. t \<in> remote) tags | None \<Rightarrow> tags)
          in if effective_tag_sort gc = ''smartsemver'' \<and> \<not> r_prerelease cfg
             then Inr (List.find (\<lambda>t. case parse_semver_tag t of Inr sv \<Rightarrow> \<not> is_prerelease sv | Inl _ \<Rightarrow> False) kept)
             else Inr (case kept of t # _ \<Rightarrow> Some t | [] \<Rightarrow> None))"

datatype plan_error = GitError string | VersionError semver_error

text \<open>
  The last part of \<open>plan_next_version\<close>, for a repository with one version: \<open>has_commits\<close> asks git for
  commits after a tag, \<open>manifest\<close> is the workspace version, \<open>names\<close> are the crates of the universe.
\<close>

definition plan_repo_level ::
    "git_env \<Rightarrow> commit_log \<Rightarrow> (string \<Rightarrow> (string, bool) result) \<Rightarrow> resolved_config \<Rightarrow> git_config option \<Rightarrow> string set option
      \<Rightarrow> string option \<Rightarrow> string list \<Rightarrow> (plan_error, tag_plan option) result" where
  "plan_repo_level env clog has_commits cfg gc remote_tags manifest names =
     (case find_previous_tag env cfg gc remote_tags of
        Inl e \<Rightarrow> Inl (GitError e)
      | Inr prev_tag \<Rightarrow>
          (case (case prev_tag of
                   None \<Rightarrow> Inr True
                 | Some tag \<Rightarrow>
                     (case has_commits tag of
                        Inl e \<Rightarrow> Inl e
                      | Inr True \<Rightarrow> Inr True
                      | Inr False \<Rightarrow> Inr (if r_prerelease cfg then r_force_without_changes_pre cfg else r_force_without_changes cfg))) of
             Inl e \<Rightarrow> Inl (GitError e)
           | Inr False \<Rightarrow> Inr None
           | Inr True \<Rightarrow>
               (case get_messages_for_bump clog cfg prev_tag None of
                  Inl e \<Rightarrow> Inl (GitError e)
                | Inr messages \<Rightarrow>
                    (case fst (planned_version \<lparr>in_cfg = cfg, in_prev_tag = prev_tag,
                             in_bump = detect_bump_demoted messages cfg prev_tag,
                             in_cargo_current_ver = manifest, in_version_override = None\<rparr>) of
                       Inl e \<Rightarrow> Inl (VersionError e)
                     | Inr plan \<Rightarrow>
                         Inr (map_option (\<lambda>p. p\<lparr>crate_versions := (\<lambda>n. if n \<in> set names then Some (new_version p) else None)\<rparr>) plan)))))"

subsection \<open>The inference of the bump command\<close>

datatype bump_level = LMajor | LMinor | LPatch | LExplicit | LRelease | LSkip

fun level_label :: "bump_level \<Rightarrow> string" where
  "level_label LMajor = ''major''" | "level_label LMinor = ''minor''" | "level_label LPatch = ''patch''"
| "level_label LExplicit = ''exact''" | "level_label LRelease = ''release''" | "level_label LSkip = ''skip''"

record level_counts =
  n_major :: nat
  n_minor :: nat
  n_patch :: nat
  n_other :: nat

fun count_message :: "string \<Rightarrow> level_counts \<Rightarrow> level_counts" where
  "count_message msg c =
     (case classify_commit msg of
        Some Major \<Rightarrow> c\<lparr>n_major := n_major c + 1\<rparr>
      | Some Minor \<Rightarrow> c\<lparr>n_minor := n_minor c + 1\<rparr>
      | Some Patch \<Rightarrow> c\<lparr>n_patch := n_patch c + 1\<rparr>
      | None \<Rightarrow> c\<lparr>n_other := n_other c + 1\<rparr>)"

definition classify_levels :: "string list \<Rightarrow> bump_level \<times> level_counts" where
  "classify_levels messages =
     (let counts = fold count_message messages \<lparr>n_major = 0, n_minor = 0, n_patch = 0, n_other = 0\<rparr>
      in (if n_major counts > 0 then LMajor
          else if n_minor counts > 0 then LMinor
          else if n_patch counts > 0 then LPatch
          else LSkip, counts))"

definition format_reason :: "bump_level \<Rightarrow> level_counts \<Rightarrow> string option \<Rightarrow> string" where
  "format_reason level c last_tag =
     (let all = n_major c + n_minor c + n_patch c + n_other c;
          scope = (case last_tag of Some t \<Rightarrow> '' since '' @ t | None \<Rightarrow> [])
      in case level of
           LMajor \<Rightarrow> (if n_major c = 1 then ''1 breaking change'' else show_nat (n_major c) @ '' breaking changes'') @ scope
         | LMinor \<Rightarrow> (if n_minor c = 1 then ''1 feat commit'' else show_nat (n_minor c) @ '' feat commits'') @ scope
         | LPatch \<Rightarrow> show_nat (n_patch c) @ '' '' @ (if n_patch c = 1 then ''fix/perf/revert commit'' else ''fix/perf/revert commits'') @ scope
         | LSkip \<Rightarrow> (if all = 0 then ''no commits'' else count_noun all ''non-bumping message'' ''non-bumping messages'') @ scope
         | _ \<Rightarrow> [])"

text \<open>\<open>infer_for_crate\<close>, once the last tag of the crate's family and the messages since it are read.\<close>

definition infer_for_crate :: "string option \<Rightarrow> string list \<Rightarrow> bump_level \<times> string" where
  "infer_for_crate last_tag messages =
     (if messages = []
      then (LSkip, case last_tag of Some t \<Rightarrow> ''no commits since '' @ t | None \<Rightarrow> ''no commits touching this crate'')
      else case classify_levels messages of (level, counts) \<Rightarrow> (level, format_reason level counts last_tag))"

text \<open>\<open>new_pre\<close> is \<open>Prerelease::new\<close> of the semver library; an identifier it refuses gives no prerelease.\<close>

definition with_pre :: "(string \<Rightarrow> string option) \<Rightarrow> sem_ver \<Rightarrow> string option \<Rightarrow> sem_ver" where
  "with_pre new_pre v pre = (case pre of Some ident \<Rightarrow> v\<lparr>prerelease := new_pre ident\<rparr> | None \<Rightarrow> v)"

definition apply_level :: "(string \<Rightarrow> string option) \<Rightarrow> sem_ver \<Rightarrow> bump_level \<Rightarrow> string option \<Rightarrow> sem_ver" where
  "apply_level new_pre cur level pre =
     (let next = cur\<lparr>prerelease := None, build_metadata := None\<rparr>
      in with_pre new_pre
           (case level of
              LMajor \<Rightarrow> next\<lparr>major := u64_succ (major next), minor := 0, patch := 0\<rparr>
            | LMinor \<Rightarrow> next\<lparr>minor := u64_succ (minor next), patch := 0\<rparr>
            | LPatch \<Rightarrow> next\<lparr>patch := u64_succ (patch next)\<rparr>
            | _ \<Rightarrow> next) pre)"

section \<open>Properties\<close>

subsection \<open>The planned version\<close>

text \<open>The increments of a version do not wrap.\<close>

definition has_room :: "sem_ver \<Rightarrow> bool" where
  "has_room v \<longleftrightarrow> major v + 1 < 2 ^ 64 \<and> minor v + 1 < 2 ^ 64 \<and> patch v + 1 < 2 ^ 64"

text \<open>The suffix of a prerelease run can be read back from the tag.\<close>

definition suffix_ok :: "resolved_config \<Rightarrow> bool" where
  "suffix_ok cfg \<longleftrightarrow> (r_prerelease cfg \<longrightarrow> r_prerelease_suffix cfg \<noteq> [] \<and> CHR ''+'' \<notin> set (r_prerelease_suffix cfg))"

lemma u64_succ_room: "n + 1 < 2 ^ 64 \<Longrightarrow> u64_succ n = Suc n"
  by (simp add: u64_succ_def)

lemma apply_bump_grows:
  "has_room v \<Longrightarrow> bump \<noteq> BumpNone \<Longrightarrow> triple v < apply_bump (major v) (minor v) (patch v) bump"
  by (cases bump) (auto simp: has_room_def triple_def u64_succ_room)

lemma apply_bump_bound:
  "has_room v \<Longrightarrow> apply_bump (major v) (minor v) (patch v) bump = (ma, mi, pa) \<Longrightarrow> ma < 2 ^ 64 \<and> mi < 2 ^ 64 \<and> pa < 2 ^ 64"
  by (cases bump) (auto simp: has_room_def u64_succ_def)

definition derived_semver :: "resolved_config \<Rightarrow> nat \<times> nat \<times> nat \<Rightarrow> sem_ver" where
  "derived_semver cfg v = (case v of (ma, mi, pa) \<Rightarrow>
     \<lparr>major = ma, minor = mi, patch = pa, prerelease = (if r_prerelease cfg then Some (r_prerelease_suffix cfg) else None),
      build_metadata = None\<rparr>)"

lemma derived_version_string: "derived_version cfg v = version_string (derived_semver cfg v)"
  by (cases v) (simp add: derived_version_def derived_semver_def version_string_def raw_version_string_def)

lemma parse_derived_version:
  assumes "suffix_ok cfg" "v = (ma, mi, pa)" "ma < 2 ^ 64" "mi < 2 ^ 64" "pa < 2 ^ 64"
  shows "parse_semver (derived_version cfg v) = Inr (derived_semver cfg v)" "triple (derived_semver cfg v) = v"
proof -
  have "semver_wf (derived_semver cfg v)" using assms by (simp add: semver_wf_def derived_semver_def suffix_ok_def)
  then show "parse_semver (derived_version cfg v) = Inr (derived_semver cfg v)"
    by (simp add: derived_version_string parse_semver_print)
  show "triple (derived_semver cfg v) = v" using assms(2) by (simp add: derived_semver_def triple_def)
qed

text \<open>The version between the tag-derived one and the manifest's.\<close>

lemma choose_version:
  assumes "parse_semver derived = Inr d" "triple d = new"
  obtains v where "parse_semver (case cargo_ver of Some c \<Rightarrow> if manifest_version_ahead cargo_ver (Some new) then c else derived | None \<Rightarrow> derived) = Inr v"
    "new \<le> triple v" "\<And>s c. cargo_ver = Some s \<Longrightarrow> parse_semver s = Inr c \<Longrightarrow> triple c \<le> triple v"
    "manifest_version_ahead cargo_ver (Some new) \<Longrightarrow> new < triple v"
proof (cases "manifest_version_ahead cargo_ver (Some new)")
  case True
  then obtain s c where c: "cargo_ver = Some s" "parse_semver s = Inr c" "new < triple c"
    by (auto simp: manifest_version_ahead_def split: option.splits bind_splits)
  show ?thesis by (rule that [of c]) (use c True in auto)
next
  case False
  then have "triple c \<le> new" if "cargo_ver = Some s" "parse_semver s = Inr c" for s c
    using that by (auto simp: manifest_version_ahead_def ok_opt_def not_less)
  then show ?thesis by (intro that [of d]) (use False assms in \<open>auto split: option.splits\<close>)
qed

lemma planned_version_cases:
  assumes "in_prev_tag inputs = Some prev" "parse_semver_tag prev = Inr p" "in_version_override inputs = None"
  defines "ahead \<equiv> manifest_version_ahead (in_cargo_current_ver inputs) (Some (triple p))"
    and "new \<equiv> apply_bump (major p) (minor p) (patch p) (in_bump inputs)"
  shows "fst (planned_version inputs) =
     (if in_bump inputs = BumpNone \<and> \<not> ahead then Inr None
      else let v = (case in_cargo_current_ver inputs of
                      Some c \<Rightarrow> if manifest_version_ahead (in_cargo_current_ver inputs) (Some new) then c else derived_version (in_cfg inputs) new
                    | None \<Rightarrow> derived_version (in_cfg inputs) new)
           in Inr (Some \<lparr>new_tag = r_tag_prefix (in_cfg inputs) @ v, new_version = v, old_tag = prev, crate_versions = Map.empty\<rparr>))"
  unfolding new_def ahead_def using assms(1-3) by (simp add: planned_version_def plan_base_def Let_def unwrap_or_def ok_opt_def)

text \<open>
  With a previous tag and no pinned version, there is a plan exactly when the commits ask for a bump or the manifest
  is ahead of the tag, and the planned version is above the tag and not below the manifest.
\<close>

lemma planned_version_grows:
  assumes "in_prev_tag inputs = Some prev" and "parse_semver_tag prev = Inr p" and "in_version_override inputs = None"
    and "has_room p" and "suffix_ok (in_cfg inputs)"
  shows "case fst (planned_version inputs) of
       Inl _ \<Rightarrow> False
     | Inr None \<Rightarrow> in_bump inputs = BumpNone \<and> \<not> manifest_version_ahead (in_cargo_current_ver inputs) (Some (triple p))
     | Inr (Some plan) \<Rightarrow>
         (in_bump inputs \<noteq> BumpNone \<or> manifest_version_ahead (in_cargo_current_ver inputs) (Some (triple p)))
         \<and> new_tag plan = r_tag_prefix (in_cfg inputs) @ new_version plan \<and> old_tag plan = prev
         \<and> (\<exists>v. parse_semver (new_version plan) = Inr v \<and> triple p < triple v
              \<and> (\<forall>s c. in_cargo_current_ver inputs = Some s \<longrightarrow> parse_semver s = Inr c \<longrightarrow> triple c \<le> triple v))"
proof -
  let ?new = "apply_bump (major p) (minor p) (patch p) (in_bump inputs)"
  let ?ahead = "manifest_version_ahead (in_cargo_current_ver inputs)"
  obtain ma mi pa where new: "?new = (ma, mi, pa)" by (metis prod_cases3)
  note d = parse_derived_version [OF assms(5) new apply_bump_bound [OF assms(4) new, THEN conjunct1]
      apply_bump_bound [OF assms(4) new, THEN conjunct2, THEN conjunct1] apply_bump_bound [OF assms(4) new, THEN conjunct2, THEN conjunct2]]
  obtain v where v: "parse_semver (case in_cargo_current_ver inputs of Some c \<Rightarrow> if ?ahead (Some ?new) then c else derived_version (in_cfg inputs) ?new | None \<Rightarrow> derived_version (in_cfg inputs) ?new) = Inr v"
    "?new \<le> triple v" "\<And>s c. in_cargo_current_ver inputs = Some s \<Longrightarrow> parse_semver s = Inr c \<Longrightarrow> triple c \<le> triple v"
    "?ahead (Some ?new) \<Longrightarrow> ?new < triple v"
    using choose_version [OF d] by blast
  have grows: "triple p < triple v" if "in_bump inputs \<noteq> BumpNone \<or> ?ahead (Some (triple p))"
  proof (cases "in_bump inputs = BumpNone")
    case True
    then have "?new = triple p" by (simp add: triple_def)
    with True that v(4) show ?thesis by simp
  next
    case False
    with apply_bump_grows [OF assms(4)] v(2) show ?thesis by (meson less_le_trans)
  qed
  show ?thesis
    using planned_version_cases [OF assms(1-3)] v(1,3) grows by (auto simp: Let_def)
qed

subsection \<open>Above every tag\<close>

definition listed_tags :: "git_env \<Rightarrow> resolved_config \<Rightarrow> git_config option \<Rightarrow> (string, string list) result" where
  "listed_tags env cfg gc =
     (if r_tag_context cfg = ''branch'' then get_branch_semver_tags_in env (r_tag_prefix cfg) gc None
      else get_all_semver_tags_in env (r_tag_prefix cfg) gc None)"

text \<open>The tags a plan has to respect: on the remote, and stable when only stable ones count.\<close>

definition counts :: "resolved_config \<Rightarrow> git_config option \<Rightarrow> string set option \<Rightarrow> string \<Rightarrow> sem_ver \<Rightarrow> bool" where
  "counts cfg gc remote t w \<longleftrightarrow>
     parse_semver_tag t = Inr w \<and> (case remote of Some r \<Rightarrow> t \<in> r | None \<Rightarrow> True)
     \<and> (effective_tag_sort gc = ''smartsemver'' \<and> \<not> r_prerelease cfg \<longrightarrow> \<not> is_prerelease w)"

lemma semver_cmp_triple: "semver_cmp w v \<noteq> Greater \<Longrightarrow> triple w \<le> triple v"
  by (auto simp: semver_cmp_def triple_def cmp_of_def split: if_splits)

definition newest_first :: "string \<Rightarrow> string \<Rightarrow> bool" where
  "newest_first t u \<longleftrightarrow> (\<forall>v w. parse_semver_tag t = Inr v \<longrightarrow> parse_semver_tag u = Inr w \<longrightarrow> triple w \<le> triple v)"

lemma listed_tags_sorted:
  assumes "listed_tags env cfg gc = Inr tags"
  shows "sorted_wrt newest_first tags" "\<forall>t \<in> set tags. \<exists>v. parse_semver_tag t = Inr v"
proof -
  obtain P where P: "tags = map snd (sort_by by_version_desc P)" "\<forall>(v, t) \<in> set P. parse_semver_tag t = Inr v"
  proof -
    have "\<exists>P. tags = map snd (sort_by by_version_desc P) \<and> (\<forall>(v, t) \<in> set P. parse_semver_tag t = Inr v)"
      if "collect_semver_tags_in env args pfx gc None = Inr tags" for args pfx
      using that by (auto simp: collect_semver_tags_in_def set_map_filter_iff case_prod_beta
          intro: exI [of _ "[]"] split: sum.splits if_splits)
    then show ?thesis using assms that
      unfolding listed_tags_def get_all_semver_tags_in_def get_branch_semver_tags_in_def by (metis (no_types, lifting))
  qed
  show "\<forall>t \<in> set tags. \<exists>v. parse_semver_tag t = Inr v" using P by auto
  have "sorted_wrt (\<lambda>a b. by_version_desc a b \<noteq> Greater) (sort_by by_version_desc P)"
    by (rule version_order_desc.sorted_sort_by)
  then have "sorted_wrt (\<lambda>a b. newest_first (snd a) (snd b)) (sort_by by_version_desc P)"
  proof (rule sorted_wrt_mono_rel [rotated])
    fix x y
    assume "x \<in> set (sort_by by_version_desc P)" "y \<in> set (sort_by by_version_desc P)" "by_version_desc x y \<noteq> Greater"
    moreover from this P(2) have "parse_semver_tag (snd x) = Inr (fst x)" "parse_semver_tag (snd y) = Inr (fst y)" by auto
    ultimately show "newest_first (snd x) (snd y)"
      by (auto simp: newest_first_def by_version_desc_def dest: semver_cmp_triple)
  qed
  then show "sorted_wrt newest_first tags" unfolding P(1) by (simp add: sorted_wrt_map)
qed

lemma previous_tag_newest:
  assumes "listed_tags env cfg gc = Inr tags" "find_previous_tag env cfg gc remote = Inr prev"
  shows "case prev of
       None \<Rightarrow> \<forall>t \<in> set tags. \<forall>w. \<not> counts cfg gc remote t w
     | Some p \<Rightarrow> p \<in> set tags \<and> (\<forall>t \<in> set tags. \<forall>v w. parse_semver_tag p = Inr v \<longrightarrow> counts cfg gc remote t w \<longrightarrow> triple w \<le> triple v)"
proof -
  note sorted = listed_tags_sorted [OF assms(1)]
  define kept where "kept = (case remote of Some r \<Rightarrow> filter (\<lambda>t. t \<in> r) tags | None \<Rightarrow> tags)"
  define ok where "ok t \<longleftrightarrow> (effective_tag_sort gc = ''smartsemver'' \<and> \<not> r_prerelease cfg \<longrightarrow>
      (case parse_semver_tag t of Inr sv \<Rightarrow> \<not> is_prerelease sv | Inl _ \<Rightarrow> False))" for t
  have prev: "prev = List.find ok kept"
    using assms by (auto simp: find_previous_tag_def listed_tags_def kept_def ok_def [abs_def] Let_def
        split: if_splits sum.splits list.split)
  have kept: "sorted_wrt newest_first kept" "set kept \<subseteq> set tags"
    using sorted(1) by (auto simp: kept_def sorted_wrt_filter split: option.split)
  have mem: "t \<in> set kept \<and> ok t" if "t \<in> set tags" "counts cfg gc remote t w" for t w
    using that by (auto simp: counts_def kept_def ok_def split: option.splits)
  show ?thesis
  proof (cases prev)
    case None
    then have "List.find ok kept = None" using prev by simp
    with mem have "\<forall>t \<in> set tags. \<forall>w. \<not> counts cfg gc remote t w" unfolding find_None_iff by blast
    with None show ?thesis by simp
  next
    case (Some p)
    then obtain i where i: "i < length kept" "ok (kept ! i)" "p = kept ! i" "\<forall>j < i. \<not> ok (kept ! j)"
      unfolding prev by (auto simp: find_Some_iff)
    have "triple w \<le> triple v" if t: "t \<in> set tags" "parse_semver_tag p = Inr v" "counts cfg gc remote t w" for t v w
    proof -
      obtain j where j: "j < length kept" "t = kept ! j" using mem [OF t(1,3)] by (metis in_set_conv_nth)
      have "\<not> j < i" using mem [OF t(1,3)] j i(4) by blast
      then have "i = j \<or> i < j" by auto
      then have "i = j \<or> newest_first p t" using kept(1) i(3) j unfolding sorted_wrt_iff_nth_less by blast
      then show ?thesis using t(2,3) i(3) j(2) by (auto simp: newest_first_def counts_def)
    qed
    with i(1,3) kept(2) Some show ?thesis by auto
  qed
qed

lemma first_base_bound:
  "\<exists>new. plan_base cfg None bump = Inr (new, []) \<and> fst new < 2 ^ 64 \<and> fst (snd new) < 2 ^ 64 \<and> snd (snd new) < 2 ^ 64"
proof (cases "parse_semver_tag (r_tag_prefix cfg @ r_initial_version cfg)")
  case (Inr base)
  from located_version_wf [OF this] Inr show ?thesis by (auto simp: plan_base_def triple_def semver_wf_def)
qed (simp add: plan_base_def)

text \<open>
  C21. Autotag goes above every tag: a planned version of the repository is a version above every listed tag of its family that the
  remote still has (above every stable one where prereleases are skipped), and is not below the manifest. No listed version
  is at the end of the 64-bit range, where the code's increment would overflow, and a configured prerelease
  suffix is not empty and has no plus sign.
\<close>
theorem autotag_above_every_tag:
  assumes "listed_tags env cfg gc = Inr tags" and "suffix_ok cfg"
    and "\<forall>t \<in> set tags. \<forall>w. parse_semver_tag t = Inr w \<longrightarrow> has_room w"
    and "plan_repo_level env clog has_commits cfg gc remote manifest names = Inr (Some plan)"
  shows "\<exists>v. parse_semver (new_version plan) = Inr v
     \<and> (\<forall>t \<in> set tags. \<forall>w. counts cfg gc remote t w \<longrightarrow> triple w < triple v)
     \<and> (\<forall>s c. manifest = Some s \<longrightarrow> parse_semver s = Inr c \<longrightarrow> triple c \<le> triple v)"
proof -
  obtain prev messages plan' where prev: "find_previous_tag env cfg gc remote = Inr prev"
    and plan': "fst (planned_version \<lparr>in_cfg = cfg, in_prev_tag = prev, in_bump = detect_bump_demoted messages cfg prev,
        in_cargo_current_ver = manifest, in_version_override = None\<rparr>) = Inr (Some plan')" "new_version plan = new_version plan'"
    using assms(4) by (auto simp: plan_repo_level_def split: sum.splits bool.splits)
  note newest = previous_tag_newest [OF assms(1) prev]
  show ?thesis
  proof (cases prev)
    case (Some p)
    with newest have p: "p \<in> set tags" by simp
    then obtain pv where pv: "parse_semver_tag p = Inr pv" using listed_tags_sorted(2) [OF assms(1)] by blast
    have room: "has_room pv" using assms(3) p pv by blast
    have "\<exists>v. parse_semver (new_version plan') = Inr v \<and> triple pv < triple v
        \<and> (\<forall>s c. manifest = Some s \<longrightarrow> parse_semver s = Inr c \<longrightarrow> triple c \<le> triple v)"
      using planned_version_grows [of "\<lparr>in_cfg = cfg, in_prev_tag = prev, in_bump = detect_bump_demoted messages cfg prev,
        in_cargo_current_ver = manifest, in_version_override = None\<rparr>" p pv] plan'(1) Some pv room assms(2) by auto
    with newest Some pv plan'(2) show ?thesis by fastforce
  next
    case None
    then have none: "\<forall>t \<in> set tags. \<forall>w. \<not> counts cfg gc remote t w" using newest by simp
    obtain new where new: "plan_base cfg None (detect_bump_demoted messages cfg prev) = Inr (new, [])"
      "fst new < 2 ^ 64" "fst (snd new) < 2 ^ 64" "snd (snd new) < 2 ^ 64"
      using first_base_bound by blast
    note d = parse_derived_version [OF assms(2) _ new(2-4), of new, simplified]
    have "\<exists>v. parse_semver (new_version plan') = Inr v
        \<and> (\<forall>s c. manifest = Some s \<longrightarrow> parse_semver s = Inr c \<longrightarrow> triple c \<le> triple v)"
    proof (rule choose_version [OF d, of manifest])
      fix v
      let ?v = "case manifest of Some c \<Rightarrow> if manifest_version_ahead manifest (Some new) then c else derived_version cfg new
          | None \<Rightarrow> derived_version cfg new"
      assume v: "parse_semver ?v = Inr v" "\<And>s c. manifest = Some s \<Longrightarrow> parse_semver s = Inr c \<Longrightarrow> triple c \<le> triple v"
      have "new_version plan' = ?v"
        using plan'(1) new(1) None by (auto simp: planned_version_def Let_def unwrap_or_def split: if_splits)
      with v show ?thesis by auto
    qed
    with none plan'(2) show ?thesis by auto
  qed
qed

definition demo_log :: "string list \<Rightarrow> commit_log" where
  "demo_log msgs = \<lparr>last_messages = (\<lambda>_ _ _. Inr msgs), messages_between = (\<lambda>_ _ _ _. Inr msgs)\<rparr>"

lemma demo_listed: "listed_tags (demo_env [''v1.2.3'']) (from_config None False None None) None = Inr [''v1.2.3'']"
proof -
  have l: "lines_str ''v1.2.3'' = [''v1.2.3'']" by (simp add: lines_str_def)
  have n: "\<not> is_nightly_tag ''v1.2.3''" by (simp add: is_nightly_tag_def nightly_scan.simps)
  have p: "parse_semver_tag ''v1.2.3'' = Inr \<lparr>major = 1, minor = 2, patch = 3, prerelease = None, build_metadata = None\<rparr>"
    by (simp add: semver_eval)
  show ?thesis
    by (simp add: listed_tags_def from_config_def unwrap_or_def empty_tag_config_def repo_tag_prefix_def get_all_semver_tags_in_def
        collect_semver_tags_in_def demo_env_def render_ignore_patterns_def l n p starts_with_def tag_ignored_def compile_globs_def
        List.map_filter_def ok_opt_def Let_def)
qed

lemma demo_plan:
  "\<exists>plan. plan_repo_level (demo_env [''v1.2.3'']) (demo_log [''feat: x'']) (\<lambda>_. Inr True) (from_config None False None None) None None None [] = Inr (Some plan)
     \<and> new_version plan = ''1.3.0''"
proof -
  have p: "parse_semver_tag ''v1.2.3'' = Inr \<lparr>major = 1, minor = 2, patch = 3, prerelease = None, build_metadata = None\<rparr>"
    by (simp add: semver_eval)
  have prev: "find_previous_tag (demo_env [''v1.2.3'']) (from_config None False None None) None None = Inr (Some ''v1.2.3'')"
    using demo_listed by (simp add: find_previous_tag_def listed_tags_def effective_tag_sort_def Let_def split: if_splits)
  have c: "classify_commit ''feat: x'' = Some Minor"
    by (simp add: classify_commit_def contains_def sublist_Cons_right first_line_def lines_str_def split_once_def trim_def starts_with_def ends_with_def suffix_def)
  have t: "split_ws (first_line ''feat: x'') = [''feat:'', ''x'']" by (simp add: first_line_def lines_str_def)
  have bump: "detect_bump_demoted [''feat: x''] (from_config None False None None) (Some ''v1.2.3'') = BumpMinor"
    by (simp add: detect_bump_demoted_def detect_bump_def detect_bump_from_tokens_def detect_conventional_bump_def max_level_def
        message_has_token_def has_explicit_bump_token_def t c p List.map_filter_def demote_pre_major_def from_config_def unwrap_or_def
        empty_tag_config_def ok_opt_def Let_def)
  have msgs: "get_messages_for_bump (demo_log [''feat: x'']) (from_config None False None None) (Some ''v1.2.3'') None = Inr [''feat: x'']"
    by (simp add: get_messages_for_bump_def demo_log_def from_config_def unwrap_or_def empty_tag_config_def Let_def)
  have "\<not> r_prerelease (from_config None False None None)"
    by (simp add: from_config_def unwrap_or_def empty_tag_config_def Let_def)
  then show ?thesis
    by (simp add: plan_repo_level_def prev msgs bump planned_version_def plan_base_def p manifest_version_ahead_def u64_succ_def
        derived_version_def unwrap_or_def Let_def show_nat_eval)
qed

theorem autotag_above_every_tag_witness:
  "\<exists>v. parse_semver ''1.3.0'' = Inr v \<and> (1, 2, 3) < triple v"
proof -
  let ?cfg = "from_config None False None None"
  have p: "parse_semver_tag ''v1.2.3'' = Inr \<lparr>major = 1, minor = 2, patch = 3, prerelease = None, build_metadata = None\<rparr>"
    by (simp add: semver_eval)
  obtain plan where plan: "plan_repo_level (demo_env [''v1.2.3'']) (demo_log [''feat: x'']) (\<lambda>_. Inr True) ?cfg None None None [] = Inr (Some plan)"
    "new_version plan = ''1.3.0''" using demo_plan by blast
  have "suffix_ok ?cfg" by (simp add: suffix_ok_def from_config_def unwrap_or_def empty_tag_config_def Let_def)
  moreover have "\<forall>t \<in> set [''v1.2.3'']. \<forall>w. parse_semver_tag t = Inr w \<longrightarrow> has_room w" by (simp add: p has_room_def)
  moreover have "counts ?cfg None None ''v1.2.3'' \<lparr>major = 1, minor = 2, patch = 3, prerelease = None, build_metadata = None\<rparr>"
    by (simp add: counts_def p is_prerelease_def)
  ultimately show ?thesis
    using autotag_above_every_tag [OF demo_listed _ _ plan(1)] plan(2) by (fastforce simp: triple_def)
qed

subsection \<open>One classifier for both commands\<close>

lemma max_level_Max: "max_level ls = (if ls = [] then None else Some (Max (set ls)))"
  by (cases ls) (simp_all add: max_level_def Max.set_eq_fold del: list.set)

lemma Max_level_cases:
  "ls \<noteq> [] \<Longrightarrow> Max (set ls) = (if Major \<in> set ls then Major else if Minor \<in> set ls then Minor else Patch)"
proof (rule Max_eqI)
  fix l
  assume "l \<in> set ls"
  then show "l \<le> (if Major \<in> set ls then Major else if Minor \<in> set ls then Minor else Patch)"
    by - (rule conventional_level.exhaust [of l], auto simp: less_eq_conventional_level_def)
next
  assume "ls \<noteq> []"
  then obtain l where "l \<in> set ls" by (cases ls) auto
  then show "(if Major \<in> set ls then Major else if Minor \<in> set ls then Minor else Patch) \<in> set ls"
    by - (rule conventional_level.exhaust [of l], auto)
qed simp

lemma counts_positive:
  "n_major (fold count_message messages c) > 0 \<longleftrightarrow> n_major c > 0 \<or> Major \<in> set (List.map_filter classify_commit messages)"
  "n_minor (fold count_message messages c) > 0 \<longleftrightarrow> n_minor c > 0 \<or> Minor \<in> set (List.map_filter classify_commit messages)"
  "n_patch (fold count_message messages c) > 0 \<longleftrightarrow> n_patch c > 0 \<or> Patch \<in> set (List.map_filter classify_commit messages)"
  by (induction messages arbitrary: c)
    (auto simp: List.map_filter_def split: option.splits conventional_level.splits)

fun kind_of_bump_level :: "bump_level \<Rightarrow> bump_kind" where
  "kind_of_bump_level LMajor = BumpMajor" | "kind_of_bump_level LMinor = BumpMinor" | "kind_of_bump_level LPatch = BumpPatch"
| "kind_of_bump_level _ = BumpNone"

text \<open>
  \<open>bump\<close> and \<open>tag\<close> read commits alike: the level \<open>bump\<close> infers from the counted messages is the one \<open>tag\<close> takes
  as the maximum of their classifications, and applying either to a version gives the same components.
\<close>
theorem bump_and_tag_infer_alike:
  "unwrap_or (detect_conventional_bump messages) BumpNone = kind_of_bump_level (fst (classify_levels messages))
   \<and> (detect_conventional_bump messages = None) = (fst (classify_levels messages) = LSkip)
   \<and> triple (apply_level new_pre cur (fst (classify_levels messages)) pre)
       = apply_bump (major cur) (minor cur) (patch cur) (unwrap_or (detect_conventional_bump messages) BumpNone)"
proof -
  let ?ls = "List.map_filter classify_commit messages"
  have level: "fst (classify_levels messages) =
      (if Major \<in> set ?ls then LMajor else if Minor \<in> set ?ls then LMinor else if Patch \<in> set ?ls then LPatch else LSkip)"
    by (simp add: classify_levels_def counts_positive Let_def del: fold_simps)
  have conv: "detect_conventional_bump messages =
      (if Major \<in> set ?ls then Some BumpMajor else if Minor \<in> set ?ls then Some BumpMinor
       else if Patch \<in> set ?ls then Some BumpPatch else None)"
  proof (cases "?ls = []")
    case False
    then have "Patch \<in> set ?ls" if "Major \<notin> set ?ls" "Minor \<notin> set ?ls"
      using that by (metis conventional_level.exhaust last_in_set)
    with False show ?thesis by (auto simp: detect_conventional_bump_def max_level_Max Max_level_cases)
  qed (simp add: detect_conventional_bump_def max_level_Max)
  show ?thesis unfolding conv level
    by (auto simp: unwrap_or_def apply_level_def with_pre_def triple_def Let_def split: option.split)
qed

text \<open>Below 1.0 the two commands part: only \<open>tag\<close> applies the configured demotion.\<close>

lemma preview_misses_demotion:
  assumes "parse_semver_tag prev = Inr p" "major p = 0" "r_bump_minor_pre_major cfg"
    "\<not> has_explicit_bump_token messages cfg" "detect_bump messages cfg = BumpMajor"
  shows "detect_bump_demoted messages cfg (Some prev) = BumpMinor"
  using assms by (simp add: detect_bump_demoted_def demote_pre_major_def ok_opt_def)

end
