(* ===== verification/VersionFiles.thy ===== *)
theory VersionFiles
  imports Prelude "HOL-Library.Monad_Syntax" "HOL-Library.Product_Lexorder"
begin

section \<open>Version strings in committed files\<close>

text \<open>
  Models the engine that rewrites enrolled files when a version is bumped (\<open>core/src/version_files.rs\<close>) and the guard that
  refuses enrollments that would corrupt each other (\<open>cli/src/commands/tag/version_plan.rs\<close>). Texts are ASCII, so a byte
  offset is a position. The matcher \<open>\bv?<version>\b\<close> is modelled exactly. A user's \<open>match\<close> anchor is a regular expression of
  the regex library: \<open>regex_find\<close> compiles a pattern to the function that lists the regions it selects, \<open>escape\<close> is
  \<open>regex::escape\<close>. Slicing from a position past another panics; that is the value \<open>None\<close>.

  Main results: rewriting never panics and changes nothing but occurrences, each at most once; a failed or dry run leaves
  every file as it was; the guard accepts exactly the plans without a hazardous pair.
\<close>

record file_rewrite =
  fr_path :: string
  fr_anchor :: "string option"
  fr_old :: string
  fr_new :: string
  fr_owner :: string

record rewrite_outcome =
  ro_path :: string
  ro_anchor :: "string option"
  ro_replacements :: nat
  ro_matched_regions :: "nat option"

subsection \<open>Occurrences\<close>

definition is_word :: "char \<Rightarrow> bool" where
  "is_word c \<longleftrightarrow> is_ascii_alphanumeric c \<or> c = CHR ''_''"

definition word_at :: "string \<Rightarrow> nat \<Rightarrow> bool" where
  "word_at s i \<longleftrightarrow> i < length s \<and> is_word (s ! i)"

definition word_boundary :: "string \<Rightarrow> nat \<Rightarrow> bool" where
  "word_boundary s i \<longleftrightarrow> (0 < i \<and> word_at s (i - 1)) \<noteq> word_at s i"

text \<open>\<open>\bv?<version>\b\<close> at a position: with the \<open>v\<close> first, then without.\<close>

definition occurrence_at :: "string \<Rightarrow> string \<Rightarrow> nat \<Rightarrow> nat option" where
  "occurrence_at version s i =
     (if \<not> word_boundary s i then None
      else if prefix (CHR ''v'' # version) (drop i s) \<and> word_boundary s (i + 1 + length version) then Some (i + 1 + length version)
      else if prefix version (drop i s) \<and> word_boundary s (i + length version) then Some (i + length version)
      else None)"

text \<open>\<open>Regex::find_at\<close>: the leftmost match that starts at or after a position.\<close>

definition find_at :: "string \<Rightarrow> string \<Rightarrow> nat \<Rightarrow> (nat \<times> nat) option" where
  "find_at version s pos =
     (case List.find (\<lambda>i. occurrence_at version s i \<noteq> None) [pos..<length s + 1] of
        None \<Rightarrow> None
      | Some i \<Rightarrow> map_option (Pair i) (occurrence_at version s i))"

definition contains_version :: "string \<Rightarrow> string \<Rightarrow> bool" where
  "contains_version content version = (find_at version content 0 \<noteq> None)"

lemma prefix_drop_len: "prefix p (drop i s) \<Longrightarrow> i \<le> length s \<Longrightarrow> take (length p) (drop i s) = p \<and> i + length p \<le> length s"
  by (auto simp: prefix_def) (metis append_take_drop_id length_append length_take min.absorb2 nat_le_iff_add add.assoc)

lemma occurrence_at_Some:
  assumes "occurrence_at version s i = Some e" "i \<le> length s"
  shows "i \<le> e \<and> e \<le> length s \<and> word_boundary s i \<and> word_boundary s e
    \<and> (take (e - i) (drop i s) = version \<or> take (e - i) (drop i s) = CHR ''v'' # version)"
proof -
  consider (v) "prefix (CHR ''v'' # version) (drop i s)" "e = i + 1 + length version" "word_boundary s e" "word_boundary s i"
    | (bare) "prefix version (drop i s)" "e = i + length version" "word_boundary s e" "word_boundary s i"
    using assms by (auto simp: occurrence_at_def split: if_splits)
  then show ?thesis
  proof cases
    case v
    with prefix_drop_len [OF v(1) assms(2)] show ?thesis by (simp del: take_Suc_Cons)
  next
    case bare
    with prefix_drop_len [OF bare(1) assms(2)] show ?thesis by simp
  qed
qed

lemma find_at_Some:
  assumes "find_at version s pos = Some (i, e)"
  shows "pos \<le> i" "i \<le> length s" "occurrence_at version s i = Some e" "\<And>j. pos \<le> j \<Longrightarrow> j < i \<Longrightarrow> occurrence_at version s j = None"
proof -
  from assms obtain k where k: "k < length [pos..<length s + 1]" "[pos..<length s + 1] ! k = i" "occurrence_at version s i = Some e"
    "\<forall>j < k. occurrence_at version s ([pos..<length s + 1] ! j) = None"
    by (auto simp: find_at_def find_Some_iff split: option.splits)
  then have i: "i = pos + k" "pos + k \<le> length s" by (auto simp del: upt_Suc)
  then show "pos \<le> i" "i \<le> length s" by auto
  show "occurrence_at version s i = Some e" by (rule k(3))
  fix j
  assume j: "pos \<le> j" "j < i"
  then have "j - pos < k" "[pos..<length s + 1] ! (j - pos) = j" using i by (auto simp del: upt_Suc)
  with k(4) show "occurrence_at version s j = None" by force
qed

function occurrences_from :: "string \<Rightarrow> string \<Rightarrow> nat \<Rightarrow> nat \<Rightarrow> (nat \<times> nat) list" where
  "occurrences_from version s stop pos =
     (case find_at version s pos of
        None \<Rightarrow> []
      | Some (i, e) \<Rightarrow> if e > stop \<or> e = pos then [] else (i, e) # occurrences_from version s stop e)"
  by auto

termination occurrences_from
proof (relation "measure (\<lambda>(_, _, stop, pos). stop - pos)", simp)
  fix version s stop pos x i e
  assume "find_at version s pos = Some x" "(i, e) = x" "\<not> (e > stop \<or> e = pos)"
  moreover from this have "pos \<le> e" using find_at_Some [of version s pos i e] occurrence_at_Some [of version s i e] by auto
  ultimately show "((version, s, stop, e), (version, s, stop, pos)) \<in> measure (\<lambda>(_, _, stop, pos). stop - pos)" by auto
qed

declare occurrences_from.simps [simp del]

definition occurrences_in :: "string \<Rightarrow> nat \<times> nat \<Rightarrow> string \<Rightarrow> (nat \<times> nat) list" where
  "occurrences_in s region version = occurrences_from version s (snd region) (fst region)"

subsection \<open>Claims and edits\<close>

record edit =
  e_start :: nat
  e_end :: nat
  e_text :: string

fun claim_step :: "string \<Rightarrow> string \<Rightarrow> nat \<times> nat \<Rightarrow> (nat \<times> nat) list \<times> edit list \<times> nat \<Rightarrow> (nat \<times> nat) list \<times> edit list \<times> nat" where
  "claim_step s new (b, e) (claimed, edits, n) =
     (if list_ex (\<lambda>(cs, ce). b < ce \<and> cs < e) claimed then (claimed, edits, n)
      else (claimed @ [(b, e)],
            edits @ [\<lparr>e_start = b, e_end = e,
                      e_text = (if starts_with (take (e - b) (drop b s)) ''v'' then CHR ''v'' # new else new)\<rparr>],
            n + 1))"

definition claim_occurrences ::
    "string \<Rightarrow> nat \<times> nat \<Rightarrow> string \<Rightarrow> string \<Rightarrow> (nat \<times> nat) list \<times> edit list \<times> nat \<Rightarrow> (nat \<times> nat) list \<times> edit list \<times> nat" where
  "claim_occurrences s region old new st = fold (claim_step s new) (occurrences_in s region old) st"

fun splice :: "string \<Rightarrow> nat \<Rightarrow> edit list \<Rightarrow> string option" where
  "splice original cursor [] = (if cursor \<le> length original then Some (drop cursor original) else None)"
| "splice original cursor (ed # eds) =
     (if cursor \<le> e_start ed \<and> e_start ed \<le> length original
      then map_option (\<lambda>r. take (e_start ed - cursor) (drop cursor original) @ e_text ed @ r) (splice original (e_end ed) eds)
      else None)"

definition apply_edits :: "string \<Rightarrow> edit list \<Rightarrow> string option" where
  "apply_edits original edits = splice original 0 (sort_by (\<lambda>a b. cmp_of (e_start a) (e_start b)) edits)"

subsection \<open>Rewriting files\<close>

record regex_lib =
  regex_find :: "string \<Rightarrow> (string, string \<Rightarrow> (nat \<times> nat) list) result"
  escape :: "string \<Rightarrow> string"

datatype rewrite_error =
  ReadError string
| AnchorWithoutVersion string string
| AnchorInvalid string string
| AnchorUnmatched string string string string
| WriteError string
| Panicked

function replace_version_token :: "string \<Rightarrow> string \<Rightarrow> string" where
  "replace_version_token by_text s =
     (case find_sub s ''{version}'' of
        None \<Rightarrow> s
      | Some i \<Rightarrow> take i s @ by_text @ replace_version_token by_text (drop (i + 9) s))"
  by auto

termination replace_version_token
proof (relation "measure (\<lambda>(_, s). length s)", simp)
  fix t s :: string and i
  assume "find_sub s ''{version}'' = Some i"
  from find_sub_Some [OF this] have "s \<noteq> []" by (metis append_is_Nil_conv list.simps(3))
  then show "((t, drop (i + 9) s), (t, s)) \<in> measure (\<lambda>(_, s). length s)" by (cases s) auto
qed

declare replace_version_token.simps [simp del]

definition anchor_regex :: "regex_lib \<Rightarrow> string \<Rightarrow> string \<Rightarrow> string \<Rightarrow> (rewrite_error, string \<Rightarrow> (nat \<times> nat) list) result" where
  "anchor_regex rx path anchor version =
     (if \<not> contains anchor ''{version}'' then Inl (AnchorWithoutVersion path anchor)
      else case regex_find rx (replace_version_token (escape rx version) anchor) of
             Inl e \<Rightarrow> Inl (AnchorInvalid path e)
           | Inr f \<Rightarrow> Inr f)"

text \<open>The regions of an entry: \<open>None\<close> for a bare one.\<close>

definition entry_regions :: "regex_lib \<Rightarrow> string \<Rightarrow> file_rewrite \<Rightarrow> (rewrite_error, (nat \<times> nat) list option) result" where
  "entry_regions rx original r =
     (case fr_anchor r of
        None \<Rightarrow> Inr None
      | Some anchor \<Rightarrow>
          (case anchor_regex rx (fr_path r) anchor (fr_old r) of
             Inl e \<Rightarrow> Inl e
           | Inr f \<Rightarrow>
               if f original = [] then Inl (AnchorUnmatched (fr_owner r) (fr_path r) anchor (fr_old r))
               else Inr (Some (f original))))"

type_synonym claim_state = "(nat \<times> nat) list \<times> edit list"

definition claim_regions :: "string \<Rightarrow> file_rewrite \<Rightarrow> (nat \<times> nat) list \<Rightarrow> claim_state \<Rightarrow> claim_state \<times> nat" where
  "claim_regions original r regions st =
     (case fold (\<lambda>region acc. claim_occurrences original region (fr_old r) (fr_new r) acc) regions (fst st, snd st, 0) of
        (claimed, edits, n) \<Rightarrow> ((claimed, edits), n))"

definition rewrite_entry ::
    "regex_lib \<Rightarrow> string \<Rightarrow> file_rewrite \<Rightarrow> claim_state \<Rightarrow> (rewrite_error, claim_state \<times> nat \<times> nat option) result" where
  "rewrite_entry rx original r st =
     (case entry_regions rx original r of
        Inl e \<Rightarrow> Inl e
      | Inr regions \<Rightarrow>
          if fr_old r = fr_new r then Inr (st, 0, map_option length regions)
          else (case claim_regions original r (case regions of Some rs \<Rightarrow> rs | None \<Rightarrow> [(0, length original)]) st of
                  (st', n) \<Rightarrow> Inr (st', n, map_option length regions)))"

fun rewrite_entries ::
    "regex_lib \<Rightarrow> string \<Rightarrow> (nat \<times> file_rewrite) list \<Rightarrow> claim_state
      \<Rightarrow> (rewrite_error, claim_state \<times> (nat \<times> nat \<times> nat option) list) result" where
  "rewrite_entries rx original [] st = Inr (st, [])"
| "rewrite_entries rx original ((idx, r) # rs) st =
     (case rewrite_entry rx original r st of
        Inl e \<Rightarrow> Inl e
      | Inr (st', n, m) \<Rightarrow>
          (case rewrite_entries rx original rs st' of
             Inl e \<Rightarrow> Inl e
           | Inr (st'', counts) \<Rightarrow> Inr (st'', (idx, n, m) # counts)))"

text \<open>Anchored entries first, then the longest old version.\<close>

definition entry_cmp :: "nat \<times> file_rewrite \<Rightarrow> nat \<times> file_rewrite \<Rightarrow> ordering" where
  "entry_cmp a b =
     then_cmp (cmp_of (fr_anchor (snd a) = None) (fr_anchor (snd b) = None))
       (cmp_of (length (fr_old (snd b))) (length (fr_old (snd a))))"

definition rewrite_file ::
    "regex_lib \<Rightarrow> (string \<rightharpoonup> string) \<Rightarrow> string \<Rightarrow> (nat \<times> file_rewrite) list
      \<Rightarrow> (rewrite_error, (nat \<times> nat \<times> nat option) list \<times> string option) result" where
  "rewrite_file rx fs path entries =
     (case fs path of
        None \<Rightarrow> Inl (ReadError path)
      | Some original \<Rightarrow>
          (case rewrite_entries rx original (sort_by entry_cmp entries) ([], []) of
             Inl e \<Rightarrow> Inl e
           | Inr ((_, edits), counts) \<Rightarrow>
               if edits = [] then Inr (counts, None)
               else (case apply_edits original edits of
                       None \<Rightarrow> Inl Panicked
                     | Some body \<Rightarrow> Inr (counts, Some body))))"

text \<open>The entries grouped by path in first-seen order.\<close>

definition group_by_path :: "file_rewrite list \<Rightarrow> (string \<times> (nat \<times> file_rewrite) list) list" where
  "group_by_path rewrites =
     map (\<lambda>p. (p, filter (\<lambda>(_, r). fr_path r = p) (zip [0..<length rewrites] rewrites)))
       (union_into [] (map fr_path rewrites))"

fun rewrite_groups ::
    "regex_lib \<Rightarrow> (string \<rightharpoonup> string) \<Rightarrow> (string \<times> (nat \<times> file_rewrite) list) list
      \<Rightarrow> (rewrite_error, (nat \<times> nat \<times> nat option) list \<times> (string \<times> string) list) result" where
  "rewrite_groups rx fs [] = Inr ([], [])"
| "rewrite_groups rx fs ((path, entries) # gs) =
     (case rewrite_file rx fs path entries of
        Inl e \<Rightarrow> Inl e
      | Inr (counts, body) \<Rightarrow>
          (case rewrite_groups rx fs gs of
             Inl e \<Rightarrow> Inl e
           | Inr (counts', pending) \<Rightarrow>
               Inr (counts @ counts', (case body of Some b \<Rightarrow> (path, b) # pending | None \<Rightarrow> pending))))"

fun write_pending :: "(string \<Rightarrow> bool) \<Rightarrow> (string \<times> string) list \<Rightarrow> (string \<rightharpoonup> string) \<Rightarrow> rewrite_error option \<times> (string \<rightharpoonup> string)" where
  "write_pending can_write [] fs = (None, fs)"
| "write_pending can_write ((path, body) # ps) fs =
     (if can_write path then write_pending can_write ps (fs(path \<mapsto> body)) else (Some (WriteError path), fs))"

definition outcomes :: "file_rewrite list \<Rightarrow> (nat \<times> nat \<times> nat option) list \<Rightarrow> rewrite_outcome list" where
  "outcomes rewrites counts =
     map (\<lambda>(idx, r).
       case map_of counts idx of
         Some (n, m) \<Rightarrow> \<lparr>ro_path = fr_path r, ro_anchor = fr_anchor r, ro_replacements = n, ro_matched_regions = m\<rparr>
       | None \<Rightarrow> \<lparr>ro_path = fr_path r, ro_anchor = fr_anchor r, ro_replacements = 0, ro_matched_regions = None\<rparr>)
     (zip [0..<length rewrites] rewrites)"

definition rewrite_version_in_files ::
    "regex_lib \<Rightarrow> (string \<Rightarrow> bool) \<Rightarrow> file_rewrite list \<Rightarrow> bool \<Rightarrow> (string \<rightharpoonup> string)
      \<Rightarrow> (rewrite_error, rewrite_outcome list) result \<times> (string \<rightharpoonup> string)" where
  "rewrite_version_in_files rx can_write rewrites dry_run fs =
     (case rewrite_groups rx fs (group_by_path rewrites) of
        Inl e \<Rightarrow> (Inl e, fs)
      | Inr (counts, pending) \<Rightarrow>
          if dry_run then (Inr (outcomes rewrites counts), fs)
          else (case write_pending can_write pending fs of
                  (Some e, fs') \<Rightarrow> (Inl e, fs')
                | (None, fs') \<Rightarrow> (Inr (outcomes rewrites counts), fs')))"

definition check_version_present ::
    "regex_lib \<Rightarrow> (string \<rightharpoonup> string) \<Rightarrow> (string \<times> string option) list \<Rightarrow> string \<Rightarrow> (rewrite_error, (string \<times> bool) list) result" where
  "check_version_present rx fs entries version =
     foldr (\<lambda>(path, anchor) rest.
         case fs path of
           None \<Rightarrow> Inl (ReadError path)
         | Some content \<Rightarrow>
             (case (case anchor of
                      None \<Rightarrow> Inr (contains_version content version)
                    | Some a \<Rightarrow>
                        (case anchor_regex rx path a version of
                           Inl e \<Rightarrow> Inl e
                         | Inr f \<Rightarrow> Inr (list_ex (\<lambda>region. occurrences_in content region version \<noteq> []) (f content)))) of
                Inl e \<Rightarrow> Inl e
              | Inr present \<Rightarrow> (case rest of Inl e \<Rightarrow> Inl e | Inr r \<Rightarrow> Inr ((path, present) # r))))
       entries (Inr [])"

subsection \<open>The plan and its guard\<close>

record plan_unit =
  pu_files :: "(string \<times> string option) list"
  pu_old :: string
  pu_new :: string
  pu_owner :: string

datatype plan_conflict =
  TwoNewVersions file_rewrite file_rewrite
| ChainedBumps file_rewrite file_rewrite

text \<open>The two sides of a refusal; the message names them and the overlap of their anchors.\<close>

definition check_rewrite_pair :: "file_rewrite \<Rightarrow> file_rewrite \<Rightarrow> (plan_conflict, unit) result" where
  "check_rewrite_pair a b =
     (if fr_path a \<noteq> fr_path b then Inr ()
      else if fr_old a = fr_old b \<and> fr_new a = fr_new b then Inr ()
      else case (case (fr_anchor a, fr_anchor b) of
                   (None, None) \<Rightarrow> Some False
                 | (Some x, Some y) \<Rightarrow> if x = y then Some False else None
                 | (Some _, None) \<Rightarrow> Some True
                 | (None, Some _) \<Rightarrow> Some True) of
             None \<Rightarrow> Inr ()
           | Some bare_beside_anchored \<Rightarrow>
               if fr_old a = fr_old b \<and> fr_new a \<noteq> fr_new b \<and> \<not> bare_beside_anchored then Inl (TwoNewVersions a b)
               else if contains_version (fr_new a) (fr_old b) then Inl (ChainedBumps a b)
               else if contains_version (fr_new b) (fr_old a) then Inl (ChainedBumps b a)
               else Inr ())"

fun check_against :: "file_rewrite list \<Rightarrow> file_rewrite \<Rightarrow> (plan_conflict, unit) result" where
  "check_against [] candidate = Inr ()"
| "check_against (existing # plan) candidate =
     (case check_rewrite_pair existing candidate of Inl e \<Rightarrow> Inl e | Inr _ \<Rightarrow> check_against plan candidate)"

definition same_rewrite :: "file_rewrite \<Rightarrow> file_rewrite \<Rightarrow> bool" where
  "same_rewrite p c \<longleftrightarrow> fr_path p = fr_path c \<and> fr_anchor p = fr_anchor c \<and> fr_old p = fr_old c \<and> fr_new p = fr_new c"

fun collect_plan :: "file_rewrite list \<Rightarrow> file_rewrite list \<Rightarrow> (plan_conflict, file_rewrite list) result" where
  "collect_plan [] plan = Inr plan"
| "collect_plan (candidate # cands) plan =
     (if list_ex (\<lambda>p. same_rewrite p candidate) plan then collect_plan cands plan
      else case check_against plan candidate of
             Inl e \<Rightarrow> Inl e
           | Inr _ \<Rightarrow> collect_plan cands (plan @ [candidate]))"

definition candidates :: "plan_unit list \<Rightarrow> file_rewrite list" where
  "candidates units =
     concat (map (\<lambda>u. map (\<lambda>(path, anchor).
       \<lparr>fr_path = path, fr_anchor = anchor, fr_old = pu_old u, fr_new = pu_new u, fr_owner = pu_owner u\<rparr>) (pu_files u)) units)"

fun position :: "string \<Rightarrow> string list \<Rightarrow> nat option" where
  "position x [] = None"
| "position x (y # ys) = (if x = y then Some 0 else map_option Suc (position x ys))"

definition plan_cmp :: "string list \<Rightarrow> file_rewrite \<Rightarrow> file_rewrite \<Rightarrow> ordering" where
  "plan_cmp file_order a b =
     (let pos = (\<lambda>r. case position (fr_path r) file_order of Some i \<Rightarrow> i | None \<Rightarrow> 0)
      in then_cmp (cmp_of (pos a) (pos b)) (cmp_of (length (fr_old b)) (length (fr_old a))))"

definition sort_plan :: "file_rewrite list \<Rightarrow> file_rewrite list" where
  "sort_plan plan = sort_by (plan_cmp (union_into [] (map fr_path plan))) plan"

definition build_version_files_plan :: "plan_unit list \<Rightarrow> (plan_conflict, file_rewrite list) result" where
  "build_version_files_plan units =
     (case collect_plan (candidates units) [] of Inl e \<Rightarrow> Inl e | Inr plan \<Rightarrow> Inr (sort_plan plan))"

definition version_files_plan :: "(string \<times> string option) list \<Rightarrow> string \<Rightarrow> string \<Rightarrow> string \<Rightarrow> (plan_conflict, file_rewrite list) result" where
  "version_files_plan files old new owner =
     build_version_files_plan [\<lparr>pu_files = files, pu_old = old, pu_new = new, pu_owner = owner\<rparr>]"

text \<open>The enrolled units of a lockstep bump, each with its files and owner.\<close>

definition shared_version_files_plan ::
    "((string \<times> string option) list \<times> string) list \<Rightarrow> string \<Rightarrow> string \<Rightarrow> (plan_conflict, file_rewrite list) result" where
  "shared_version_files_plan units old new =
     build_version_files_plan (map (\<lambda>(files, owner). \<lparr>pu_files = files, pu_old = old, pu_new = new, pu_owner = owner\<rparr>) units)"

record group_tag_result =
  gt_old_version :: "string option"
  gt_crate_names :: "string list"
  gt_version_updates :: "(string \<times> string) list"
  gt_crate_version_files :: "(string \<times> string option) list list"

definition plan_version_files_rewrites :: "group_tag_result list \<Rightarrow> (plan_conflict, file_rewrite list) result" where
  "plan_version_files_rewrites tag_results =
     build_version_files_plan
       (concat (map (\<lambda>g.
          case gt_old_version g of
            None \<Rightarrow> []
          | Some old \<Rightarrow>
              (let owner = (case gt_crate_names g of c # _ \<Rightarrow> c | [] \<Rightarrow> ''?'')
               in map (\<lambda>((_, new), files). \<lparr>pu_files = files, pu_old = old, pu_new = new, pu_owner = owner\<rparr>)
                    (zip (gt_version_updates g) (gt_crate_version_files g)))) tag_results))"

datatype rewrite_line =
  AnchorMatched string string nat
| Rewrote bool nat string string string "string option"
| NothingRewritten string string

text \<open>The loop over the outcomes: what is logged, and the paths to stage.\<close>

fun stage_outcomes :: "bool \<Rightarrow> (rewrite_outcome \<times> file_rewrite) list \<Rightarrow> string list \<Rightarrow> string list \<times> rewrite_line list" where
  "stage_outcomes dry_run [] changed = (changed, [])"
| "stage_outcomes dry_run ((oc, r) # rest) changed =
     (let hit = ro_replacements oc > 0;
          changed' = (if hit \<and> \<not> dry_run \<and> fr_path r \<notin> set changed then changed @ [fr_path r] else changed);
          said = (case fr_anchor r of
                    Some a \<Rightarrow> [AnchorMatched (fr_path r) a (case ro_matched_regions oc of Some m \<Rightarrow> m | None \<Rightarrow> 0)]
                  | None \<Rightarrow> [])
                 @ (if hit then [Rewrote dry_run (ro_replacements oc) (fr_old r) (fr_new r) (fr_path r) (fr_anchor r)]
                    else [NothingRewritten (fr_path r) (fr_old r)])
      in case stage_outcomes dry_run rest changed' of (final, lines) \<Rightarrow> (final, said @ lines))"

definition rewrite_and_stage_version_files ::
    "regex_lib \<Rightarrow> (string \<Rightarrow> bool) \<Rightarrow> file_rewrite list \<Rightarrow> bool \<Rightarrow> (string \<rightharpoonup> string)
      \<Rightarrow> (rewrite_error, string list) result \<times> rewrite_line list \<times> (string \<rightharpoonup> string)" where
  "rewrite_and_stage_version_files rx can_write plan dry_run fs =
     (let applicable = filter (\<lambda>r. fr_old r \<noteq> fr_new r) plan
      in if applicable = [] then (Inr [], [], fs)
         else case rewrite_version_in_files rx can_write applicable dry_run fs of
                (Inl e, fs') \<Rightarrow> (Inl e, [], fs')
              | (Inr ocs, fs') \<Rightarrow>
                  (case stage_outcomes dry_run (zip ocs applicable) [] of (changed, lines) \<Rightarrow> (Inr changed, lines, fs')))"

section \<open>Properties\<close>

subsection \<open>What a rewrite changes\<close>

text \<open>An edit that replaces an occurrence of an entry's old version.\<close>

definition edit_of :: "string \<Rightarrow> file_rewrite \<Rightarrow> nat \<Rightarrow> nat \<Rightarrow> string \<Rightarrow> bool" where
  "edit_of src r b e t \<longleftrightarrow>
     b < e \<and> e \<le> length src \<and> word_boundary src b \<and> word_boundary src e
     \<and> take (e - b) (drop b src) \<in> {fr_old r, CHR ''v'' # fr_old r}
     \<and> t = (if starts_with (take (e - b) (drop b src)) ''v'' then CHR ''v'' # fr_new r else fr_new r)"

text \<open>
  \<open>rewritten rs src pos body ivs\<close>: from position \<open>pos\<close> on, \<open>body\<close> is \<open>src\<close> with the occurrences at the intervals
  \<open>ivs\<close> replaced for an entry of \<open>rs\<close>, and nothing else changed.
\<close>

inductive rewritten :: "file_rewrite set \<Rightarrow> string \<Rightarrow> nat \<Rightarrow> string \<Rightarrow> (nat \<times> nat) list \<Rightarrow> bool" for rs src where
  rewritten_end: "rewritten rs src (length src) [] []"
| rewritten_keep: "pos < length src \<Longrightarrow> rewritten rs src (Suc pos) body ivs \<Longrightarrow> rewritten rs src pos (src ! pos # body) ivs"
| rewritten_edit: "r \<in> rs \<Longrightarrow> edit_of src r pos e t \<Longrightarrow> rewritten rs src e body ivs \<Longrightarrow>
    rewritten rs src pos (t @ body) ((pos, e) # ivs)"

lemma rewritten_keeps:
  "pos \<le> q \<Longrightarrow> q \<le> length src \<Longrightarrow> rewritten rs src q body ivs \<Longrightarrow>
   rewritten rs src pos (take (q - pos) (drop pos src) @ body) ivs"
proof (induction "q - pos" arbitrary: pos)
  case (Suc n)
  then have "rewritten rs src (Suc pos) (take (q - Suc pos) (drop (Suc pos) src) @ body) ivs" by simp
  from rewritten_keep [OF _ this] Suc(2,4) have
    "rewritten rs src pos (src ! pos # take (q - Suc pos) (drop (Suc pos) src) @ body) ivs" by simp
  moreover have "take (q - pos) (drop pos src) = src ! pos # take (q - Suc pos) (drop (Suc pos) src)"
    using Suc(2,4) by (simp add: Cons_nth_drop_Suc [symmetric] Suc_diff_Suc [symmetric] del: Suc_diff_Suc)
  ultimately show ?case by simp
qed simp

text \<open>Edits in order, each starting where the one before ended or later.\<close>

fun chained :: "nat \<Rightarrow> edit list \<Rightarrow> bool" where
  "chained pos [] = True"
| "chained pos (ed # eds) = (pos \<le> e_start ed \<and> chained (e_end ed) eds)"

definition edit_valid :: "file_rewrite set \<Rightarrow> string \<Rightarrow> edit \<Rightarrow> bool" where
  "edit_valid rs src ed \<longleftrightarrow> (\<exists>r \<in> rs. edit_of src r (e_start ed) (e_end ed) (e_text ed))"

definition span :: "edit \<Rightarrow> nat \<times> nat" where
  "span ed = (e_start ed, e_end ed)"

lemma splice_rewritten:
  "chained pos eds \<Longrightarrow> pos \<le> length src \<Longrightarrow> \<forall>ed \<in> set eds. edit_valid rs src ed \<Longrightarrow>
   \<exists>body. splice src pos eds = Some body \<and> rewritten rs src pos body (map span eds)"
proof (induction eds arbitrary: pos)
  case Nil
  then show ?case using rewritten_keeps [OF Nil(2) order_refl rewritten_end, of rs] by simp
next
  case (Cons ed eds)
  from Cons.prems(3) obtain r where r: "r \<in> rs" "edit_of src r (e_start ed) (e_end ed) (e_text ed)"
    by (auto simp: edit_valid_def)
  then have "e_end ed \<le> length src" "e_start ed \<le> length src" by (auto simp: edit_of_def)
  with Cons obtain body where body: "splice src (e_end ed) eds = Some body" "rewritten rs src (e_end ed) body (map span eds)"
    by force
  from rewritten_keeps [OF _ _ rewritten_edit [OF r body(2)], of pos] Cons.prems(1) \<open>e_start ed \<le> length src\<close>
  show ?case using body(1) by (simp add: span_def [of ed])
qed

subsection \<open>Claims\<close>

definition apart :: "nat \<times> nat \<Rightarrow> nat \<times> nat \<Rightarrow> bool" where
  "apart a b \<longleftrightarrow> \<not> (fst a < snd b \<and> fst b < snd a)"

lemma apart_sym: "apart a b \<longleftrightarrow> apart b a"
  by (auto simp: apart_def)

definition claims_ok :: "file_rewrite set \<Rightarrow> string \<Rightarrow> (nat \<times> nat) list \<Rightarrow> edit list \<Rightarrow> bool" where
  "claims_ok rs src claimed edits \<longleftrightarrow>
     claimed = map span edits \<and> sorted_wrt (\<lambda>a b. apart (span a) (span b)) edits \<and> (\<forall>ed \<in> set edits. edit_valid rs src ed)"

definition covered :: "(nat \<times> nat) list \<Rightarrow> nat \<times> nat \<Rightarrow> bool" where
  "covered claimed iv \<longleftrightarrow> (\<exists>c \<in> set claimed. \<not> apart iv c)"

lemma covered_mono: "set a \<subseteq> set b \<Longrightarrow> covered a iv \<Longrightarrow> covered b iv"
  by (auto simp: covered_def)

lemma claim_step_ok:
  assumes "claims_ok rs src claimed edits" "r \<in> rs" "fr_old r \<noteq> []" "occurrence_at (fr_old r) src b = Some e" "b \<le> length src"
    and "claim_step src (fr_new r) (b, e) (claimed, edits, n) = (claimed', edits', n')"
  shows "claims_ok rs src claimed' edits'" "set claimed \<subseteq> set claimed'" "covered claimed' (b, e)"
    "length edits' + n = length edits + n'"
proof -
  note occ = occurrence_at_Some [OF assms(4,5)]
  have "take (e - b) (drop b src) \<noteq> []" using occ assms(3) by auto
  then have be: "b < e" by (cases "b < e") auto
  show "set claimed \<subseteq> set claimed'" "length edits' + n = length edits + n'" using assms(6) by (auto split: if_splits)
  show "covered claimed' (b, e)"
  proof (cases "list_ex (\<lambda>(cs, ce). b < ce \<and> cs < e) claimed")
    case True
    then obtain c where "c \<in> set claimed" "\<not> apart (b, e) c" by (auto simp: list_ex_iff apart_def)
    with True assms(6) show ?thesis by (auto simp: covered_def)
  next
    case False
    with be assms(6) show ?thesis by (auto simp: covered_def apart_def)
  qed
  show "claims_ok rs src claimed' edits'"
  proof (cases "list_ex (\<lambda>(cs, ce). b < ce \<and> cs < e) claimed")
    case True
    then show ?thesis using assms(1,6) by simp
  next
    case False
    let ?ed = "\<lparr>e_start = b, e_end = e, e_text = (if starts_with (take (e - b) (drop b src)) ''v'' then CHR ''v'' # fr_new r else fr_new r)\<rparr>"
    have new: "claimed' = claimed @ [(b, e)]" "edits' = edits @ [?ed]" using assms(6) False by auto
    have "edit_valid rs src ?ed" using occ be assms(2) by (auto simp: edit_valid_def edit_of_def)
    moreover have "apart (span ed) (span ?ed)" if "ed \<in> set edits" for ed
      using False that assms(1) by (auto simp: claims_ok_def list_ex_iff apart_def span_def)
    ultimately show ?thesis using assms(1) unfolding new by (auto simp: claims_ok_def sorted_wrt_append span_def)
  qed
qed

lemma occurrences_from_sound:
  "(i, e) \<in> set (occurrences_from version s stop pos) \<Longrightarrow> occurrence_at version s i = Some e \<and> i \<le> length s"
proof (induction version s stop pos rule: occurrences_from.induct)
  case (1 version s stop pos)
  show ?case
  proof (cases "find_at version s pos")
    case None
    with 1(2) show ?thesis by (simp add: occurrences_from.simps [of version s stop pos])
  next
    case (Some x)
    obtain j k where x: "x = (j, k)" by (cases x)
    note f = Some [unfolded x]
    from 1(2) f have k: "\<not> (k > stop \<or> k = pos)" "(i, e) = (j, k) \<or> (i, e) \<in> set (occurrences_from version s stop k)"
      by (auto simp: occurrences_from.simps [of version s stop pos] split: if_splits)
    from k(2) show ?thesis using find_at_Some(2,3) [OF f] 1(1) [OF f refl k(1)] by auto
  qed
qed

lemma fold_claims:
  assumes "claims_ok rs src claimed edits" "r \<in> rs" "fr_old r \<noteq> []"
    "\<forall>(b, e) \<in> set ivs. occurrence_at (fr_old r) src b = Some e \<and> b \<le> length src"
    "fold (claim_step src (fr_new r)) ivs (claimed, edits, n) = (claimed', edits', n')"
  shows "claims_ok rs src claimed' edits' \<and> set claimed \<subseteq> set claimed' \<and> (\<forall>iv \<in> set ivs. covered claimed' iv)
    \<and> length edits' + n = length edits + n'"
  using assms(1,4,5)
proof (induction ivs arbitrary: claimed edits n)
  case (Cons iv ivs)
  obtain b e where iv: "iv = (b, e)" by (cases iv)
  obtain c1 e1 n1 where s1: "claim_step src (fr_new r) (b, e) (claimed, edits, n) = (c1, e1, n1)" by (metis prod_cases3)
  note st = claim_step_ok [OF Cons.prems(1) assms(2,3) _ _ s1]
  have occ: "occurrence_at (fr_old r) src b = Some e" "b \<le> length src" using Cons.prems(2) iv by auto
  have "fold (claim_step src (fr_new r)) ivs (c1, e1, n1) = (claimed', edits', n')" using Cons.prems(3) iv s1 by simp
  from Cons.IH [OF st(1) [OF occ] _ this] Cons.prems(2) st(2-4) [OF occ] iv
  show ?case by (auto simp: covered_def)
qed simp

lemma claim_regions_ok:
  assumes "claims_ok rs src claimed edits" "r \<in> rs" "fr_old r \<noteq> []"
    "claim_regions src r regions (claimed, edits) = ((claimed', edits'), n)"
  shows "claims_ok rs src claimed' edits' \<and> set claimed \<subseteq> set claimed' \<and> length edits' = length edits + n
    \<and> (\<forall>region \<in> set regions. \<forall>iv \<in> set (occurrences_in src region (fr_old r)). covered claimed' iv)"
proof -
  have "claims_ok rs src claimed' edits' \<and> set claimed \<subseteq> set claimed' \<and> length edits' + k = length edits + n'
      \<and> (\<forall>region \<in> set regions. \<forall>iv \<in> set (occurrences_in src region (fr_old r)). covered claimed' iv)"
    if "claims_ok rs src claimed edits"
      "fold (\<lambda>region acc. claim_occurrences src region (fr_old r) (fr_new r) acc) regions (claimed, edits, k) = (claimed', edits', n')"
    for claimed edits k n'
    using that
  proof (induction regions arbitrary: claimed edits k)
    case (Cons region regions)
    obtain c1 e1 k1 where s1: "claim_occurrences src region (fr_old r) (fr_new r) (claimed, edits, k) = (c1, e1, k1)" by (metis prod_cases3)
    have "\<forall>(b, e) \<in> set (occurrences_in src region (fr_old r)). occurrence_at (fr_old r) src b = Some e \<and> b \<le> length src"
      using occurrences_from_sound by (auto simp: occurrences_in_def)
    note step = fold_claims [OF Cons.prems(1) assms(2,3) this s1 [unfolded claim_occurrences_def]]
    from Cons.IH [of c1 e1 k1] step Cons.prems(2) s1 show ?case by (auto intro: covered_mono)
  qed simp
  from this [OF assms(1), of 0 n] assms(4) show ?thesis by (auto simp: claim_regions_def split: prod.splits)
qed

definition bare_covered :: "string \<Rightarrow> (nat \<times> nat) list \<Rightarrow> file_rewrite \<Rightarrow> bool" where
  "bare_covered src claimed r \<longleftrightarrow>
     (fr_anchor r = None \<and> fr_old r \<noteq> fr_new r \<longrightarrow> (\<forall>iv \<in> set (occurrences_in src (0, length src) (fr_old r)). covered claimed iv))"

lemma rewrite_entry_ok:
  assumes "claims_ok rs src claimed edits" "r \<in> rs" "fr_old r \<noteq> []"
    "rewrite_entry rx src r (claimed, edits) = Inr ((claimed', edits'), n, m)"
  shows "claims_ok rs src claimed' edits' \<and> set claimed \<subseteq> set claimed' \<and> length edits' = length edits + n \<and> bare_covered src claimed' r"
proof (cases "fr_old r = fr_new r")
  case True
  with assms(1,4) show ?thesis by (auto simp: rewrite_entry_def bare_covered_def split: sum.splits)
next
  case False
  with assms(4) obtain regions where reg: "entry_regions rx src r = Inr regions"
    "claim_regions src r (case regions of Some rs \<Rightarrow> rs | None \<Rightarrow> [(0, length src)]) (claimed, edits) = ((claimed', edits'), n)"
    by (auto simp: rewrite_entry_def split: sum.splits prod.splits)
  have "regions = None" if "fr_anchor r = None" using reg(1) that by (simp add: entry_regions_def)
  with claim_regions_ok [OF assms(1-3) reg(2)] show ?thesis by (auto simp: bare_covered_def)
qed

lemma rewrite_entries_error:
  "rewrite_entries rx src ents st = Inl e \<Longrightarrow> e \<noteq> Panicked \<and> (\<forall>p. e \<noteq> WriteError p)"
  by (induction ents arbitrary: st)
    (auto simp: rewrite_entry_def entry_regions_def anchor_regex_def split: sum.splits option.splits if_splits prod.splits)

lemma rewrite_entries_ok:
  "claims_ok rs src claimed edits \<Longrightarrow> \<forall>(_, r) \<in> set ents. r \<in> rs \<and> fr_old r \<noteq> [] \<Longrightarrow>
   rewrite_entries rx src ents (claimed, edits) = Inr ((claimed', edits'), cnts) \<Longrightarrow>
   claims_ok rs src claimed' edits' \<and> set claimed \<subseteq> set claimed' \<and> length edits' = length edits + sum_list (map (fst \<circ> snd) cnts)
   \<and> (\<forall>(_, r) \<in> set ents. bare_covered src claimed' r) \<and> map fst cnts = map fst ents"
proof (induction ents arbitrary: claimed edits cnts)
  case (Cons x ents)
  obtain idx r where x: "x = (idx, r)" by (cases x)
  from Cons.prems(3) x obtain c1 e1 n m cs where
    e: "rewrite_entry rx src r (claimed, edits) = Inr ((c1, e1), n, m)"
      "rewrite_entries rx src ents (c1, e1) = Inr ((claimed', edits'), cs)" "cnts = (idx, n, m) # cs"
    by (auto split: sum.splits)
  note one = rewrite_entry_ok [OF Cons.prems(1) _ _ e(1)]
  have r: "r \<in> rs" "fr_old r \<noteq> []" using Cons.prems(2) x by auto
  from Cons.IH [OF _ _ e(2)] one [OF r] Cons.prems(2) e(3) x show ?case
    by (auto simp: bare_covered_def intro: covered_mono)
qed simp

subsection \<open>Applying the edits\<close>

lemma sorted_insert_by_any:
  "sorted_wrt R xs \<Longrightarrow> \<forall>y \<in> set xs. R x y \<and> R y x \<Longrightarrow> sorted_wrt R (insert_by f x xs)"
  by (induction xs) auto

lemma sorted_sort_by_any:
  "(\<And>a b. R a b \<Longrightarrow> R b a) \<Longrightarrow> sorted_wrt R xs \<Longrightarrow> sorted_wrt R (sort_by f xs)"
  by (induction xs) (auto intro!: sorted_insert_by_any)

interpretation edit_order: rust_ord "\<lambda>a b. cmp_of (e_start a) (e_start b)"
  by (rule rust_ord_on) (rule linorder_ord.rust_ord_axioms)

lemma chained_sorted:
  assumes "sorted_wrt (\<lambda>a b. e_start a \<le> e_start b) eds" "sorted_wrt (\<lambda>a b. apart (span a) (span b)) eds"
    "\<forall>ed \<in> set eds. e_start ed < e_end ed" "\<forall>ed \<in> set eds. pos \<le> e_start ed"
  shows "chained pos eds"
  using assms
proof (induction eds arbitrary: pos)
  case (Cons ed eds)
  have "\<forall>ed' \<in> set eds. e_end ed \<le> e_start ed'" using Cons.prems by (fastforce simp: apart_def span_def)
  with Cons show ?case by simp
qed simp

lemma apply_edits_rewritten:
  assumes "claims_ok rs src claimed edits"
  shows "\<exists>body ivs. apply_edits src edits = Some body \<and> rewritten rs src 0 body ivs \<and> set ivs = set claimed \<and> length ivs = length edits"
proof -
  let ?eds = "sort_by (\<lambda>a b. cmp_of (e_start a) (e_start b)) edits"
  have "sorted_wrt (\<lambda>a b. e_start a \<le> e_start b) ?eds"
    using edit_order.sorted_sort_by [of edits] by (rule sorted_wrt_mono_rel [rotated]) (auto simp: cmp_of_def split: if_splits)
  moreover have "sorted_wrt (\<lambda>a b. apart (span a) (span b)) ?eds"
    using assms by (intro sorted_sort_by_any) (auto simp: claims_ok_def apart_sym)
  moreover have valid: "\<forall>ed \<in> set ?eds. edit_valid rs src ed" using assms by (simp add: claims_ok_def)
  moreover from this have "\<forall>ed \<in> set ?eds. e_start ed < e_end ed" by (auto simp: edit_valid_def edit_of_def)
  ultimately have "chained 0 ?eds" by (intro chained_sorted) auto
  from splice_rewritten [OF this _ valid] assms show ?thesis
    by (auto simp: apply_edits_def claims_ok_def intro!: exI [of _ "map span ?eds"])
qed

text \<open>What the rewritten text of one file is.\<close>

definition file_rewritten :: "file_rewrite set \<Rightarrow> string \<Rightarrow> string \<Rightarrow> bool" where
  "file_rewritten rs src body \<longleftrightarrow>
     (\<exists>ivs. rewritten rs src 0 body ivs \<and> (\<forall>r \<in> rs. bare_covered src ivs r))"

lemma rewrite_file_ok:
  assumes "\<forall>(_, r) \<in> set ents. fr_old r \<noteq> []"
  shows "case rewrite_file rx fs path ents of
      Inl e \<Rightarrow> e \<noteq> Panicked \<and> (\<forall>p. e \<noteq> WriteError p)
    | Inr (cnts, body) \<Rightarrow> \<exists>src. fs path = Some src \<and> file_rewritten (snd ` set ents) src (case body of Some b \<Rightarrow> b | None \<Rightarrow> src)"
proof (cases "fs path")
  case None
  then show ?thesis by (simp add: rewrite_file_def)
next
  case (Some src)
  let ?ents = "sort_by entry_cmp ents" and ?rs = "snd ` set ents"
  have init: "claims_ok ?rs src [] []" by (simp add: claims_ok_def)
  have ents: "\<forall>(_, r) \<in> set ?ents. r \<in> ?rs \<and> fr_old r \<noteq> []" using assms by force
  show ?thesis
  proof (cases "rewrite_entries rx src ?ents ([], [])")
    case (Inl e)
    then have "e \<noteq> Panicked \<and> (\<forall>p. e \<noteq> WriteError p)" by (rule rewrite_entries_error)
    with Inl Some show ?thesis by (simp add: rewrite_file_def)
  next
    case (Inr x)
    obtain claimed edits cnts where x: "x = ((claimed, edits), cnts)" by (metis prod.exhaust)
    note ok = rewrite_entries_ok [OF init ents Inr [unfolded x]]
    then obtain body ivs where b: "apply_edits src edits = Some body" "rewritten ?rs src 0 body ivs" "set ivs = set claimed"
      using apply_edits_rewritten by blast
    have "file_rewritten ?rs src body"
      unfolding file_rewritten_def using b ok by (force simp: bare_covered_def covered_def)
    moreover have "body = src" if "edits = []" using b(1) that by (simp add: apply_edits_def)
    ultimately show ?thesis using Inr x Some b(1) by (auto simp: rewrite_file_def)
  qed
qed

subsection \<open>All files\<close>

lemma rewrite_groups_ok:
  assumes "\<forall>(_, ents) \<in> set gs. \<forall>(_, r) \<in> set ents. fr_old r \<noteq> []" "distinct (map fst gs)"
  shows "case rewrite_groups rx fs gs of
      Inl e \<Rightarrow> e \<noteq> Panicked \<and> (\<forall>p. e \<noteq> WriteError p)
    | Inr (cnts, pending) \<Rightarrow>
        distinct (map fst pending) \<and> fst ` set pending \<subseteq> fst ` set gs
        \<and> (\<forall>(path, ents) \<in> set gs. \<exists>src. fs path = Some src
              \<and> file_rewritten (snd ` set ents) src (case map_of pending path of Some b \<Rightarrow> b | None \<Rightarrow> src))"
  using assms
proof (induction gs)
  case (Cons g gs)
  obtain path ents where g: "g = (path, ents)" by (cases g)
  have one: "case rewrite_file rx fs path ents of
      Inl e \<Rightarrow> e \<noteq> Panicked \<and> (\<forall>p. e \<noteq> WriteError p)
    | Inr (cnts, body) \<Rightarrow> \<exists>src. fs path = Some src \<and> file_rewritten (snd ` set ents) src (case body of Some b \<Rightarrow> b | None \<Rightarrow> src)"
    using Cons.prems g by (intro rewrite_file_ok) auto
  show ?case
  proof (cases "rewrite_file rx fs path ents")
    case (Inl e)
    with one g show ?thesis by simp
  next
    case f: (Inr x)
    obtain cnts body where x: "x = (cnts, body)" by (cases x)
    show ?thesis
    proof (cases "rewrite_groups rx fs gs")
      case (Inl e)
      with Cons f x g show ?thesis by simp
    next
      case (Inr y)
      obtain cnts' pending where y: "y = (cnts', pending)" by (cases y)
      have rest: "distinct (map fst pending)" "fst ` set pending \<subseteq> fst ` set gs"
        "\<forall>(path, ents) \<in> set gs. \<exists>src. fs path = Some src
              \<and> file_rewritten (snd ` set ents) src (case map_of pending path of Some b \<Rightarrow> b | None \<Rightarrow> src)"
        using Cons Inr y by auto
      have fresh: "path \<notin> fst ` set pending" "path \<notin> fst ` set gs" using rest(2) Cons.prems(2) g by auto
      then have none: "map_of pending path = None" by (simp add: map_of_eq_None_iff)
      let ?p = "case body of Some b \<Rightarrow> (path, b) # pending | None \<Rightarrow> pending"
      have new: "map_of ?p path = body" "\<And>q. q \<noteq> path \<Longrightarrow> map_of ?p q = map_of pending q"
        using none by (auto split: option.split)
      have "\<exists>src. fs q = Some src \<and> file_rewritten (snd ` set es) src (case map_of ?p q of Some b \<Rightarrow> b | None \<Rightarrow> src)"
        if "(q, es) \<in> set (g # gs)" for q es
      proof (cases "q = path")
        case True
        with that fresh g have "es = ents" by force
        with one f x new True show ?thesis by simp
      next
        case False
        with that g have "(q, es) \<in> set gs" by simp
        with rest(3) new(2) [OF False] show ?thesis by auto
      qed
      moreover have "distinct (map fst ?p)" "fst ` set ?p \<subseteq> fst ` set (g # gs)"
        using rest(1,2) fresh(1) g by (auto split: option.split)
      ultimately show ?thesis using g f x Inr y by auto
    qed
  qed
qed simp

lemma write_pending_ok:
  "distinct (map fst pending) \<Longrightarrow> write_pending can_write pending fs = (None, fs') \<Longrightarrow>
   fs' q = (case map_of pending q of Some b \<Rightarrow> Some b | None \<Rightarrow> fs q)"
proof (induction pending arbitrary: fs)
  case (Cons x pending)
  obtain path body where x: "x = (path, body)" by (cases x)
  have "map_of pending path = None" using Cons.prems(1) x by (simp add: map_of_eq_None_iff)
  moreover have "fs' q = (case map_of pending q of Some b \<Rightarrow> Some b | None \<Rightarrow> (fs(path \<mapsto> body)) q)"
    using Cons x by (auto split: if_splits)
  ultimately show ?case using x by (auto split: option.splits)
qed simp

lemma write_pending_error: "write_pending can_write pending fs = (Some e, fs') \<Longrightarrow> \<exists>p. e = WriteError p"
  by (induction pending arbitrary: fs) (auto split: if_splits)

definition entries_of :: "file_rewrite list \<Rightarrow> string \<Rightarrow> file_rewrite set" where
  "entries_of rewrites path = {r \<in> set rewrites. fr_path r = path}"

lemma group_by_path_ok:
  "distinct (map fst (group_by_path rewrites))" "fst ` set (group_by_path rewrites) = fr_path ` set rewrites"
  "(path, ents) \<in> set (group_by_path rewrites) \<Longrightarrow> snd ` set ents = entries_of rewrites path"
proof -
  have "map fst (group_by_path rewrites) = union_into [] (map fr_path rewrites)" by (simp add: group_by_path_def comp_def)
  then show "distinct (map fst (group_by_path rewrites))" "fst ` set (group_by_path rewrites) = fr_path ` set rewrites"
    using distinct_union_into [of "[]" "map fr_path rewrites"] by (simp_all flip: set_map)
  have z: "snd ` set (zip [0..<length rewrites] rewrites) = set rewrites" by (simp flip: set_map)
  show "snd ` set ents = entries_of rewrites path" if "(path, ents) \<in> set (group_by_path rewrites)"
  proof -
    have "ents = filter (\<lambda>(_, r). fr_path r = path) (zip [0..<length rewrites] rewrites)"
      using that by (auto simp: group_by_path_def)
    then have "snd ` set ents = {r \<in> snd ` set (zip [0..<length rewrites] rewrites). fr_path r = path}" by force
    then show ?thesis by (simp add: z entries_of_def)
  qed
qed

text \<open>
  C22. Rewriting versions is exact and all-or-nothing before the first write: with no empty old version the engine never panics; an error
  that is not a failed write, and every dry run, leaves the files as they were; a success leaves every other file alone and
  turns each enrolled one into its text with occurrences of the old versions, at word boundaries, replaced by the new
  ones and nothing else changed, no occurrence of a whole-file entry being left.
\<close>
theorem version_rewrite_exact:
  assumes "\<forall>r \<in> set rewrites. fr_old r \<noteq> []"
  shows "case rewrite_version_in_files rx can_write rewrites dry_run fs of
      (Inl e, fs') \<Rightarrow> e \<noteq> Panicked \<and> ((\<exists>p. e = WriteError p) \<or> fs' = fs)
    | (Inr _, fs') \<Rightarrow>
        if dry_run then fs' = fs
        else \<forall>path. if path \<in> fr_path ` set rewrites
                     then \<exists>src body. fs path = Some src \<and> fs' path = Some body \<and> file_rewritten (entries_of rewrites path) src body
                     else fs' path = fs path"
proof -
  let ?gs = "group_by_path rewrites"
  have old: "\<forall>(_, ents) \<in> set ?gs. \<forall>(_, r) \<in> set ents. fr_old r \<noteq> []"
  proof clarify
    fix path ents i r
    assume "(path, ents) \<in> set ?gs" "(i, r) \<in> set ents" "fr_old r = []"
    moreover from this have "r \<in> entries_of rewrites path" using group_by_path_ok(3) by force
    ultimately show False using assms by (simp add: entries_of_def)
  qed
  note groups = rewrite_groups_ok [OF old group_by_path_ok(1), where rx = rx and fs = fs]
  show ?thesis
  proof (cases "rewrite_groups rx fs ?gs")
    case (Inl e)
    with groups show ?thesis by (simp add: rewrite_version_in_files_def)
  next
    case (Inr x)
    obtain cnts pending where x: "x = (cnts, pending)" by (cases x)
    from groups Inr x have p: "distinct (map fst pending)" "fst ` set pending \<subseteq> fr_path ` set rewrites"
      "\<forall>(path, ents) \<in> set ?gs. \<exists>src. fs path = Some src
          \<and> file_rewritten (snd ` set ents) src (case map_of pending path of Some b \<Rightarrow> b | None \<Rightarrow> src)"
      using group_by_path_ok(2) [of "rewrites"] by auto
    obtain err fs' where w: "write_pending can_write pending fs = (err, fs')" by (metis prod.exhaust)
    show ?thesis
    proof (cases "dry_run \<or> err \<noteq> None")
      case True
      with Inr x w show ?thesis by (auto simp: rewrite_version_in_files_def dest!: write_pending_error)
    next
      case False
      then have w': "write_pending can_write pending fs = (None, fs')" using w by simp
      have "\<exists>src body. fs path = Some src \<and> fs' path = Some body \<and> file_rewritten (entries_of rewrites path) src body"
        if "path \<in> fr_path ` set rewrites" for path
      proof -
        from that obtain ents where g: "(path, ents) \<in> set ?gs" using group_by_path_ok(2) [of "rewrites"] by force
        with p(3) obtain src where "fs path = Some src"
          "file_rewritten (snd ` set ents) src (case map_of pending path of Some b \<Rightarrow> b | None \<Rightarrow> src)" by auto
        then show ?thesis using write_pending_ok [OF p(1) w', of path] group_by_path_ok(3) [OF g]
          by (auto split: option.splits)
      qed
      moreover have "fs' path = fs path" if "path \<notin> fr_path ` set rewrites" for path
      proof -
        have "path \<notin> fst ` set pending" using p(2) that by blast
        then have "map_of pending path = None" by (simp add: map_of_eq_None_iff)
        then show ?thesis using write_pending_ok [OF p(1) w', of path] by simp
      qed
      ultimately show ?thesis using False Inr x w' by (simp add: rewrite_version_in_files_def)
    qed
  qed
qed

theorem version_rewrite_exact_witness:
  "case rewrite_version_in_files \<lparr>regex_find = (\<lambda>_. Inl ''no regex''), escape = id\<rparr> (\<lambda>_. True)
     [\<lparr>fr_path = ''README.md'', fr_anchor = None, fr_old = ''0.1.0'', fr_new = ''0.2.0'', fr_owner = ''core''\<rparr>] False
     [''README.md'' \<mapsto> ''see v0.1.0''] of
     (Inl e, _) \<Rightarrow> e \<noteq> Panicked
   | (Inr _, fs') \<Rightarrow> \<exists>body. fs' ''README.md'' = Some body"
proof -
  let ?rs = "[\<lparr>fr_path = ''README.md'', fr_anchor = None, fr_old = ''0.1.0'', fr_new = ''0.2.0'', fr_owner = ''core''\<rparr>]"
  have "\<forall>r \<in> set ?rs. fr_old r \<noteq> []" by simp
  from version_rewrite_exact [OF this, where rx = "\<lparr>regex_find = (\<lambda>_. Inl ''no regex''), escape = id\<rparr>" and can_write = "\<lambda>_. True"
      and dry_run = False and fs = "[''README.md'' \<mapsto> ''see v0.1.0'']"]
  show ?thesis by (auto split: prod.splits sum.splits dest!: spec [of _ "''README.md''"])
qed

subsection \<open>The guard\<close>

definition hazardous :: "file_rewrite \<Rightarrow> file_rewrite \<Rightarrow> bool" where
  "hazardous a b \<longleftrightarrow>
     fr_path a = fr_path b \<and> (fr_old a, fr_new a) \<noteq> (fr_old b, fr_new b)
     \<and> (fr_anchor a = fr_anchor b \<or> fr_anchor a = None \<or> fr_anchor b = None)
     \<and> (fr_old a = fr_old b \<and> fr_anchor a = fr_anchor b
        \<or> contains_version (fr_new a) (fr_old b) \<or> contains_version (fr_new b) (fr_old a))"

lemma hazardous_sym: "hazardous a b \<longleftrightarrow> hazardous b a"
  by (auto simp: hazardous_def)

lemma hazardous_same: "same_rewrite a a' \<Longrightarrow> same_rewrite b b' \<Longrightarrow> hazardous a b \<longleftrightarrow> hazardous a' b'"
  by (simp add: hazardous_def same_rewrite_def)

lemma not_hazardous_self: "same_rewrite a b \<Longrightarrow> \<not> hazardous a b"
  by (simp add: hazardous_def same_rewrite_def)

lemma check_rewrite_pair_iff: "check_rewrite_pair a b = Inr () \<longleftrightarrow> \<not> hazardous a b"
  by (auto simp: check_rewrite_pair_def hazardous_def split: option.splits)

lemma check_against_iff: "check_against plan c = Inr () \<longleftrightarrow> (\<forall>p \<in> set plan. \<not> hazardous p c)"
  by (induction plan) (auto simp: check_rewrite_pair_iff [symmetric] split: sum.splits)

lemma check_against_Inl: "check_against plan c = Inl e \<Longrightarrow> \<exists>p \<in> set plan. hazardous p c"
  using check_against_iff [of plan c] by auto

definition represents :: "file_rewrite list \<Rightarrow> file_rewrite set \<Rightarrow> bool" where
  "represents plan cands \<longleftrightarrow>
     set plan \<subseteq> cands \<and> (\<forall>c \<in> cands. \<exists>p \<in> set plan. same_rewrite p c)
     \<and> sorted_wrt (\<lambda>a b. \<not> same_rewrite a b \<and> \<not> hazardous a b) plan"

lemma collect_plan_ok:
  "represents plan seen \<Longrightarrow>
   (case collect_plan cands plan of
      Inr plan' \<Rightarrow> represents plan' (seen \<union> set cands)
    | Inl _ \<Rightarrow> \<exists>a \<in> seen \<union> set cands. \<exists>b \<in> seen \<union> set cands. hazardous a b)"
proof (induction cands arbitrary: plan seen)
  case (Cons c cands)
  show ?case
  proof (cases "list_ex (\<lambda>p. same_rewrite p c) plan")
    case True
    then have "represents plan (insert c seen)" using Cons.prems by (auto simp: represents_def list_ex_iff)
    from Cons.IH [OF this] True show ?thesis by (simp add: insert_commute split: sum.splits)
  next
    case new: False
    show ?thesis
    proof (cases "check_against plan c")
      case (Inl e)
      with check_against_Inl [OF Inl] new Cons.prems show ?thesis by (auto simp: represents_def)
    next
      case (Inr u)
      then have "\<forall>p \<in> set plan. \<not> hazardous p c" using check_against_iff [of plan c] by simp
      then have "represents (plan @ [c]) (insert c seen)"
        using new Cons.prems by (auto simp: represents_def list_ex_iff sorted_wrt_append same_rewrite_def)
      from Cons.IH [OF this] new Inr show ?thesis by (simp split: sum.splits)
    qed
  qed
qed simp

lemma represents_no_hazard:
  assumes "represents plan cands" "a \<in> cands" "b \<in> cands"
  shows "\<not> hazardous a b"
proof -
  obtain p q where pq: "p \<in> set plan" "same_rewrite p a" "q \<in> set plan" "same_rewrite q b"
    using assms unfolding represents_def by meson
  then obtain i j where ij: "i < length plan" "plan ! i = p" "j < length plan" "plan ! j = q" by (metis in_set_conv_nth)
  have s: "sorted_wrt (\<lambda>a b. \<not> same_rewrite a b \<and> \<not> hazardous a b) plan" using assms by (simp add: represents_def)
  have "\<not> hazardous p q"
  proof (cases i j rule: linorder_cases)
    case equal
    then show ?thesis using ij not_hazardous_self [of p q] by (simp add: same_rewrite_def)
  qed (use s ij hazardous_sym in \<open>auto simp: sorted_wrt_iff_nth_less\<close>)
  then show ?thesis using hazardous_same [OF pq(2,4)] by simp
qed

text \<open>
  The guard is exact: a bump is refused exactly when two enrolled entries would corrupt each other, that is, overlap in a file with
  different bumps and either rewrite one old version to two new ones under one anchor or feed one rewrite's
  output to the other. An accepted plan holds every enrolled entry once up to its owner, and no such pair.
\<close>
theorem version_plan_guard_exact:
  "case build_version_files_plan units of
      Inl _ \<Rightarrow> \<exists>a \<in> set (candidates units). \<exists>b \<in> set (candidates units). hazardous a b
    | Inr plan \<Rightarrow>
        represents plan (set (candidates units))
        \<and> \<not> (\<exists>a \<in> set (candidates units). \<exists>b \<in> set (candidates units). hazardous a b)"
proof -
  have "represents [] {}" by (simp add: represents_def)
  note c = collect_plan_ok [OF this, of "candidates units"]
  have sorted: "represents (sort_plan plan) A" if "represents plan A" for plan A
    using that unfolding represents_def sort_plan_def
    by (auto intro!: sorted_sort_by_any simp: hazardous_sym) (auto simp: same_rewrite_def)
  show ?thesis
  proof (cases "collect_plan (candidates units) []")
    case (Inl e)
    with c show ?thesis by (simp add: build_version_files_plan_def)
  next
    case (Inr plan)
    with c have r: "represents plan (set (candidates units))" by simp
    from sorted [OF r] represents_no_hazard [OF r] Inr show ?thesis by (auto simp: build_version_files_plan_def)
  qed
qed

text \<open>One bump is one rewrite: a whole-file entry beside an anchored one is accepted even when the new version contains the old.\<close>

lemma one_bump_never_refused:
  "fr_old a = fr_old b \<Longrightarrow> fr_new a = fr_new b \<Longrightarrow> check_rewrite_pair a b = Inr ()"
  by (simp add: check_rewrite_pair_iff hazardous_def)

end
