(* ===== verification/BuildPlan.thy ===== *)
theory BuildPlan
  imports CrateGraph Targets
begin

section \<open>What a run builds (\<open>core/src/build_plan.rs\<close>, \<open>cli/src/commands/helpers/workspace.rs\<close>)\<close>

text \<open>
  Models the rule that decides which build entries of a crate compile and over which target triples, the binary
  names an archive packs, the union of targets the command line reports, and the target selection of the build stage
  (\<open>stage-build/src/run.rs\<close>, \<open>prebuilt.rs\<close>). The parsed \<open>Cargo.toml\<close> and the existence of files are
  parameters, as is the template engine.

  Main results: the target list of a run is duplicate-free and holds exactly the triples of the entries that
  produce something; it is the union of what the build stage goes on to build and of the targets of skipped entries
  whenever no entry has an \<open>ignore\<close> list of its own; the name of an archive's asset is that of a binary it packs.
\<close>

text \<open>The parts of a parsed manifest the probe reads: the \<open>[[bin]]\<close> tables as name and path, and the package name.\<close>

record cargo_doc =
  bin_tables :: "(string option \<times> string option) list option"
  package_name :: "string option"

record crate_fs =
  cargo_toml :: "string \<Rightarrow> cargo_doc option"
  file_exists :: "string \<Rightarrow> bool"

text \<open>The last component of a manifest path, \<open>Path::file_name\<close>.\<close>

definition path_leaf :: "string \<Rightarrow> string option" where
  "path_leaf p = (let c = last (split_char CHR ''/'' p) in if c = [] \<or> c = ''..'' then None else Some c)"

definition bins_of :: "cargo_doc option \<Rightarrow> (string option \<times> string option) list" where
  "bins_of doc = (case Option.bind doc bin_tables of Some ts \<Rightarrow> ts | None \<Rightarrow> [])"

definition crate_declares_bin :: "crate_fs \<Rightarrow> string \<Rightarrow> string \<Rightarrow> bool" where
  "crate_declares_bin fs path wanted =
     (let doc = cargo_toml fs path; stem_file = wanted @ ''.rs''
      in if list_ex (\<lambda>(name, _). name = Some wanted) (bins_of doc) then True
         else if file_exists fs (path @ ''/src/main.rs'') \<and> Option.bind doc package_name = Some wanted then True
         else if file_exists fs (path @ ''/src/bin/'' @ stem_file)
              then \<not> list_ex (\<lambda>(name, p). name \<noteq> Some wanted \<and> Option.bind p path_leaf = Some stem_file) (bins_of doc)
         else False)"

definition default_build :: build_config where
  "default_build =
     \<lparr>build_id = None, build_binary = None, builder = None, build_targets = None, build_skip = None,
      build_ignores = None\<rparr>"

definition binary_or_crate_name :: "crate_config \<Rightarrow> build_config \<Rightarrow> string" where
  "binary_or_crate_name krate b = (case build_binary b of Some n \<Rightarrow> n | None \<Rightarrow> crate_name krate)"

definition declares_own_bin :: "crate_fs \<Rightarrow> crate_config \<Rightarrow> bool" where
  "declares_own_bin fs krate = crate_declares_bin fs (crate_path krate) (crate_name krate)"

definition planned_builds :: "crate_fs \<Rightarrow> crate_config \<Rightarrow> build_config list option" where
  "planned_builds fs krate =
     (let synthesized =
        (if declares_own_bin fs krate
         then Some [default_build\<lparr>build_binary := Some (binary_or_crate_name krate default_build)\<rparr>] else None)
      in case builds krate of
           Some b \<Rightarrow> if b \<noteq> [] then Some b else synthesized
         | None \<Rightarrow> synthesized)"

definition build_produces :: "crate_fs \<Rightarrow> crate_config \<Rightarrow> build_config \<Rightarrow> bool" where
  "build_produces fs krate b \<longleftrightarrow>
     builder b = Some Prebuilt \<or> build_binary b \<noteq> None \<or> declares_own_bin fs krate"

datatype build_id_source = Explicit string | BinaryFallback string

fun raw_id :: "build_id_source \<Rightarrow> string" where
  "raw_id (Explicit s) = s"
| "raw_id (BinaryFallback s) = s"

definition static_build_id :: "crate_config \<Rightarrow> build_config \<Rightarrow> build_id_source" where
  "static_build_id krate b =
     (case build_id b of Some i \<Rightarrow> Explicit i | None \<Rightarrow> BinaryFallback (binary_or_crate_name krate b))"

record crate_build_targets =
  cbt_id :: build_id_source
  cbt_binary :: string
  cbt_targets :: "string list"

definition crate_build_target_entries ::
  "crate_fs \<Rightarrow> crate_config \<Rightarrow> string list \<Rightarrow> (build_config \<Rightarrow> bool) \<Rightarrow> crate_build_targets list" where
  "crate_build_target_entries fs krate default_targets is_skipped =
     (case planned_builds fs krate of
        None \<Rightarrow> []
      | Some bs \<Rightarrow>
          map (\<lambda>b. \<lparr>cbt_id = static_build_id krate b, cbt_binary = binary_or_crate_name krate b,
                    cbt_targets = (case build_targets b of Some ts \<Rightarrow> ts | None \<Rightarrow> default_targets)\<rparr>)
            (filter (\<lambda>b. build_produces fs krate b \<and> \<not> is_skipped b) bs))"

definition crate_target_list :: "crate_fs \<Rightarrow> crate_config \<Rightarrow> string list \<Rightarrow> (build_config \<Rightarrow> bool) \<Rightarrow> string list" where
  "crate_target_list fs krate default_targets is_skipped =
     foldl (\<lambda>out e. union_into out (cbt_targets e)) []
       (crate_build_target_entries fs krate default_targets is_skipped)"

definition crate_primary_binary_name :: "crate_fs \<Rightarrow> crate_config \<Rightarrow> (build_config \<Rightarrow> bool) \<Rightarrow> string" where
  "crate_primary_binary_name fs krate is_skipped =
     (case Option.bind (planned_builds fs krate) (List.find (\<lambda>b. build_produces fs krate b \<and> \<not> is_skipped b)) of
        Some b \<Rightarrow> binary_or_crate_name krate b
      | None \<Rightarrow> binary_or_crate_name krate default_build)"

definition archive_selects_id :: "string \<Rightarrow> string list option \<Rightarrow> bool" where
  "archive_selects_id i archive_ids =
     (case archive_ids of None \<Rightarrow> True | Some ids \<Rightarrow> ids = [] \<or> i \<in> set ids)"

definition archive_packs_binary :: "string \<Rightarrow> string list option \<Rightarrow> bool" where
  "archive_packs_binary binary archive_binaries =
     (case archive_binaries of None \<Rightarrow> True | Some names \<Rightarrow> binary \<in> set names)"

definition try_build_is_skipped :: "templates \<Rightarrow> build_config \<Rightarrow> (string, bool) result" where
  "try_build_is_skipped tm b =
     (case build_skip b of Some s \<Rightarrow> try_evaluates_to_true tm s | None \<Rightarrow> Inr False)"

definition build_is_skipped :: "templates \<Rightarrow> build_config \<Rightarrow> bool" where
  "build_is_skipped tm b = (case try_build_is_skipped tm b of Inr s \<Rightarrow> s | Inl _ \<Rightarrow> False)"

definition rendered_or_raw :: "templates \<Rightarrow> string \<Rightarrow> string" where
  "rendered_or_raw tm s = (case render tm s of Inr r \<Rightarrow> r | Inl _ \<Rightarrow> s)"

definition entry_id :: "templates \<Rightarrow> crate_build_targets \<Rightarrow> string" where
  "entry_id tm e = (case cbt_id e of Explicit raw \<Rightarrow> raw | BinaryFallback raw \<Rightarrow> rendered_or_raw tm raw)"

definition archive_target_binaries ::
  "crate_fs \<Rightarrow> templates \<Rightarrow> crate_config \<Rightarrow> string list option \<Rightarrow> string list option \<Rightarrow> string \<Rightarrow> string list \<Rightarrow> string list" where
  "archive_target_binaries fs tm krate archive_ids archive_binaries target default_targets =
     List.map_filter (\<lambda>e.
       let binary = rendered_or_raw tm (cbt_binary e)
       in if target \<in> set (cbt_targets e) \<and> archive_selects_id (entry_id tm e) archive_ids
             \<and> archive_packs_binary binary archive_binaries
          then Some binary else None)
       (crate_build_target_entries fs krate default_targets (build_is_skipped tm))"

definition archive_binary_name ::
  "crate_fs \<Rightarrow> templates \<Rightarrow> crate_config \<Rightarrow> string list option \<Rightarrow> string list option \<Rightarrow> string \<Rightarrow> string list \<Rightarrow> string" where
  "archive_binary_name fs tm krate archive_ids archive_binaries target default_targets =
     (case archive_target_binaries fs tm krate archive_ids archive_binaries target default_targets of
        b # _ \<Rightarrow> b
      | [] \<Rightarrow> binary_or_crate_name krate default_build)"

subsection \<open>The targets of a run\<close>

record build_defaults =
  def_targets :: "string list option"
  def_ignores :: "build_ignore list option"

definition effective_default_targets :: "build_defaults option \<Rightarrow> string list" where
  "effective_default_targets defaults =
     (case Option.bind defaults def_targets of
        Some ts \<Rightarrow> if ts \<noteq> [] then ts else default_target_list
      | None \<Rightarrow> default_target_list)"

definition is_target_ignored :: "string \<Rightarrow> build_ignore list \<Rightarrow> bool" where
  "is_target_ignored target ignores =
     (if ignores = [] then False
      else case map_target target of
             (os, arch) \<Rightarrow> list_ex (\<lambda>ig. ig_os ig = os \<and> ig_arch ig = arch) ignores)"

definition collect_build_targets ::
  "crate_fs \<Rightarrow> build_defaults option \<Rightarrow> crate_config list \<Rightarrow> workspace_config list option \<Rightarrow> string list \<Rightarrow> string list" where
  "collect_build_targets fs defaults crates workspaces selected =
     (let default_targets = effective_default_targets defaults;
          targets = foldl (\<lambda>out krate. union_into out (crate_target_list fs krate default_targets (\<lambda>_. False))) []
                      (selected_crates crates workspaces selected)
      in case Option.bind defaults def_ignores of
           Some ignores \<Rightarrow>
             filter (\<lambda>t. case map_target t of (os, arch) \<Rightarrow> \<not> list_ex (\<lambda>ig. ig_os ig = os \<and> ig_arch ig = arch) ignores) targets
         | None \<Rightarrow> targets)"

subsection \<open>Target selection of the build stage\<close>

text \<open>
  The targets the stage goes on to build for one entry: none if its \<open>skip\<close> evaluates to true (an expression that cannot be
  rendered is an error), else the entry's own list or the
  defaults (an imported binary has no defaults), then \<open>--single-target\<close>, the partial filter, and last the
  entry's \<open>ignore\<close> list or, if it has none, the defaults'.
\<close>

definition ignores_for :: "build_defaults option \<Rightarrow> build_config \<Rightarrow> build_ignore list" where
  "ignores_for defaults b =
     (case build_ignores b of
        Some ig \<Rightarrow> ig
      | None \<Rightarrow> (case Option.bind defaults def_ignores of Some ig \<Rightarrow> ig | None \<Rightarrow> []))"

definition known_targets :: "string list" where
  "known_targets =
    [''aarch64-unknown-linux-gnu'', ''i686-pc-windows-gnu'', ''i686-pc-windows-msvc'', ''i686-unknown-linux-gnu'',
      ''x86_64-apple-darwin'', ''x86_64-pc-windows-gnu'', ''x86_64-pc-windows-msvc'', ''x86_64-unknown-linux-gnu'',
      ''aarch64-apple-darwin'', ''aarch64-pc-windows-msvc'', ''aarch64-unknown-linux-musl'',
      ''arm-unknown-linux-gnueabi'', ''arm-unknown-linux-gnueabihf'', ''armv7-unknown-linux-gnueabihf'',
      ''loongarch64-unknown-linux-gnu'', ''loongarch64-unknown-linux-musl'', ''powerpc-unknown-linux-gnu'',
      ''powerpc64-unknown-linux-gnu'', ''powerpc64le-unknown-linux-gnu'', ''riscv64gc-unknown-linux-gnu'',
      ''s390x-unknown-linux-gnu'', ''x86_64-unknown-freebsd'', ''x86_64-unknown-illumos'',
      ''x86_64-unknown-linux-musl'', ''x86_64-unknown-netbsd'', ''aarch64-linux-android'',
      ''aarch64-unknown-linux-ohos'', ''armv7-linux-androideabi'', ''i686-linux-android'',
      ''i686-unknown-linux-musl'', ''thumbv7neon-unknown-linux-gnueabihf'', ''wasm32-unknown-unknown'',
      ''wasm32-wasi'', ''wasm32-wasip1'', ''wasm32-wasip2'', ''x86_64-linux-android'', ''x86_64-apple-ios'',
      ''aarch64-apple-ios'', ''aarch64-apple-ios-sim'', ''mips-unknown-linux-gnu'', ''mips-unknown-linux-musl'',
      ''mipsel-unknown-linux-gnu'', ''mipsel-unknown-linux-musl'', ''mips64-unknown-linux-gnuabi64'',
      ''mips64-unknown-linux-muslabi64'', ''mips64el-unknown-linux-gnuabi64'', ''mips64el-unknown-linux-muslabi64'',
      ''riscv32i-unknown-none-elf'', ''riscv32imac-unknown-none-elf'', ''riscv32imc-unknown-none-elf'',
      ''riscv64gc-unknown-linux-musl'', ''riscv64gc-unknown-none-elf'', ''riscv64imac-unknown-none-elf'',
      ''s390x-unknown-linux-musl'', ''powerpc-unknown-linux-gnuspe'', ''powerpc64le-unknown-linux-musl'',
      ''powerpc64-unknown-linux-musl'', ''sparc64-unknown-linux-gnu'', ''sparc-unknown-linux-gnu'',
      ''sparcv9-sun-solaris'', ''thumbv6m-none-eabi'', ''thumbv7em-none-eabi'', ''thumbv7em-none-eabihf'',
      ''thumbv7m-none-eabi'', ''thumbv7neon-linux-androideabi'', ''thumbv8m.base-none-eabi'',
      ''thumbv8m.main-none-eabi'', ''thumbv8m.main-none-eabihf'', ''i686-unknown-freebsd'',
      ''i686-unknown-linux-musl'', ''i586-unknown-linux-gnu'', ''i586-unknown-linux-musl'',
      ''arm-unknown-linux-musleabi'', ''arm-unknown-linux-musleabihf'', ''armv5te-unknown-linux-gnueabi'',
      ''armv5te-unknown-linux-musleabi'', ''armv7-unknown-linux-gnueabi'', ''armv7-unknown-linux-musleabi'',
      ''armv7-unknown-linux-musleabihf'', ''armv7-unknown-linux-ohos'', ''aarch64-apple-tvos'',
      ''aarch64-apple-watchos'', ''aarch64-unknown-freebsd'', ''x86_64-unknown-openbsd'',
      ''aarch64-unknown-openbsd'', ''x86_64-pc-solaris'', ''aarch64-unknown-fuchsia'', ''x86_64-unknown-fuchsia'',
      ''x86_64-unknown-redox'', ''x86_64-unknown-haiku'', ''x86_64-unknown-uefi'', ''aarch64-unknown-uefi'',
      ''i686-unknown-uefi'', ''aarch64-unknown-none'', ''aarch64-unknown-none-softfloat'', ''x86_64-unknown-none'']"

definition rfind_sub :: "string \<Rightarrow> string \<Rightarrow> nat option" where
  "rfind_sub s p = map_option (\<lambda>j. length s - j - length p) (find_sub (rev s) (rev p))"

definition strip_glibc_suffix :: "string \<Rightarrow> string \<times> bool" where
  "strip_glibc_suffix target =
     (case or_else (rfind_sub target ''gnu.'') (rfind_sub target ''musl.'') of
        Some idx \<Rightarrow>
          let start = idx + length (takeWhile (\<lambda>c. c \<noteq> CHR ''.'') (drop idx target))
          in (case drop (start + 1) target of
                c # _ \<Rightarrow> if is_ascii_digit c then (take start target, True) else (target, False)
              | [] \<Rightarrow> (target, False))
      | None \<Rightarrow> (target, False))"

definition validate_targets :: "string list \<Rightarrow> (string, unit) result" where
  "validate_targets targets =
     (case List.find (\<lambda>t. fst (strip_glibc_suffix t) \<notin> set known_targets) targets of
        None \<Rightarrow> Inr ()
      | Some t \<Rightarrow> Inl (''target '' @ quoted t @ '' is not in the known targets list and may be invalid; '' @
                       ''if this is a custom target, add it to your build config''))"

definition apply_partial :: "partial_target option \<Rightarrow> string list \<Rightarrow> string list" where
  "apply_partial partial ts = (case partial of Some p \<Rightarrow> filter_targets p ts | None \<Rightarrow> ts)"

definition entry_skip :: "templates \<Rightarrow> string \<Rightarrow> crate_config \<Rightarrow> build_config \<Rightarrow> (string, bool) result" where
  "entry_skip tm what krate b =
     (case try_build_is_skipped tm b of
        Inr should_skip \<Rightarrow> Inr should_skip
      | Inl e \<Rightarrow> Inl (''build: render skip template for '' @ what @ '' '' @
                      quoted (case build_id b of Some i \<Rightarrow> i | None \<Rightarrow> binary_or_crate_name krate b) @ '': '' @ e))"

text \<open>An entry that compiles: an empty list of targets skips the entry.\<close>

definition cargo_entry_targets ::
  "crate_fs \<Rightarrow> templates \<Rightarrow> build_defaults option \<Rightarrow> string option \<Rightarrow> partial_target option \<Rightarrow> crate_config \<Rightarrow> build_config \<Rightarrow>
   (string, string list) result" where
  "cargo_entry_targets fs tm defaults single partial krate b =
     (if build_binary b = None \<and> \<not> declares_own_bin fs krate then Inr []
      else case entry_skip tm ''build'' krate b of
        Inl e \<Rightarrow> Inl e
      | Inr True \<Rightarrow> Inr []
      | Inr False \<Rightarrow>
        (case apply_single_target single (crate_name krate) (binary_or_crate_name krate b)
                (case build_targets b of Some ts \<Rightarrow> ts | None \<Rightarrow> effective_default_targets defaults) of
           Inl e \<Rightarrow> Inl e
         | Inr ts \<Rightarrow>
             (case validate_targets (apply_partial partial ts) of
                Inl e \<Rightarrow> Inl e
              | Inr _ \<Rightarrow>
                  Inr (filter (\<lambda>t. \<not> is_target_ignored t (ignores_for defaults b)) (apply_partial partial ts)))))"

text \<open>An entry that imports a binary: \<open>--single-target\<close> fails also on an empty list.\<close>

definition prebuilt_entry_targets ::
  "templates \<Rightarrow> build_defaults option \<Rightarrow> string option \<Rightarrow> partial_target option \<Rightarrow> crate_config \<Rightarrow> build_config \<Rightarrow> (string, string list) result" where
  "prebuilt_entry_targets tm defaults single partial krate b =
     (case entry_skip tm ''prebuilt build'' krate b of
        Inl e \<Rightarrow> Inl e
      | Inr True \<Rightarrow> Inr []
      | Inr False \<Rightarrow>
     (let original = (case build_targets b of Some ts \<Rightarrow> ts | None \<Rightarrow> []);
          chosen =
            (case single of
               None \<Rightarrow> Inr original
             | Some s \<Rightarrow>
                 (case filter (\<lambda>t. t = s) original of
                    [] \<Rightarrow>
                      (case find_runtime_target s original of
                         Some m \<Rightarrow> Inr [m]
                       | None \<Rightarrow>
                           Inl (''--single-target: host triple '' @ quoted s @ '' is not in configured prebuilt targets for '' @
                                crate_name krate @ ''/'' @ binary_or_crate_name krate b @
                                '' (configured: ['' @ join_with '', '' original @ '']).''))
                  | kept \<Rightarrow> Inr kept))
      in case chosen of
           Inl e \<Rightarrow> Inl e
         | Inr ts \<Rightarrow> Inr (filter (\<lambda>t. \<not> is_target_ignored t (ignores_for defaults b)) (apply_partial partial ts))))"

definition stage_entry_targets ::
  "crate_fs \<Rightarrow> templates \<Rightarrow> build_defaults option \<Rightarrow> string option \<Rightarrow> partial_target option \<Rightarrow> crate_config \<Rightarrow> build_config \<Rightarrow>
   (string, string list) result" where
  "stage_entry_targets fs tm defaults single partial krate b =
     (if builder b = Some Prebuilt then prebuilt_entry_targets tm defaults single partial krate b
      else cargo_entry_targets fs tm defaults single partial krate b)"

section \<open>Results\<close>

lemma foldl_union_into:
  "set (foldl (\<lambda>out x. union_into out (f x)) acc xs) = set acc \<union> (\<Union>x \<in> set xs. set (f x))"
  "distinct acc \<Longrightarrow> distinct (foldl (\<lambda>out x. union_into out (f x)) acc xs)"
  by (induction xs arbitrary: acc) (auto simp: distinct_union_into)

definition entry_targets :: "string list \<Rightarrow> build_config \<Rightarrow> string list" where
  "entry_targets default_targets b = (case build_targets b of Some ts \<Rightarrow> ts | None \<Rightarrow> default_targets)"

text \<open>The entries of a crate that produce something.\<close>

definition producing_builds :: "crate_fs \<Rightarrow> crate_config \<Rightarrow> build_config list" where
  "producing_builds fs krate =
     filter (build_produces fs krate) (case planned_builds fs krate of Some bs \<Rightarrow> bs | None \<Rightarrow> [])"

lemma crate_target_list_set:
  "set (crate_target_list fs krate dt skipped) =
     (\<Union>b \<in> set (filter (\<lambda>b. \<not> skipped b) (producing_builds fs krate)). set (entry_targets dt b))"
proof (cases "planned_builds fs krate")
  case None
  then show ?thesis
    by (simp add: crate_target_list_def crate_build_target_entries_def producing_builds_def)
next
  case (Some bs)
  then show ?thesis
    by (auto simp: crate_target_list_def crate_build_target_entries_def producing_builds_def foldl_union_into
        entry_targets_def)
qed

lemma crate_target_list_distinct: "distinct (crate_target_list fs krate dt skipped)"
  by (simp add: crate_target_list_def foldl_union_into)

definition default_ignored :: "build_defaults option \<Rightarrow> string \<Rightarrow> bool" where
  "default_ignored defaults t =
     is_target_ignored t (case Option.bind defaults def_ignores of Some ig \<Rightarrow> ig | None \<Rightarrow> [])"

lemma is_target_ignored_iff:
  "is_target_ignored t igs \<longleftrightarrow> (\<exists>ig \<in> set igs. (ig_os ig, ig_arch ig) = map_target t)"
  by (auto simp: is_target_ignored_def list_ex_iff split: prod.splits)

lemma collect_build_targets_set:
  "set (collect_build_targets fs defaults crates workspaces selected) =
     {t. \<exists>krate \<in> set (selected_crates crates workspaces selected). \<exists>b \<in> set (producing_builds fs krate).
           t \<in> set (entry_targets (effective_default_targets defaults) b) \<and> \<not> default_ignored defaults t}"
  by (auto simp: collect_build_targets_def Let_def foldl_union_into crate_target_list_set default_ignored_def
      is_target_ignored_def list_ex_iff split: option.splits prod.splits)

lemma collect_build_targets_distinct: "distinct (collect_build_targets fs defaults crates workspaces selected)"
  by (auto simp: collect_build_targets_def Let_def foldl_union_into split: option.splits)

subsection \<open>The build stage\<close>

lemma stage_entry_partial:
  "stage_entry_targets fs tm defaults None None krate b = Inr ts \<Longrightarrow>
   stage_entry_targets fs tm defaults None (Some p) krate b = Inr (filter_targets p ts)"
proof -
  have valid: "validate_targets ts = Inr u \<Longrightarrow> validate_targets (filter P ts) = Inr ()" for ts P u
    by (auto simp: validate_targets_def find_None_iff split: option.splits)
  assume "stage_entry_targets fs tm defaults None None krate b = Inr ts"
  then show ?thesis
    by (auto simp: stage_entry_targets_def prebuilt_entry_targets_def cargo_entry_targets_def apply_single_target_def
        apply_partial_def filter_targets_def valid Let_def conj_commute split: if_splits sum.splits bool.splits)
qed

lemma entry_skip_Inr: "entry_skip tm what krate b = Inr s \<longleftrightarrow> try_build_is_skipped tm b = Inr s"
  by (auto simp: entry_skip_def split: sum.splits)

lemma skipped_Inr: "try_build_is_skipped tm b = Inr s \<Longrightarrow> build_is_skipped tm b = s"
  by (simp add: build_is_skipped_def)

text \<open>The entries the configuration validation admits: an imported binary names its targets.\<close>

definition builds_valid :: "crate_fs \<Rightarrow> crate_config \<Rightarrow> bool" where
  "builds_valid fs krate \<longleftrightarrow>
     list_all (\<lambda>b. builder b = Some Prebuilt \<longrightarrow> build_targets b \<noteq> None) (producing_builds fs krate)"

lemma stage_entry_full:
  assumes "stage_entry_targets fs tm defaults None None krate b = Inr ts"
    and "b \<in> set (producing_builds fs krate)" and "builds_valid fs krate"
  shows "set ts = (if build_is_skipped tm b then {}
     else {t \<in> set (entry_targets (effective_default_targets defaults) b). \<not> is_target_ignored t (ignores_for defaults b)})"
proof -
  have p: "build_produces fs krate b" using assms(2) by (auto simp: producing_builds_def)
  from assms(3,2) have v: "builder b = Some Prebuilt \<longrightarrow> build_targets b \<noteq> None"
    by (auto simp: builds_valid_def list_all_iff)
  have "\<exists>s. try_build_is_skipped tm b = Inr s"
  proof (cases "try_build_is_skipped tm b")
    case (Inl e)
    with assms(1) p show ?thesis
      by (auto simp: stage_entry_targets_def prebuilt_entry_targets_def cargo_entry_targets_def entry_skip_def
          build_produces_def split: if_splits)
  qed simp
  then obtain skip where skip: "try_build_is_skipped tm b = Inr skip" by blast
  then have what: "entry_skip tm what krate b = Inr skip" for what by (simp add: entry_skip_Inr)
  show ?thesis
  proof (cases "builder b = Some Prebuilt")
    case True
    with v assms(1) what skipped_Inr [OF skip] show ?thesis
      by (cases skip) (auto simp: stage_entry_targets_def prebuilt_entry_targets_def entry_targets_def apply_partial_def)
  next
    case False
    with p have "\<not> (build_binary b = None \<and> \<not> declares_own_bin fs krate)" by (auto simp: build_produces_def)
    with False assms(1) what skipped_Inr [OF skip] show ?thesis
      by (cases skip) (auto simp: stage_entry_targets_def cargo_entry_targets_def entry_targets_def apply_single_target_def
          apply_partial_def split: sum.splits option.splits)
  qed
qed

text \<open>
  C16. The target list that the command line reports, filters and splits by is duplicate-free and consists of what the
  build stage goes on to build for the selected crates together with the targets of the entries it leaves out because
  their \<open>skip\<close> is true, for which it builds nothing; so it is exactly what is built when no entry is skipped. This
  holds when the stage plans every entry without an error, every entry passes validation and none has an \<open>ignore\<close> list
  of its own.
\<close>

theorem collected_targets_are_built:
  assumes "\<forall>krate \<in> set (selected_crates crates workspaces selected).
             builds_valid fs krate \<and>
             (\<forall>b \<in> set (producing_builds fs krate).
                build_ignores b = None \<and> stage_entry_targets fs tm defaults None None krate b = Inr (plan krate b))"
  shows "distinct (collect_build_targets fs defaults crates workspaces selected) \<and>
         set (collect_build_targets fs defaults crates workspaces selected) =
           (\<Union>krate \<in> set (selected_crates crates workspaces selected).
              \<Union>b \<in> set (producing_builds fs krate).
                if build_is_skipped tm b
                then {t \<in> set (entry_targets (effective_default_targets defaults) b). \<not> default_ignored defaults t}
                else set (plan krate b)) \<and>
         (\<forall>krate \<in> set (selected_crates crates workspaces selected).
            \<forall>b \<in> set (producing_builds fs krate). build_is_skipped tm b \<longrightarrow> plan krate b = [])"
proof -
  have sets: "set (plan krate b) = (if build_is_skipped tm b then {}
      else {t \<in> set (entry_targets (effective_default_targets defaults) b). \<not> default_ignored defaults t})"
    if "krate \<in> set (selected_crates crates workspaces selected)" "b \<in> set (producing_builds fs krate)" for krate b
  proof -
    from that assms have "ignores_for defaults b = (case Option.bind defaults def_ignores of Some ig \<Rightarrow> ig | None \<Rightarrow> [])"
      by (simp add: ignores_for_def)
    with that assms stage_entry_full [of fs tm defaults krate b "plan krate b"] show ?thesis
      by (simp add: default_ignored_def)
  qed
  have "plan krate b = []"
    if "krate \<in> set (selected_crates crates workspaces selected)" "b \<in> set (producing_builds fs krate)"
      "build_is_skipped tm b" for krate b
    using sets [OF that(1,2)] that(3) by simp
  moreover have "set (collect_build_targets fs defaults crates workspaces selected) =
      (\<Union>krate \<in> set (selected_crates crates workspaces selected). \<Union>b \<in> set (producing_builds fs krate).
         {t \<in> set (entry_targets (effective_default_targets defaults) b). \<not> default_ignored defaults t})"
    by (auto simp: collect_build_targets_set)
  moreover have "(if build_is_skipped tm b
        then {t \<in> set (entry_targets (effective_default_targets defaults) b). \<not> default_ignored defaults t}
        else set (plan krate b)) =
      {t \<in> set (entry_targets (effective_default_targets defaults) b). \<not> default_ignored defaults t}"
    if "krate \<in> set (selected_crates crates workspaces selected)" "b \<in> set (producing_builds fs krate)" for krate b
    using sets [OF that] by simp
  ultimately show ?thesis
    by (simp add: collect_build_targets_distinct cong: SUP_cong)
qed

definition no_files :: crate_fs where
  "no_files = \<lparr>cargo_toml = (\<lambda>_. None), file_exists = (\<lambda>_. False)\<rparr>"

definition one_target_build :: build_config where
  "one_target_build = default_build\<lparr>build_binary := Some ''cli'', build_targets := Some [''x86_64-unknown-linux-gnu'']\<rparr>"

definition one_build_crate :: "build_config \<Rightarrow> crate_config" where
  "one_build_crate b = \<lparr>crate_name = ''cli'', crate_path = ''cli'', depends_on = None, publish_cfg = None, builds = Some [b],
     crate_tag_template = None\<rparr>"

lemma one_build_crate_simps:
  "selected_crates [one_build_crate b] None [] = [one_build_crate b]"
  "producing_builds no_files (one_build_crate b) = (if build_produces no_files (one_build_crate b) b then [b] else [])"
  by (simp_all add: selected_crates_def crate_universe_def crate_universe_walk_def crate_is_selected_def
      producing_builds_def planned_builds_def one_build_crate_def)

definition plain_templates :: templates where
  "plain_templates = \<lparr>render = Inr, find_stale_typed_compare = (\<lambda>_. None)\<rparr>"

lemma one_target_build_planned:
  "build_produces no_files (one_build_crate one_target_build) one_target_build"
  "stage_entry_targets no_files plain_templates None None None (one_build_crate one_target_build) one_target_build
     = Inr [''x86_64-unknown-linux-gnu'']"
  "build_ignores one_target_build = None"
  "builds_valid no_files (one_build_crate one_target_build)"
  "\<not> build_is_skipped plain_templates one_target_build"
  by (simp_all add: build_produces_def one_target_build_def default_build_def) code_simp+

theorem collected_targets_are_built_witness:
  "set (collect_build_targets no_files None [one_build_crate one_target_build] None []) = {''x86_64-unknown-linux-gnu''}"
  using collected_targets_are_built [of "[one_build_crate one_target_build]" None "[]" no_files plain_templates None
      "\<lambda>_ _. [''x86_64-unknown-linux-gnu'']"]
  by (simp add: one_build_crate_simps one_target_build_planned)

text \<open>
  An entry whose own \<open>ignore\<close> list replaces the defaults' is built for a target that the reported list leaves out.
\<close>

lemma own_ignore_list_diverges:
  "let defaults = Some \<lparr>def_targets = None, def_ignores = Some [\<lparr>ig_os = ''linux'', ig_arch = ''amd64''\<rparr>]\<rparr>;
       b = one_target_build\<lparr>build_ignores := Some []\<rparr>
   in stage_entry_targets no_files plain_templates defaults None None (one_build_crate b) b = Inr [''x86_64-unknown-linux-gnu''] \<and>
      collect_build_targets no_files defaults [one_build_crate b] None [] = []"
  by code_simp

text \<open>An entry with \<open>skip: true\<close> is reported although nothing is built for it.\<close>

lemma skipped_entry_reported:
  "let b = one_target_build\<lparr>build_skip := Some (BoolV True)\<rparr>
   in stage_entry_targets no_files plain_templates None None None (one_build_crate b) b = Inr [] \<and>
      collect_build_targets no_files None [one_build_crate b] None [] = [''x86_64-unknown-linux-gnu'']"
  by code_simp

subsection \<open>Archive names\<close>

text \<open>
  The asset of an archive entry is named after a binary the entry packs for that target, one that a released build
  of the crate compiles for it, and only if there is none after the crate.
\<close>

definition archive_packs :: "crate_fs \<Rightarrow> templates \<Rightarrow> crate_config \<Rightarrow> string list option \<Rightarrow> string list option \<Rightarrow> string \<Rightarrow> string list \<Rightarrow> build_config \<Rightarrow> bool" where
  "archive_packs fs tm krate ids bins target dt b \<longleftrightarrow>
     b \<in> set (producing_builds fs krate) \<and> \<not> build_is_skipped tm b \<and> target \<in> set (entry_targets dt b) \<and>
     archive_selects_id (case build_id b of Some i \<Rightarrow> i | None \<Rightarrow> rendered_or_raw tm (binary_or_crate_name krate b)) ids \<and>
     archive_packs_binary (rendered_or_raw tm (binary_or_crate_name krate b)) bins"

lemma set_map_filter_ex: "set (List.map_filter f xs) = {y. \<exists>x \<in> set xs. f x = Some y}"
  by (force simp: List.map_filter_def)

definition entry_of :: "crate_config \<Rightarrow> string list \<Rightarrow> build_config \<Rightarrow> crate_build_targets" where
  "entry_of krate dt b = \<lparr>cbt_id = static_build_id krate b, cbt_binary = binary_or_crate_name krate b,
                          cbt_targets = entry_targets dt b\<rparr>"

lemma crate_build_target_entries_map:
  "crate_build_target_entries fs krate dt skipped =
     map (entry_of krate dt) (filter (\<lambda>b. \<not> skipped b) (producing_builds fs krate))"
  by (simp add: crate_build_target_entries_def producing_builds_def entry_of_def entry_targets_def fun_eq_iff
      split: option.splits)

lemma entry_of_simps [simp]:
  "cbt_binary (entry_of krate dt b) = binary_or_crate_name krate b"
  "cbt_targets (entry_of krate dt b) = entry_targets dt b"
  "entry_id tm (entry_of krate dt b) =
     (case build_id b of Some i \<Rightarrow> i | None \<Rightarrow> rendered_or_raw tm (binary_or_crate_name krate b))"
  by (simp_all add: entry_of_def entry_id_def static_build_id_def split: option.splits)

lemma archive_target_binaries_set:
  "set (archive_target_binaries fs tm krate ids bins target dt) =
     {rendered_or_raw tm (binary_or_crate_name krate b) | b. archive_packs fs tm krate ids bins target dt b}"
  unfolding archive_target_binaries_def crate_build_target_entries_map set_map_filter_ex archive_packs_def
  by (auto simp: Let_def split: if_splits)

theorem archive_name_is_packed:
  "if \<exists>b. archive_packs fs tm krate ids bins target dt b
   then \<exists>b. archive_packs fs tm krate ids bins target dt b \<and>
            archive_binary_name fs tm krate ids bins target dt = rendered_or_raw tm (binary_or_crate_name krate b)
   else archive_binary_name fs tm krate ids bins target dt = crate_name krate"
proof (cases "archive_target_binaries fs tm krate ids bins target dt")
  case Nil
  with archive_target_binaries_set [of fs tm krate ids bins target dt] show ?thesis
    by (auto simp: archive_binary_name_def binary_or_crate_name_def default_build_def)
next
  case (Cons n ns)
  then have "n \<in> set (archive_target_binaries fs tm krate ids bins target dt)" by simp
  with Cons show ?thesis unfolding archive_target_binaries_set by (auto simp: archive_binary_name_def)
qed

end
