(* ===== verification/Redact.thy ===== *)
theory Redact
  imports Prelude
begin

section \<open>Secret redaction (\<open>core/src/redact.rs\<close>)\<close>

text \<open>
  Which environment entries are secrets, the one-pass masking of a text, the redacter for text that
  arrives in chunks, and the stripping of URL credentials and authorization headers. Texts are
  ASCII: a byte offset is a position, \<open>to_uppercase\<close> and \<open>is_alphanumeric\<close> are the ASCII ones.
  The scan of \<open>mask_from\<close> recurses on the text that is left; it advances by the length of the value it
  masks, which is positive because empty values are never secrets.

  Main results: masking keeps no character at which a long secret starts and changes nothing else;
  feeding a text in chunks of any shape emits exactly what masking it whole gives, with a withheld
  part no longer than the longest secret; after stripping, no URL authority carries userinfo.
\<close>

subsection \<open>Secrets\<close>

definition to_ascii_upper :: "char \<Rightarrow> char" where
  "to_ascii_upper c = (if 97 \<le> code_of c \<and> code_of c \<le> 122 then char_of (code_of c - 32) else c)"

definition secret_key_suffixes :: "string list" where
  "secret_key_suffixes = [''_KEY'', ''_SECRET'', ''_PASSWORD'', ''_TOKEN'', ''_PASSPHRASE'']"

definition secret_key_substrings :: "string list" where
  "secret_key_substrings = [''CREDENTIAL'', ''APIKEY'']"

definition secret_value_prefixes :: "string list" where
  "secret_value_prefixes =
     [''sk-'', ''ghp_'', ''ghs_'', ''gho_'', ''ghu_'', ''github_pat_'', ''dckr_pat_'', ''glpat-'', ''AIza'', ''ya29.'', ''xox'']"

definition is_boolean_shape :: "string \<Rightarrow> bool" where
  "is_boolean_shape value =
     (to_ascii_lowercase value \<in> {''true'', ''false'', ''yes'', ''no'', ''on'', ''off'', ''0'', ''1''})"

definition is_secret_env :: "string \<Rightarrow> string \<Rightarrow> bool" where
  "is_secret_env key value =
     (if value = [] then False
      else let key_upper = map to_ascii_upper key
           in if \<not> is_boolean_shape value
                 \<and> (list_ex (ends_with key_upper) secret_key_suffixes \<or> list_ex (contains key_upper) secret_key_substrings)
              then True
              else list_ex (starts_with value) secret_value_prefixes)"

definition is_word_char :: "char \<Rightarrow> bool" where
  "is_word_char c = (is_ascii_alphanumeric c \<or> c = CHR ''_'')"

definition always_mask_len :: nat where "always_mask_len = 8"

definition first_char :: "string \<Rightarrow> char option" where
  "first_char s = (case s of [] \<Rightarrow> None | c # _ \<Rightarrow> Some c)"

definition last_char :: "string \<Rightarrow> char option" where
  "last_char s = (if s = [] then None else Some (last s))"

definition edge_ok :: "char option \<Rightarrow> char option \<Rightarrow> bool" where
  "edge_ok edge value_edge =
     (\<not> (case value_edge of Some c \<Rightarrow> is_word_char c | None \<Rightarrow> False)
      \<or> \<not> (case edge of Some c \<Rightarrow> is_word_char c | None \<Rightarrow> False))"

definition stands_alone :: "char option \<Rightarrow> string \<Rightarrow> char option \<Rightarrow> bool" where
  "stands_alone before value after =
     (if length value \<ge> always_mask_len then True
      else edge_ok before (first_char value) \<and> edge_ok after (last_char value))"

subsection \<open>Masking\<close>

function mask_from ::
    "(string \<Rightarrow> (string \<times> string) option) \<Rightarrow> (string \<Rightarrow> bool) \<Rightarrow> char option \<Rightarrow> string \<Rightarrow> string \<times> string \<times> char option" where
  "mask_from secrets stop prev [] = ([], [], prev)"
| "mask_from secrets stop prev (c # cs) =
     (if stop (c # cs) then ([], c # cs, prev)
      else case secrets (c # cs) of
             Some (key, value) \<Rightarrow>
               if stands_alone prev value (first_char (drop (length value) (c # cs)))
               then (case mask_from secrets stop (last_char value) (drop (length value - 1) cs) of
                       (out, rest, p) \<Rightarrow> (CHR 0x24 # key @ out, rest, p))
               else (case mask_from secrets stop (Some c) cs of (out, rest, p) \<Rightarrow> (c # out, rest, p))
           | None \<Rightarrow> (case mask_from secrets stop (Some c) cs of (out, rest, p) \<Rightarrow> (c # out, rest, p)))"
  by pat_completeness auto

termination mask_from
  by (relation "measure (\<lambda>(_, _, _, s). length s)") auto

definition secret_pair_cmp :: "string \<times> string \<Rightarrow> string \<times> string \<Rightarrow> ordering" where
  "secret_pair_cmp a b = then_cmp (cmp_of (length (snd b)) (length (snd a))) (cmp_of (fst a) (fst b))"

definition secret_pairs :: "(string \<times> string) list \<Rightarrow> (string \<times> string) list" where
  "secret_pairs env = sort_by secret_pair_cmp (filter (\<lambda>(k, v). v \<noteq> [] \<and> is_secret_env k v) env)"

definition match_at :: "(string \<times> string) list \<Rightarrow> string \<Rightarrow> (string \<times> string) option" where
  "match_at secrets s = List.find (\<lambda>(k, v). starts_with s v) secrets"

definition redact_string :: "string \<Rightarrow> (string \<times> string) list \<Rightarrow> string" where
  "redact_string input env =
     (let secrets = secret_pairs env
      in if secrets = [] then input
         else fst (mask_from (match_at secrets) (\<lambda>_. False) None input))"

subsection \<open>The stream redacter\<close>

record stream_redacter =
  secrets :: "(string \<times> string) list"
  max_len :: nat
  pending :: string
  prev :: "char option"

definition new_redacter :: "(string \<times> string) list \<Rightarrow> stream_redacter" where
  "new_redacter env =
     (let ss = secret_pairs env
      in \<lparr>secrets = ss, max_len = fold max (map (\<lambda>(k, v). length v) ss) 0, pending = [], prev = None\<rparr>)"

definition is_incomplete_secret :: "stream_redacter \<Rightarrow> string \<Rightarrow> bool" where
  "is_incomplete_secret self s =
     (length s \<le> max_len self \<and> list_ex (\<lambda>(k, v). length v \<ge> length s \<and> starts_with v s) (secrets self))"

definition has_incomplete_suffix :: "stream_redacter \<Rightarrow> string \<Rightarrow> bool" where
  "has_incomplete_suffix self s =
     (if max_len self = 0 then False
      else let start = length s - max_len self
           in list_ex (\<lambda>i. is_incomplete_secret self (drop i s)) (filter (\<lambda>i. i \<ge> start) [0..<length s]))"

definition replace_all :: "stream_redacter \<Rightarrow> string \<Rightarrow> char option \<Rightarrow> string \<times> char option" where
  "replace_all self s p =
     (case mask_from (match_at (secrets self)) (\<lambda>_. False) p s of (out, _, p) \<Rightarrow> (out, p))"

definition replace_partial :: "stream_redacter \<Rightarrow> string \<Rightarrow> string \<times> string \<times> char option" where
  "replace_partial self s =
     (if \<not> has_incomplete_suffix self s
      then (case replace_all self s (prev self) of (out, p) \<Rightarrow> (out, [], p))
      else mask_from (match_at (secrets self)) (is_incomplete_secret self) (prev self) s)"

definition push :: "string \<Rightarrow> stream_redacter \<Rightarrow> string \<times> stream_redacter" where
  "push chunk self =
     (if secrets self = [] then (chunk, self)
      else case replace_partial self (pending self @ chunk) of
             (out, pend, p) \<Rightarrow> (out, self\<lparr>pending := pend, prev := p\<rparr>))"

definition flush :: "stream_redacter \<Rightarrow> string \<times> stream_redacter" where
  "flush self =
     (if pending self = [] then ([], self)
      else case replace_all self (pending self) (prev self) of
             (out, p) \<Rightarrow> (out, self\<lparr>pending := [], prev := p\<rparr>))"

subsection \<open>URL credentials and authorization headers\<close>

definition ends_authority :: "char \<Rightarrow> bool" where
  "ends_authority c \<longleftrightarrow> c = CHR ''/'' \<or> c = CHR ''?'' \<or> c = CHR ''#'' \<or> is_whitespace c"

text \<open>The text after the last \<open>@\<close>, if there is one.\<close>

definition after_last_at :: "string \<Rightarrow> string option" where
  "after_last_at authority =
     (if CHR ''@'' \<in> set authority then Some (rev (takeWhile (\<lambda>c. c \<noteq> CHR ''@'') (rev authority))) else None)"

definition redact_authority :: "string \<Rightarrow> string" where
  "redact_authority authority =
     (case after_last_at authority of Some host \<Rightarrow> ''<redacted>@'' @ host | None \<Rightarrow> authority)"

function redact_url_credentials :: "string \<Rightarrow> string" where
  "redact_url_credentials rest =
     (case find_sub rest ''://'' of
        None \<Rightarrow> rest
      | Some scheme_end \<Rightarrow>
          let after_scheme = drop (scheme_end + 3) rest
          in take (scheme_end + 3) rest @ redact_authority (takeWhile (\<lambda>c. \<not> ends_authority c) after_scheme)
             @ redact_url_credentials (dropWhile (\<lambda>c. \<not> ends_authority c) after_scheme))"
  by auto

lemma find_sub_shrinks:
  assumes "find_sub rest ''://'' = Some i"
  shows "length (dropWhile P (drop (i + 3) rest)) < length rest"
proof -
  obtain r where "rest = take i rest @ ''://'' @ r" using find_sub_Some [OF assms] by blast
  then have "length rest > 0" by (metis append_is_Nil_conv length_greater_0_conv list.simps(3))
  then have "length (drop (i + 3) rest) < length rest" by simp
  then show ?thesis using length_dropWhile_le [of P "drop (i + 3) rest"] by linarith
qed

termination redact_url_credentials
  by (relation "measure length") (auto intro: find_sub_shrinks)

declare redact_url_credentials.simps [simp del]

definition with_env :: "string \<Rightarrow> (string \<times> string) list \<Rightarrow> string" where
  "with_env input env = redact_string (redact_url_credentials input) env"

definition match_prefix_ignore_case :: "string \<Rightarrow> string \<Rightarrow> bool" where
  "match_prefix_ignore_case kw s \<longleftrightarrow> length kw \<le> length s \<and> to_ascii_lowercase (take (length kw) s) = to_ascii_lowercase kw"

definition match_bearer_prefix :: "string \<Rightarrow> nat option" where
  "match_bearer_prefix s = (if match_prefix_ignore_case ''Bearer '' s then Some 7 else None)"

definition match_basic_prefix :: "string \<Rightarrow> nat option" where
  "match_basic_prefix s = (if match_prefix_ignore_case ''Basic '' s then Some 6 else None)"

definition match_authorization_prefix :: "string \<Rightarrow> nat option" where
  "match_authorization_prefix s = (if match_prefix_ignore_case ''Authorization:'' s then Some 14 else None)"

definition token_boundary :: "char option \<Rightarrow> bool" where
  "token_boundary before =
     (case before of
        None \<Rightarrow> True
      | Some c \<Rightarrow> c \<in> set ([CHR '' '', CHR 0x09, CHR '':'', CHR '','', CHR '';'', CHR ''('', CHR 0x22, CHR 0x27, CHR ''<'', CHR 0x0A, CHR 0x0D]))"

definition is_ascii_whitespace :: "char \<Rightarrow> bool" where
  "is_ascii_whitespace c \<longleftrightarrow> c \<in> {CHR '' '', CHR 0x09, CHR 0x0A, CHR 0x0C, CHR 0x0D}"

text \<open>The scan at position \<open>i\<close>: \<open>before\<close> is the input's character at \<open>i - 1\<close>.\<close>

function scan_tokens :: "char option \<Rightarrow> string \<Rightarrow> string" where
  "scan_tokens before [] = []"
| "scan_tokens before (c # cs) =
     (let s = c # cs;
          skip = (\<lambda>n stop. let skipped = take n s @ takeWhile (\<lambda>c. \<not> stop c) (drop n s) in
                    (last_char skipped, drop (length skipped) s))
      in case match_authorization_prefix s of
           Some n \<Rightarrow>
             (case skip n (\<lambda>c. c = CHR 0x0A \<or> c = CHR 0x0D) of
                (b, rest) \<Rightarrow> ''Authorization: <redacted>'' @ scan_tokens b rest)
         | None \<Rightarrow>
             (case (if token_boundary before then match_bearer_prefix s else None) of
                Some n \<Rightarrow>
                  (case skip n is_ascii_whitespace of (b, rest) \<Rightarrow> ''Bearer <redacted>'' @ scan_tokens b rest)
              | None \<Rightarrow>
                  (case (if token_boundary before then match_basic_prefix s else None) of
                     Some n \<Rightarrow>
                       (case skip n is_ascii_whitespace of (b, rest) \<Rightarrow> ''Basic <redacted>'' @ scan_tokens b rest)
                   | None \<Rightarrow> c # scan_tokens (Some c) cs)))"
  by pat_completeness auto

termination scan_tokens
  by (relation "measure (\<lambda>(_, s). length s)")
    (auto simp: Let_def match_authorization_prefix_def match_bearer_prefix_def match_basic_prefix_def split: if_splits)

definition redact_bearer_tokens :: "string \<Rightarrow> string" where
  "redact_bearer_tokens input = scan_tokens None input"


section \<open>Properties\<close>

subsection \<open>What masking keeps and what it replaces\<close>

interpretation secret_order: rust_ord secret_pair_cmp
proof -
  have "rust_ord (\<lambda>a b :: string \<times> string. cmp_of (length (snd b)) (length (snd a)))"
    by (rule rust_ord.intro) (auto simp: cmp_of_def split: if_splits)
  moreover have "rust_ord (\<lambda>a b :: string \<times> string. cmp_of (fst a) (fst b))"
    by (rule rust_ord_on) (rule linorder_ord.rust_ord_axioms)
  ultimately show "rust_ord secret_pair_cmp"
    unfolding secret_pair_cmp_def [abs_def] by (rule rust_ord_then)
qed

lemma secret_pairs_set: "set (secret_pairs env) = {(k, v) \<in> set env. is_secret_env k v}"
  by (auto simp: secret_pairs_def is_secret_env_def)

lemma secret_pairs_longest_first: "sorted_wrt (\<lambda>a b. length (snd b) \<le> length (snd a)) (secret_pairs env)"
proof -
  have "sorted_wrt (\<lambda>a b. secret_pair_cmp a b \<noteq> Greater) (secret_pairs env)"
    unfolding secret_pairs_def by (rule secret_order.sorted_sort_by)
  then show ?thesis
    by (rule sorted_wrt_mono_rel [rotated])
      (auto simp: secret_pair_cmp_def then_cmp_eq_iff cmp_of_def split: if_splits)
qed

lemma secret_nonempty: "(k, v) \<in> set (secret_pairs env) \<Longrightarrow> v \<noteq> []"
  by (auto simp: secret_pairs_set is_secret_env_def)

lemma match_at_Some: "match_at ss s = Some (k, v) \<Longrightarrow> (k, v) \<in> set ss \<and> prefix v s"
  by (auto simp: match_at_def find_Some_iff starts_with_def) (metis nth_mem)

text \<open>With the longest value first, a found match is at least as long as every match.\<close>

lemma match_at_longest:
  "sorted_wrt (\<lambda>a b. length (snd b) \<le> length (snd a)) ss \<Longrightarrow> match_at ss s = Some (k, v) \<Longrightarrow>
   (k', v') \<in> set ss \<Longrightarrow> prefix v' s \<Longrightarrow> length v' \<le> length v"
  by (induction ss) (auto simp: match_at_def starts_with_def split: if_splits)

lemma match_at_None: "match_at ss s = None \<longleftrightarrow> (\<forall>(k, v) \<in> set ss. \<not> prefix v s)"
  by (auto simp: match_at_def find_None_iff starts_with_def)

text \<open>
  \<open>masking S s out\<close>: \<open>out\<close> is \<open>s\<close> with some occurrences of secrets of \<open>S\<close> replaced by the names of their
  entries, and no character kept at which a secret of at least eight characters starts.
\<close>

inductive masking :: "(string \<times> string) set \<Rightarrow> string \<Rightarrow> string \<Rightarrow> bool" for S where
  masking_end: "masking S [] []"
| masking_keep: "\<forall>(k, v) \<in> S. always_mask_len \<le> length v \<longrightarrow> \<not> prefix v (c # s) \<Longrightarrow> masking S s out \<Longrightarrow>
    masking S (c # s) (c # out)"
| masking_mask: "(k, v) \<in> S \<Longrightarrow> masking S s out \<Longrightarrow> masking S (v @ s) (CHR 0x24 # k @ out)"

lemma mask_from_masks:
  assumes "sorted_wrt (\<lambda>a b. length (snd b) \<le> length (snd a)) ss" "\<forall>(k, v) \<in> set ss. v \<noteq> []"
  shows "masking (set ss) s (fst (mask_from (match_at ss) (\<lambda>_. False) p s))"
proof (induction "match_at ss" "\<lambda>_ :: string. False" p s rule: mask_from.induct)
  case (1 p)
  show ?case by (simp add: masking_end)
next
  case (2 p c cs)
  show ?case
  proof (cases "\<exists>k v. match_at ss (c # cs) = Some (k, v) \<and> stands_alone p v (first_char (drop (length v) (c # cs)))")
    case True
    then obtain k v where m: "match_at ss (c # cs) = Some (k, v)" "stands_alone p v (first_char (drop (length v) (c # cs)))"
      by blast
    have v: "(k, v) \<in> set ss" "prefix v (c # cs)" using match_at_Some [OF m(1)] by simp_all
    then obtain v' where v': "v = c # v'" "prefix v' cs" using assms(2) by (cases v) auto
    have "masking (set ss) (drop (length v - 1) cs)
        (fst (mask_from (match_at ss) (\<lambda>_. False) (last_char v) (drop (length v - 1) cs)))"
      using 2(2) [OF _ m(1) refl m(2)] by simp
    from masking_mask [OF v(1) this]
    show ?thesis using m v' by (auto simp: prefix_def split: prod.splits)
  next
    case False
    have keep: "\<forall>(k, v) \<in> set ss. always_mask_len \<le> length v \<longrightarrow> \<not> prefix v (c # cs)"
    proof (cases "match_at ss (c # cs)")
      case None
      then show ?thesis by (auto simp: match_at_None)
    next
      case (Some kv)
      obtain k v where kv: "kv = (k, v)" by (cases kv)
      with False Some have "length v < always_mask_len" by (auto simp: stands_alone_def split: if_splits)
      with match_at_longest [OF assms(1) Some [unfolded kv]] show ?thesis by fastforce
    qed
    have IH: "masking (set ss) cs (fst (mask_from (match_at ss) (\<lambda>_. False) (Some c) cs))"
      using 2(1,3) False by (cases "match_at ss (c # cs)") auto
    have "fst (mask_from (match_at ss) (\<lambda>_. False) p (c # cs)) = c # fst (mask_from (match_at ss) (\<lambda>_. False) (Some c) cs)"
      using False by (auto split: option.splits prod.splits)
    with masking_keep [OF keep IH] show ?thesis by simp
  qed
qed

lemma masking_refl: "masking {} s s"
  by (induction s) (auto intro: masking.intros)

text \<open>
  C32. What a redacted text keeps: it is the input with occurrences of secret values replaced by
  \<open>$NAME\<close> of an environment entry that holds the value, every other character kept in order, and
  no secret of eight or more characters starts at a kept character of the input.
\<close>
theorem redaction_masks_secrets:
  "masking {(k, v) \<in> set env. is_secret_env k v} input (redact_string input env)"
proof (cases "secret_pairs env = []")
  case True
  then have "{(k, v) \<in> set env. is_secret_env k v} = {}" using secret_pairs_set [of env] by simp
  then show ?thesis using masking_refl [of input] by (simp only: redact_string_def Let_def True simp_thms if_True)
next
  case False
  have "\<forall>(k, v) \<in> set (secret_pairs env). v \<noteq> []" using secret_nonempty by fast
  from mask_from_masks [OF secret_pairs_longest_first this, of input None] False show ?thesis
    by (simp add: redact_string_def Let_def secret_pairs_set)
qed

subsection \<open>Chunks\<close>

text \<open>The redacter of an environment: its secrets do not change, and its length bound is their maximum.\<close>

definition redacts :: "(string \<times> string) list \<Rightarrow> stream_redacter \<Rightarrow> bool" where
  "redacts env r \<longleftrightarrow> secrets r = secret_pairs env \<and> (\<forall>(k, v) \<in> set (secrets r). length v \<le> max_len r)"

lemma fold_max_ge: "n \<le> fold max xs n \<and> (\<forall>x \<in> set xs. x \<le> fold max xs (n :: nat))"
proof (induction xs arbitrary: n)
  case (Cons x xs)
  from Cons.IH [of "max x n"] show ?case by auto
qed simp

lemma redacts_new: "redacts env (new_redacter env)"
  using fold_max_ge [of 0 "map (\<lambda>(k, v). length v) (secret_pairs env)"]
  by (auto simp: redacts_def new_redacter_def Let_def)

lemma incomplete_iff:
  assumes "redacts env r"
  shows "is_incomplete_secret r s \<longleftrightarrow> (\<exists>(k, v) \<in> set (secret_pairs env). prefix s v)"
proof
  assume "\<exists>(k, v) \<in> set (secret_pairs env). prefix s v"
  then obtain k v where "(k, v) \<in> set (secrets r)" "prefix s v" "length s \<le> length v"
    using assms by (auto simp: redacts_def dest: prefix_length_le)
  moreover from this assms have "length v \<le> max_len r" by (auto simp: redacts_def)
  ultimately show "is_incomplete_secret r s"
    by (auto simp: is_incomplete_secret_def list_ex_iff starts_with_def)
qed (use assms in \<open>auto simp: redacts_def is_incomplete_secret_def list_ex_iff starts_with_def\<close>)

lemma scan_without_stops:
  "\<forall>i < length s. \<not> stop (drop i s) \<Longrightarrow> mask_from f stop p s = mask_from f (\<lambda>_. False) p s"
proof (induction f stop p s rule: mask_from.induct)
  case (2 f stop p c cs)
  have "\<not> stop (drop i cs)" if "i < length cs" for i using 2(4) that by (metis Suc_less_eq drop_Suc_Cons length_Cons)
  moreover have "\<not> stop (drop i (drop n cs))" if "i < length (drop n cs)" for i n
    using calculation [of "n + i"] that by (simp add: add.commute)
  moreover have "\<not> stop (c # cs)" using 2(4) by force
  ultimately show ?case using 2(1-3) by (auto split: option.split prod.split)
qed simp

lemma replace_partial_scan:
  assumes "redacts env r"
  shows "replace_partial r s = mask_from (match_at (secrets r)) (is_incomplete_secret r) (prev r) s"
proof (cases "has_incomplete_suffix r s")
  case False
  have "\<not> is_incomplete_secret r (drop i s)" if "i < length s" for i
    using False that by (auto simp: has_incomplete_suffix_def is_incomplete_secret_def list_ex_iff Let_def split: if_splits)
  then have scan: "mask_from (match_at (secrets r)) (is_incomplete_secret r) (prev r) s
      = mask_from (match_at (secrets r)) (\<lambda>_. False) (prev r) s" by (intro scan_without_stops) simp
  have "fst (snd (mask_from f (\<lambda>_. False) p s)) = []" for f p
    by (induction f "\<lambda>_ :: string. False" p s rule: mask_from.induct) (auto split: option.split prod.split)
  then show ?thesis
    using False scan by (auto simp: replace_partial_def replace_all_def split: prod.splits) (metis fst_conv snd_conv)
qed (simp add: replace_partial_def)

text \<open>What follows cannot change a decision made where the rest is no beginning of a secret.\<close>

lemma match_at_decided:
  assumes "\<not> (\<exists>(k, v) \<in> set ss. prefix s v)"
  shows "match_at ss (s @ t) = match_at ss s"
proof -
  have "starts_with (s @ t) v = starts_with s v" if "(k, v) \<in> set ss" for k v
    using assms that by (auto simp: starts_with_def prefix_append)
  then show ?thesis unfolding match_at_def by (intro find_cong) auto
qed

lemma decided_match:
  assumes "match_at ss s = Some (k, v)" "\<not> (\<exists>(k, v) \<in> set ss. prefix s v)"
  shows "length v < length s \<and> first_char (drop (length v) (s @ t)) = first_char (drop (length v) s)"
proof -
  have v: "(k, v) \<in> set ss" "prefix v s" using match_at_Some [OF assms(1)] by simp_all
  with assms(2) have "strict_prefix v s" by (auto intro: strict_prefixI)
  then have "length v < length s" by (rule prefix_length_less)
  then show ?thesis by (cases "drop (length v) s") (simp_all add: first_char_def)
qed

lemma stop_scan_continues:
  "mask_from (match_at ss) (\<lambda>s. \<exists>(k, v) \<in> set ss. prefix s v) p s = (out, rest, p') \<Longrightarrow>
    fst (mask_from (match_at ss) (\<lambda>_. False) p (s @ t)) = out @ fst (mask_from (match_at ss) (\<lambda>_. False) p' (rest @ t))"
proof (induction "match_at ss" "\<lambda>s. \<exists>(k, v) \<in> set ss. prefix s v" p s arbitrary: out rest p' rule: mask_from.induct)
  case (2 p c cs)
  let ?stop = "\<lambda>s. \<exists>(k, v) \<in> set ss. prefix s v"
  show ?case
  proof (cases "?stop (c # cs)")
    case True
    with 2(4) show ?thesis by auto
  next
    case False
    then have m: "match_at ss (c # cs @ t) = match_at ss (c # cs)" using match_at_decided [of ss "c # cs" t] by simp
    show ?thesis
    proof (cases "\<exists>k v. match_at ss (c # cs) = Some (k, v) \<and> stands_alone p v (first_char (drop (length v) (c # cs)))")
      case True
      then obtain k v where kv: "match_at ss (c # cs) = Some (k, v)" "stands_alone p v (first_char (drop (length v) (c # cs)))"
        by blast
      have len: "length v < length (c # cs)"
        and after: "first_char (drop (length v) (c # cs @ t)) = first_char (drop (length v) (c # cs))"
        using decided_match [OF kv(1) False, of t] by simp_all
      have rest: "drop (length v - 1) (cs @ t) = drop (length v - 1) cs @ t" using len by simp
      obtain out1 where "mask_from (match_at ss) ?stop (last_char v) (drop (length v - 1) cs) = (out1, rest, p')"
        "out = CHR 0x24 # k @ out1"
        using 2(4) False kv by (auto split: prod.splits)
      with 2(2) [OF False kv(1) refl kv(2)] show ?thesis
        using kv m after rest by (auto split: prod.splits)
    next
      case no: False
      have after: "first_char (drop (length v) (c # cs @ t)) = first_char (drop (length v) (c # cs))"
        if "match_at ss (c # cs) = Some (k, v)" for k v
        using decided_match [OF that False, of t] by simp
      obtain out1 where "mask_from (match_at ss) ?stop (Some c) cs = (out1, rest, p')" "out = c # out1"
        using 2(4) False no by (auto split: prod.splits option.splits if_splits)
      moreover from this(1) have "fst (mask_from (match_at ss) (\<lambda>_. False) (Some c) (cs @ t))
          = out1 @ fst (mask_from (match_at ss) (\<lambda>_. False) p' (rest @ t))"
        using 2(1,3) False no by (cases "match_at ss (c # cs)") auto
      ultimately show ?thesis
        using m no after by (auto split: prod.splits option.splits)
    qed
  qed
qed simp

lemma stop_scan_rest: "mask_from f stop p s = (out, rest, p') \<Longrightarrow> rest = [] \<or> stop rest"
proof (induction f stop p s arbitrary: out rest p' rule: mask_from.induct)
  case (2 f stop p c cs)
  show ?case using 2(1) 2(2) 2(3) 2(4) by (auto split: if_splits option.splits prod.splits)
qed simp

fun push_all :: "string list \<Rightarrow> stream_redacter \<Rightarrow> string \<times> stream_redacter" where
  "push_all [] r = ([], r)"
| "push_all (chunk # chunks) r =
     (case push chunk r of (out, r) \<Rightarrow> (case push_all chunks r of (outs, r) \<Rightarrow> (out @ outs, r)))"

definition masked_from :: "(string \<times> string) list \<Rightarrow> stream_redacter \<Rightarrow> string \<Rightarrow> string" where
  "masked_from env r t = fst (mask_from (match_at (secret_pairs env)) (\<lambda>_. False) (prev r) (pending r @ t))"

lemma push_step:
  assumes "redacts env r" "secret_pairs env \<noteq> []" "push chunk r = (out, r')"
  shows "redacts env r' \<and> masked_from env r (chunk @ t) = out @ masked_from env r' t
     \<and> length (pending r') \<le> max_len r' \<and> max_len r' = max_len r"
proof -
  let ?stop = "\<lambda>s. \<exists>(k, v) \<in> set (secret_pairs env). prefix s v"
  have sec: "secrets r = secret_pairs env" using assms(1) by (simp add: redacts_def)
  have stop: "is_incomplete_secret r = ?stop" by (rule ext) (rule incomplete_iff [OF assms(1)])
  obtain pend p where scan: "mask_from (match_at (secret_pairs env)) ?stop (prev r) (pending r @ chunk) = (out, pend, p)"
    and r': "r' = r\<lparr>pending := pend, prev := p\<rparr>"
    using assms sec
    by (auto simp: push_def replace_partial_scan [OF assms(1)] stop split: prod.splits if_splits)
  have "pend = [] \<or> ?stop pend" using stop_scan_rest [OF scan] .
  then have "length pend \<le> max_len r"
    using incomplete_iff [OF assms(1), of pend] by (auto simp: is_incomplete_secret_def)
  with stop_scan_continues [OF scan, of t] assms(1) show ?thesis
    by (simp add: r' redacts_def masked_from_def)
qed

lemma push_all_step:
  "redacts env r \<Longrightarrow> secret_pairs env \<noteq> [] \<Longrightarrow> length (pending r) \<le> max_len r \<Longrightarrow> push_all chunks r = (outs, r') \<Longrightarrow>
   redacts env r' \<and> masked_from env r (concat chunks) = outs @ masked_from env r' [] \<and> length (pending r') \<le> max_len r'
   \<and> max_len r' = max_len r"
proof (induction chunks arbitrary: r outs)
  case (Cons chunk chunks)
  obtain out r1 outs1 where p: "push chunk r = (out, r1)" "push_all chunks r1 = (outs1, r')" "outs = out @ outs1"
    using Cons.prems(4) by (auto split: prod.splits)
  from push_step [OF Cons.prems(1,2) p(1), of "concat chunks"] Cons.IH [of r1 outs1] Cons.prems(2) p
  show ?case by simp
qed simp

lemma flush_masks:
  assumes "redacts env r"
  shows "fst (flush r) = masked_from env r []"
  using assms by (auto simp: flush_def replace_all_def masked_from_def redacts_def split: prod.split)

text \<open>
  C33. Chunks do not matter: feeding a text to the stream redacter in chunks of any shape and flushing
  it at the end emits exactly what redacting the whole text gives, so a secret split across reads is
  masked as if it had arrived at once; and what is withheld between two chunks is never longer than
  the longest secret.
\<close>
theorem stream_redaction_equals_whole:
  assumes "push_all chunks (new_redacter env) = (outs, r)"
  shows "outs @ fst (flush r) = redact_string (concat chunks) env \<and> length (pending r) \<le> max_len (new_redacter env)"
proof (cases "secret_pairs env = []")
  case True
  have "push_all chunks r0 = (concat chunks, r0)" if "secrets r0 = []" for r0
    by (induction chunks) (simp_all add: push_def that)
  from this [of "new_redacter env"] assms True show ?thesis
    by (auto simp: new_redacter_def Let_def redact_string_def flush_def)
next
  case False
  have "pending (new_redacter env) = []" "prev (new_redacter env) = None" by (simp_all add: new_redacter_def Let_def)
  with push_all_step [OF redacts_new False _ assms] show ?thesis
    by (auto simp: flush_masks masked_from_def redact_string_def Let_def False)
qed

theorem stream_redaction_equals_whole_witness:
  "let env = [(''API_KEY'', ''abcdefgh'')];
       (outs, r) = push_all [''value abcd'', ''efgh done''] (new_redacter env)
   in outs @ fst (flush r) = redact_string ''value abcdefgh done'' env"
  using stream_redaction_equals_whole [of "[''value abcd'', ''efgh done'']" "[(''API_KEY'', ''abcdefgh'')]", OF prod.collapse [symmetric]]
  by (simp add: Let_def case_prod_unfold)

subsection \<open>URL credentials\<close>

text \<open>The authorities of the URLs of a text, left to right.\<close>

function url_authorities :: "string \<Rightarrow> string list" where
  "url_authorities rest =
     (case find_sub rest ''://'' of
        None \<Rightarrow> []
      | Some i \<Rightarrow> takeWhile (\<lambda>c. \<not> ends_authority c) (drop (i + 3) rest)
          # url_authorities (dropWhile (\<lambda>c. \<not> ends_authority c) (drop (i + 3) rest)))"
  by auto

termination url_authorities
  by (relation "measure length") (auto intro: find_sub_shrinks)

declare url_authorities.simps [simp del]

lemma find_sub_prefix_kept:
  "find_sub s p = Some i \<Longrightarrow> find_sub (take (i + length p) s @ t) p = Some i"
proof (induction s p arbitrary: i rule: find_sub.induct)
  case (2 c s p)
  show ?case
  proof (cases "prefix p (c # s)")
    case True
    with "2.prems" have "i = 0" by simp
    moreover have "take (length p) (c # s) = p" using True by (auto simp: prefix_def)
    ultimately show ?thesis by (cases p; cases t) auto
  next
    case False
    with "2.prems" obtain j where j: "find_sub s p = Some j" "i = Suc j" by auto
    have "\<not> prefix p (c # take (j + length p) s @ t)"
    proof
      assume "prefix p (c # take (j + length p) s @ t)"
      moreover have "length (c # take (j + length p) s) \<ge> length p"
        using find_sub_Some [OF j(1)] by (metis add_leE length_Cons le_SucI length_append length_take min.absorb2 trans_le_add1 min_def nat_le_linear)
      ultimately have "prefix p (c # take (j + length p) s)" by (metis append_Cons prefix_length_prefix prefixI)
      then have "prefix p (c # s)" by (metis append_Cons append_take_drop_id prefix_order.trans prefixI)
      with False show False by simp
    qed
    with 2(1) [OF False j(1)] j show ?thesis by simp
  qed
qed (cases t; auto split: if_splits)

lemma redact_authority_chars: "c \<in> set (redact_authority a) \<Longrightarrow> c \<in> set ''<redacted>@'' \<or> c \<in> set a"
  by (auto simp: redact_authority_def after_last_at_def split: if_splits dest: set_takeWhileD)

lemma redact_authority_clean:
  "CHR ''@'' \<notin> set (redact_authority a) \<or> (\<exists>host. redact_authority a = ''<redacted>@'' @ host \<and> CHR ''@'' \<notin> set host)"
  by (auto simp: redact_authority_def after_last_at_def split: if_splits dest: set_takeWhileD)

lemma redact_url_hd: "redact_url_credentials s = [] \<longleftrightarrow> s = []" "s \<noteq> [] \<Longrightarrow> hd (redact_url_credentials s) = hd s"
  by (subst redact_url_credentials.simps; cases s; auto simp: Let_def split: option.split)+

lemma redact_url_step:
  assumes "find_sub s ''://'' = Some i"
  defines "a \<equiv> takeWhile (\<lambda>c. \<not> ends_authority c) (drop (i + 3) s)"
    and "b \<equiv> dropWhile (\<lambda>c. \<not> ends_authority c) (drop (i + 3) s)"
  shows "redact_url_credentials s = take (i + 3) s @ redact_authority a @ redact_url_credentials b"
    and "find_sub (redact_url_credentials s) ''://'' = Some i"
    and "takeWhile (\<lambda>c. \<not> ends_authority c) (drop (i + 3) (redact_url_credentials s)) = redact_authority a"
    and "dropWhile (\<lambda>c. \<not> ends_authority c) (drop (i + 3) (redact_url_credentials s)) = redact_url_credentials b"
proof -
  show red: "redact_url_credentials s = take (i + 3) s @ redact_authority a @ redact_url_credentials b"
    by (subst redact_url_credentials.simps) (simp add: assms(1) Let_def a_def b_def)
  show "find_sub (redact_url_credentials s) ''://'' = Some i"
    unfolding red using find_sub_prefix_kept [OF assms(1)] by (simp add: numeral_3_eq_3)
  obtain r where r: "s = take i s @ ''://'' @ r" and "i \<le> length s" using find_sub_Some [OF assms(1)] by blast
  have "length s = length (take i s @ ''://'' @ r)" by (rule arg_cong [OF r])
  then have "length s = i + 3 + length r" using \<open>i \<le> length s\<close> by simp
  then have drop: "drop (i + 3) (redact_url_credentials s) = redact_authority a @ redact_url_credentials b"
    unfolding red by simp
  have auth: "\<forall>c \<in> set (redact_authority a). \<not> ends_authority c"
  proof
    fix c assume "c \<in> set (redact_authority a)"
    then consider "c \<in> set ''<redacted>@''" | "c \<in> set a" using redact_authority_chars by blast
    then show "\<not> ends_authority c"
      by cases (auto simp: ends_authority_def a_def dest: set_takeWhileD)
  qed
  have rest: "redact_url_credentials b = [] \<or> ends_authority (hd (redact_url_credentials b))"
  proof (cases "b = []")
    case False
    then have "ends_authority (hd b)"
      unfolding b_def using hd_dropWhile [of "\<lambda>c. \<not> ends_authority c" "drop (i + 3) s"] by blast
    with False redact_url_hd(2) [of b] show ?thesis by simp
  qed (simp add: redact_url_hd(1))
  show "takeWhile (\<lambda>c. \<not> ends_authority c) (drop (i + 3) (redact_url_credentials s)) = redact_authority a"
    and "dropWhile (\<lambda>c. \<not> ends_authority c) (drop (i + 3) (redact_url_credentials s)) = redact_url_credentials b"
    unfolding drop using auth rest by (cases "redact_url_credentials b"; simp add: takeWhile_append2 dropWhile_append2)+
qed

lemma url_authorities_redacted: "url_authorities (redact_url_credentials s) = map redact_authority (url_authorities s)"
proof (induction s rule: url_authorities.induct)
  case (1 s)
  show ?case
  proof (cases "find_sub s ''://''")
    case None
    then have "redact_url_credentials s = s" by (subst redact_url_credentials.simps) simp
    with None show ?thesis by (simp add: url_authorities.simps)
  next
    case (Some i)
    from 1 [OF Some] redact_url_step [OF Some] show ?thesis
      by (subst (1 2) url_authorities.simps) (simp add: Some)
  qed
qed

text \<open>What an authority looks like once stripped: no \<open>@\<close>, or the mark and a host.\<close>

definition carries_no_userinfo :: "string \<Rightarrow> bool" where
  "carries_no_userinfo a \<longleftrightarrow> CHR ''@'' \<notin> set a \<or> (\<exists>host. a = ''<redacted>@'' @ host \<and> CHR ''@'' \<notin> set host)"

text \<open>
  No URL keeps its credentials: the authorities of the URLs in a stripped text are those of the
  original one by one, each without an \<open>@\<close> or reading \<open><redacted>@\<close> followed by a host without one.
\<close>
theorem url_credentials_stripped:
  "url_authorities (redact_url_credentials s) = map redact_authority (url_authorities s)
   \<and> list_all carries_no_userinfo (url_authorities (redact_url_credentials s))"
  using redact_authority_clean by (auto simp: url_authorities_redacted list_all_iff carries_no_userinfo_def)

text \<open>The boundary rule of the bearer scan does not spare prose: a blank before the word is a boundary.\<close>

lemma bearer_of_bad_news:
  "redact_bearer_tokens ''the bearer of bad news'' = ''the Bearer <redacted> bad news''"
  by (simp add: redact_bearer_tokens_def Let_def match_authorization_prefix_def match_bearer_prefix_def match_basic_prefix_def
    match_prefix_ignore_case_def to_ascii_lowercase_def to_ascii_lower_def char_of_def token_boundary_def is_ascii_whitespace_def last_char_def bit_0)

end
