(* ===== verification/SplitMerge.thy ===== *)
theory SplitMerge
  imports BuildPlan Artifacts Redact
begin

section \<open>Split builds and their merge (\<open>cli/src/commands/release/split.rs\<close>)\<close>

text \<open>
  A release can be built on several machines: \<open>release --split\<close> builds the targets of one shard and writes a
  \<open>context.json\<close> beside its artifacts, together with a \<open>matrix.json\<close> naming all shards; \<open>--merge\<close> checks that every
  shard of the matrix arrived, and loads their artifacts into one registry. Files are a map from paths to contents
  where they are copied; where \<open>--merge\<close> reads, the parsed documents are parameters (a missing file, one that cannot be
  read or parsed, or its value). The build pipeline of a shard is a parameter. The human-readable type string of a
  written artifact, which nothing reads back, is left out.

  Main results: the shards of the matrix divide the targets between them; a merge of the shards' contexts is accepted
  exactly if no shard is missing; loading gives back every artifact that was written or refuses on a path that
  two shards claim; a relocated artifact keeps its content when destinations differ; no secret environment value is
  written.
\<close>

datatype json_value = JString string | JOther

record split_artifact =
  sa_name :: string
  sa_path :: string
  sa_os :: "string option"
  sa_arch :: "string option"
  sa_target :: "string option"
  sa_kind :: string
  sa_crate_name :: string
  sa_extra :: "json_value btree_map"
  sa_sha256 :: "string option"
  sa_size :: "nat option"

record split_context =
  sc_partial_target :: string
  sc_template_vars :: "string btree_map"
  sc_env_vars :: "string btree_map"
  sc_git_tag :: "string option"
  sc_git_commit :: "string option"
  sc_git_branch :: "string option"
  sc_artifacts :: "split_artifact list"

record matrix_entry =
  me_target :: string
  me_runner :: string

record split_matrix =
  sm_split_by :: string
  sm_include :: "matrix_entry list"

subsection \<open>Writing a shard\<close>

definition redact_secret_env_vars :: "string btree_map \<Rightarrow> string btree_map" where
  "redact_secret_env_vars env = map (\<lambda>(k, v). (k, if is_secret_env k v then ''[redacted]'' else v)) env"

definition artifact_to_split :: "artifact \<Rightarrow> split_artifact" where
  "artifact_to_split a =
     \<lparr>sa_name = art_name a, sa_path = art_path a, sa_os = goos a, sa_arch = goarch a, sa_target = art_target a,
      sa_kind = kind_str (art_kind a), sa_crate_name = art_crate_name a,
      sa_extra = map (\<lambda>(k, v). (k, JString v)) (art_metadata a), sa_sha256 = None, sa_size = art_size a\<rparr>"

fun show_partial_target :: "partial_target \<Rightarrow> string" where
  "show_partial_target (Exact t) = ''TARGET='' @ t"
| "show_partial_target (OsArch os arch) =
     (case arch of
        Some a \<Rightarrow> ''ANODIZER_OS='' @ os @ '', ANODIZER_ARCH='' @ a
      | None \<Rightarrow> ''ANODIZER_OS='' @ os)"
| "show_partial_target (Targets ts) = ''--targets='' @ join_with '','' ts"

definition split_target_check :: "partial_target \<Rightarrow> string list \<Rightarrow> (string, unit) result" where
  "split_target_check p all_targets =
     (if filter_targets p all_targets = [] \<and> all_targets \<noteq> []
      then Inl (''split: no build targets match '' @ show_partial_target p @ ''. Available targets: ['' @
                join_with '', '' all_targets @ '']'')
      else Inr ())"

text \<open>Relocation of one artifact below the shard's directory; a file that does not exist is left alone.\<close>

definition relocate_one :: "string \<Rightarrow> (string \<Rightarrow> 'c option) \<Rightarrow> artifact \<Rightarrow> (string \<Rightarrow> 'c option) \<times> artifact" where
  "relocate_one split_dist fs a =
     (case (fs (art_path a), file_name (art_path a)) of
        (Some content, Some f) \<Rightarrow>
          let target_subdir = (case art_target a of Some t \<Rightarrow> t | None \<Rightarrow> ''default'');
              dest = split_dist @ ''/'' @ target_subdir @ ''/'' @ f
          in if art_path a \<noteq> dest then (fs(dest \<mapsto> content), a\<lparr>art_path := dest\<rparr>) else (fs, a)
      | _ \<Rightarrow> (fs, a))"

fun relocate_all :: "string \<Rightarrow> (string \<Rightarrow> 'c option) \<Rightarrow> artifact list \<Rightarrow> (string \<Rightarrow> 'c option) \<times> artifact list" where
  "relocate_all split_dist fs [] = (fs, [])"
| "relocate_all split_dist fs (a # as) =
     (case relocate_one split_dist fs a of
        (fs', a') \<Rightarrow> (case relocate_all split_dist fs' as of (fs'', as') \<Rightarrow> (fs'', a' # as')))"

definition matrix_key :: "string \<Rightarrow> string \<Rightarrow> string" where
  "matrix_key target split_by = (if split_by = ''os'' then fst (map_target target) else target)"

fun matrix_loop :: "string \<Rightarrow> string list \<Rightarrow> string list \<Rightarrow> matrix_entry list" where
  "matrix_loop split_by seen [] = []"
| "matrix_loop split_by seen (t # ts) =
     (let entry_target = matrix_key t split_by
      in if entry_target \<in> set seen then matrix_loop split_by seen ts
         else \<lparr>me_target = entry_target, me_runner = suggest_runner (fst (map_target t))\<rparr>
              # matrix_loop split_by (entry_target # seen) ts)"

definition build_matrix :: "string list \<Rightarrow> string \<Rightarrow> split_matrix" where
  "build_matrix targets split_by = \<lparr>sm_split_by = split_by, sm_include = matrix_loop split_by [] targets\<rparr>"

record split_output =
  so_subdir :: string
  so_context :: split_context
  so_matrix :: "split_matrix option"

text \<open>
  The whole of \<open>run_split\<close>: \<open>pipeline\<close> builds the targets of the shard below the given directory and
  yields the files and the artifacts it registered, or an error.
\<close>

definition run_split ::
  "(string, string) result \<Rightarrow> partial_config option \<Rightarrow> env_source \<Rightarrow> string list \<Rightarrow> string \<Rightarrow>
   (partial_target \<Rightarrow> string \<Rightarrow> (string, (string \<Rightarrow> 'c option) \<times> artifact list) result) \<Rightarrow>
   string btree_map \<Rightarrow> string btree_map \<Rightarrow> (string, (string \<Rightarrow> 'c option) \<times> split_output) result" where
  "run_split rustc_vv config env all_targets dist pipeline vars config_env =
     (case resolve_partial_target_with_env rustc_vv config env of
        Inl e \<Rightarrow> Inl e
      | Inr p \<Rightarrow>
          (case split_target_check p all_targets of
             Inl e \<Rightarrow> Inl e
           | Inr _ \<Rightarrow>
               let split_dist = dist @ ''/'' @ dist_subdir p
               in (case pipeline p split_dist of
                     Inl e \<Rightarrow> Inl e
                   | Inr (fs, built) \<Rightarrow>
                       (case relocate_all split_dist fs built of
                          (fs', relocated) \<Rightarrow>
                            Inr (fs',
                              \<lparr>so_subdir = dist_subdir p,
                               so_context =
                                 \<lparr>sc_partial_target = dist_subdir p, sc_template_vars = btree_collect vars,
                                  sc_env_vars = btree_collect (redact_secret_env_vars config_env),
                                  sc_git_tag = map_of vars ''Tag'', sc_git_commit = map_of vars ''FullCommit'',
                                  sc_git_branch = map_of vars ''Branch'',
                                  sc_artifacts = map artifact_to_split relocated\<rparr>,
                               so_matrix =
                                 (if all_targets \<noteq> [] then Some (build_matrix all_targets (split_axis config)) else None)\<rparr>)))))"

subsection \<open>The completeness check of a merge\<close>

text \<open>A \<open>BTreeSet\<close> of strings is the ascending list of its elements.\<close>

definition btree_set :: "string list \<Rightarrow> string list" where
  "btree_set xs = remdups (sort xs)"

definition shard_identity_keys :: "string \<Rightarrow> string \<Rightarrow> string list \<Rightarrow> string list" where
  "shard_identity_keys partial_target split_by expected =
     (let own = matrix_key partial_target split_by
      in if split_by = ''os'' \<or> own \<in> set expected then [own]
         else (case from_dist_subdir partial_target of
                 OsArch os arch \<Rightarrow>
                   (let covered = btree_set (filter_targets (OsArch os arch) expected)
                    in if covered = [] then [own] else covered)
               | _ \<Rightarrow> [own]))"

definition covered_keys :: "split_matrix \<Rightarrow> string list \<Rightarrow> split_context \<Rightarrow> string list" where
  "covered_keys m expected c =
     map (\<lambda>t. matrix_key t (sm_split_by m)) (List.map_filter sa_target (sc_artifacts c)) @
     shard_identity_keys (sc_partial_target c) (sm_split_by m) expected"

definition mismatch_message :: "string \<Rightarrow> string list \<Rightarrow> string list \<Rightarrow> string" where
  "mismatch_message matrix_path expected got =
     (let missing = filter (\<lambda>k. k \<notin> set got) expected; surplus = filter (\<lambda>k. k \<notin> set expected) got
      in ''merge: split-worker manifest mismatch (expected '' @ count_noun (length expected) ''worker'' ''workers'' @
         '' from '' @ matrix_path @ '', got '' @ show_nat (length got) @ '')'' @
         (if missing \<noteq> [] then
            [CHR ''.'', CHR 0x0A] @ ''  missing context.json from '' @ count_noun (length missing) ''worker'' ''workers'' @ '': '' @
            join_with '', '' missing @
            [CHR ''.'', CHR 0x0A] @ ''  Each missing worker corresponds to a split-build job that did not write `dist/<target>/context.json` '' @
            em_dash @ '' typically a CI runner that was cancelled, ran out of disk, or hit a transient build failure. Re-run those '' @
            ''workers, or pass `--skip <stage>` to merge a deliberately-incomplete release.''
          else []) @
         (if surplus \<noteq> [] then
            [CHR ''.'', CHR 0x0A] @ ''  unexpected context.json from '' @ count_noun (length surplus) ''worker'' ''workers'' @ '' not in matrix: '' @
            join_with '', '' surplus @
            [CHR ''.'', CHR 0x0A] @ ''  These contexts are likely left over from an earlier split run; clean `dist/` (or pass --clean on the next '' @
            ''`release --split`) before retrying.''
          else []))"

text \<open>A file that may be missing, may fail to be read or parsed, or has a value.\<close>

type_synonym 'd document = "(string, 'd) result option"

fun read_all :: "(string, 'd) result list \<Rightarrow> (string, 'd list) result" where
  "read_all [] = Inr []"
| "read_all (Inl e # ds) = Inl e"
| "read_all (Inr d # ds) = (case read_all ds of Inl e \<Rightarrow> Inl e | Inr rest \<Rightarrow> Inr (d # rest))"

definition check_split_worker_completeness ::
  "string \<Rightarrow> split_matrix document \<Rightarrow> (string, split_context) result list \<Rightarrow> (string, unit) result" where
  "check_split_worker_completeness dist matrix_doc context_docs =
     (case matrix_doc of
        None \<Rightarrow> Inr ()
      | Some (Inl e) \<Rightarrow> Inl e
      | Some (Inr m) \<Rightarrow>
          (case read_all context_docs of
             Inl e \<Rightarrow> Inl e
           | Inr contexts \<Rightarrow>
               let expected = btree_set (map me_target (sm_include m));
                   got = btree_set (concat (map (covered_keys m expected) contexts))
               in if filter (\<lambda>k. k \<notin> set got) expected \<noteq> [] \<or> filter (\<lambda>k. k \<notin> set expected) got \<noteq> []
                  then Inl (mismatch_message (dist @ ''/matrix.json'') expected got)
                  else Inr ()))"

subsection \<open>Loading the shards\<close>

record merge_ctx =
  mc_merge :: bool
  mc_template_vars :: "string btree_map"
  mc_config_env :: "string btree_map"
  mc_artifacts :: "artifact list"
  mc_warnings :: "string list"

definition as_str :: "json_value \<Rightarrow> string option" where
  "as_str v = (case v of JString s \<Rightarrow> Some s | JOther \<Rightarrow> None)"

text \<open>The artifact the loader registers for an entry of known kind: no name and no size.\<close>

definition rehydrate :: "artifact_kind \<Rightarrow> split_artifact \<Rightarrow> artifact" where
  "rehydrate kind sa =
     \<lparr>art_kind = kind, art_path = sa_path sa, art_name = [], art_target = sa_target sa,
      art_crate_name = sa_crate_name sa,
      art_metadata = List.map_filter (\<lambda>(k, v). map_option (Pair k) (as_str v)) (sa_extra sa), art_size = None\<rparr>"

definition show_debug_opt :: "string option \<Rightarrow> string" where
  "show_debug_opt x = (case x of Some s \<Rightarrow> ''Some('' @ [CHR 0x22] @ s @ [CHR 0x22] @ '')'' | None \<Rightarrow> ''None'')"

definition collision_message :: "split_artifact \<Rightarrow> string \<times> string \<times> string option \<Rightarrow> string \<Rightarrow> string" where
  "collision_message sa prior ctx_file =
     (case prior of (prior_ctx, prior_crate, prior_target) \<Rightarrow>
        ''merge: artifact path collision: '' @ quoted (sa_path sa) @ '' from split job '' @ quoted prior_ctx @
        '' (crate='' @ prior_crate @ '', target='' @ show_debug_opt prior_target @ '') also claimed by split job '' @
        quoted ctx_file @ '' (crate='' @ sa_crate_name sa @ '', target='' @ show_debug_opt (sa_target sa) @ ''). '' @
        ''Expected per-target subdirectory isolation (e.g. dist/<target>/); check your `no_unique_dist_dir` / `split.subdir` config.'')"

type_synonym claims = "(string \<times> (string \<times> string \<times> string option)) list"

fun load_artifacts ::
  "string option \<Rightarrow> string \<Rightarrow> split_artifact list \<Rightarrow> claims \<Rightarrow> merge_ctx \<Rightarrow> (string, claims \<times> merge_ctx) result" where
  "load_artifacts cwd ctx_file [] seen ctx = Inr (seen, ctx)"
| "load_artifacts cwd ctx_file (sa # sas) seen ctx =
     (case map_of seen (sa_path sa) of
        Some prior \<Rightarrow> Inl (collision_message sa prior ctx_file)
      | None \<Rightarrow>
          let seen' = (sa_path sa, (ctx_file, sa_crate_name sa, sa_target sa)) # seen
          in (case parse_kind (sa_kind sa) of
                None \<Rightarrow>
                  load_artifacts cwd ctx_file sas seen'
                    (ctx\<lparr>mc_warnings := mc_warnings ctx @
                       [''skipped artifact '' @ em_dash @ '' unknown kind '' @ quoted (sa_kind sa) @ '' in '' @ ctx_file]\<rparr>)
              | Some kind \<Rightarrow>
                  load_artifacts cwd ctx_file sas seen'
                    (ctx\<lparr>mc_artifacts := fst (add_artifact cwd (rehydrate kind sa) (mc_artifacts ctx))\<rparr>)))"

definition restore_vars :: "split_context \<Rightarrow> merge_ctx \<Rightarrow> merge_ctx" where
  "restore_vars sc ctx =
     ctx\<lparr>mc_template_vars := foldl (\<lambda>m (k, v). btree_insert k v m) (mc_template_vars ctx) (sc_template_vars sc),
         mc_config_env := foldl (\<lambda>m (k, v). btree_insert k v m) (mc_config_env ctx) (sc_env_vars sc)\<rparr>"

fun load_contexts ::
  "string option \<Rightarrow> bool \<Rightarrow> (string \<times> (string, split_context) result) list \<Rightarrow> claims \<Rightarrow> merge_ctx \<Rightarrow> (string, merge_ctx) result" where
  "load_contexts cwd first [] seen ctx = Inr ctx"
| "load_contexts cwd first ((ctx_file, doc) # rest) seen ctx =
     (case doc of
        Inl e \<Rightarrow> Inl e
      | Inr sc \<Rightarrow>
          (case load_artifacts cwd ctx_file (sc_artifacts sc) seen (if first then restore_vars sc ctx else ctx) of
             Inl e \<Rightarrow> Inl e
           | Inr (seen', ctx') \<Rightarrow> load_contexts cwd False rest seen' ctx'))"

definition detect_missing_files :: "(string \<Rightarrow> bool) \<Rightarrow> string list \<Rightarrow> string \<Rightarrow> (string, unit) result" where
  "detect_missing_files is_file paths dist =
     (let missing = filter (\<lambda>p. if starts_with p ''/'' then \<not> is_file p
                                else \<not> is_file p \<and> \<not> is_file (dist @ ''/'' @ p)) paths
      in if missing = [] then Inr ()
         else Inl (''artifacts manifest references '' @ count_noun (length missing) ''file'' ''files'' @
                   '' not present under '' @ dist @ '': '' @ join_with '', '' (sort_by path_cmp missing) @
                   ''. The preserved dist is incomplete; re-run `anodizer check determinism --preserve-dist=<dist>` to '' @
                   ''repopulate, or remove the stale manifest entries before retrying.''))"

fun load_manifest_entries :: "string option \<Rightarrow> artifact list \<Rightarrow> string list \<Rightarrow> artifact list \<Rightarrow> string list \<times> artifact list" where
  "load_manifest_entries cwd [] seen reg = (seen, reg)"
| "load_manifest_entries cwd (a # as) seen reg =
     (if art_path a \<in> set seen then load_manifest_entries cwd as seen reg
      else load_manifest_entries cwd as (art_path a # seen) (fst (add_artifact cwd a reg)))"

fun load_artifact_manifests ::
  "string option \<Rightarrow> (string, artifact list) result list \<Rightarrow> string list \<Rightarrow> artifact list \<Rightarrow> (string, artifact list) result" where
  "load_artifact_manifests cwd [] seen reg = Inr reg"
| "load_artifact_manifests cwd (Inl e # docs) seen reg = Inl e"
| "load_artifact_manifests cwd (Inr manifest # docs) seen reg =
     (case load_manifest_entries cwd manifest seen reg of
        (seen', reg') \<Rightarrow> load_artifact_manifests cwd docs seen' reg')"

text \<open>What \<open>--merge\<close> finds below \<open>dist\<close>, in the order of the sorted subdirectories.\<close>

record merge_tree =
  mt_contexts :: "(string \<times> (string, split_context) result) list"
  mt_manifests :: "(string, artifact list) result list"
  mt_matrix :: "split_matrix document"
  mt_is_file :: "string \<Rightarrow> bool"

definition load_split_contexts_into ::
  "string option \<Rightarrow> string \<Rightarrow> merge_tree \<Rightarrow> merge_ctx \<Rightarrow> (string, merge_ctx) result" where
  "load_split_contexts_into cwd dist tree ctx0 =
     (let ctx = ctx0\<lparr>mc_merge := True\<rparr>
      in if mt_contexts tree = [] then
           (if mt_manifests tree = [] then
              Inl (''merge: no context.json or artifacts.json files found in '' @ dist @
                   ''. Run `anodizer release --split` first.'')
            else
              (case load_artifact_manifests cwd (mt_manifests tree) [] (mc_artifacts ctx) of
                 Inl e \<Rightarrow> Inl e
               | Inr reg \<Rightarrow> Inr (ctx\<lparr>mc_artifacts := reg\<rparr>)))
         else
           (case check_split_worker_completeness dist (mt_matrix tree) (map snd (mt_contexts tree)) of
              Inl e \<Rightarrow> Inl e
            | Inr _ \<Rightarrow>
                (case load_contexts cwd True (mt_contexts tree) [] ctx of
                   Inl e \<Rightarrow> Inl e
                 | Inr ctx' \<Rightarrow>
                     (case detect_missing_files (mt_is_file tree)
                             (map art_path (filter (\<lambda>a. \<not> is_directory_bundle_artifact a) (mc_artifacts ctx'))) dist of
                        Inl e \<Rightarrow> Inl e
                      | Inr _ \<Rightarrow> Inr ctx'))))"

section \<open>Results\<close>

subsection \<open>The matrix divides the targets\<close>

definition matrix_targets :: "string list \<Rightarrow> string \<Rightarrow> string list" where
  "matrix_targets targets split_by = map me_target (sm_include (build_matrix targets split_by))"

text \<open>The filter of the worker that a matrix entry starts: \<open>ANODIZER_OS\<close> or \<open>TARGET\<close> is set to the entry.\<close>

definition shard_of :: "string \<Rightarrow> string \<Rightarrow> partial_target" where
  "shard_of split_by e = (if split_by = ''os'' then OsArch e None else Exact e)"

lemma matrix_loop_targets:
  "distinct (map me_target (matrix_loop axis seen ts))"
  "me_target ` set (matrix_loop axis seen ts) = (\<lambda>t. matrix_key t axis) ` set ts - set seen"
proof (induction axis seen ts rule: matrix_loop.induct)
  case (2 axis seen t ts)
  {
    case 1
    then show ?case using 2 by (cases "matrix_key t axis \<in> set seen") (auto simp: Let_def)
  next
    case 2
    then show ?case using "2.IH" by (cases "matrix_key t axis \<in> set seen") (auto simp: Let_def)
  }
qed simp_all

lemma matrix_targets_distinct: "distinct (matrix_targets targets axis)"
  by (simp add: matrix_targets_def build_matrix_def matrix_loop_targets)

lemma matrix_targets_set: "set (matrix_targets targets axis) = (\<lambda>t. matrix_key t axis) ` set targets"
  by (simp add: matrix_targets_def build_matrix_def matrix_loop_targets)

lemma shard_selects: "target_selected (shard_of axis e) t \<longleftrightarrow> matrix_key t axis = e"
  by (auto simp: shard_of_def matrix_key_def map_target_def)

lemma mset_concat_classes:
  assumes "distinct ks" and "f ` set xs \<subseteq> set ks"
  shows "mset (concat (map (\<lambda>k. filter (\<lambda>x. f x = k) xs) ks)) = mset xs"
  using assms(2)
proof (induction xs)
  case Nil
  then show ?case by (induction ks) auto
next
  case (Cons x xs)
  then have IH: "mset (concat (map (\<lambda>k. filter (\<lambda>x. f x = k) xs) ks)) = mset xs" and x: "f x \<in> set ks" by auto
  have "mset (concat (map (\<lambda>k. filter (\<lambda>y. f y = k) (x # xs)) ks)) =
      (if f x \<in> set ks then {#x#} else {#}) + mset (concat (map (\<lambda>k. filter (\<lambda>y. f y = k) xs) ks))"
    using assms(1) by (induction ks) auto
  with IH x show ?case by simp
qed

lemma shard_targets_filter: "filter_targets (shard_of axis e) targets = filter (\<lambda>t. matrix_key t axis = e) targets"
  unfolding filter_targets_def by (rule filter_cong) (simp_all add: shard_selects)

text \<open>
  C13. The workers that \<open>matrix.json\<close> starts divide the build targets between them: together they build every target, no
  target is built by two of them, and none of them is refused for having nothing to build.
\<close>

theorem split_shards_partition:
  "mset (concat (map (\<lambda>e. filter_targets (shard_of axis e) targets) (matrix_targets targets axis))) = mset targets \<and>
   distinct (matrix_targets targets axis) \<and>
   list_all (\<lambda>e. split_target_check (shard_of axis e) targets = Inr ()) (matrix_targets targets axis)"
proof -
  have "mset (concat (map (\<lambda>e. filter_targets (shard_of axis e) targets) (matrix_targets targets axis))) = mset targets"
    unfolding shard_targets_filter
    by (rule mset_concat_classes) (simp_all add: matrix_targets_distinct matrix_targets_set)
  moreover have "split_target_check (shard_of axis e) targets = Inr ()" if "e \<in> set (matrix_targets targets axis)" for e
    using that by (auto simp: matrix_targets_set split_target_check_def shard_targets_filter filter_empty_conv)
  ultimately show ?thesis by (simp add: matrix_targets_distinct list_all_iff)
qed

subsection \<open>A merge accepts exactly the complete set of shards\<close>

lemma set_btree_set [simp]: "set (btree_set xs) = set xs"
  by (simp add: btree_set_def)

lemma matrix_entry_fixed: "e \<in> set (matrix_targets targets axis) \<Longrightarrow> matrix_key e axis = e"
  by (auto simp: matrix_targets_set matrix_key_def map_target_def)

lemma shard_subdir: "dist_subdir (shard_of axis e) = e"
  by (simp add: shard_of_def)

text \<open>A context as the worker of an entry writes it: it is named after the entry and its artifacts are for its targets.\<close>

definition shard_context_ok :: "string \<Rightarrow> string list \<Rightarrow> string \<Rightarrow> split_context \<Rightarrow> bool" where
  "shard_context_ok axis targets e c \<longleftrightarrow>
     sc_partial_target c = dist_subdir (shard_of axis e) \<and>
     set (List.map_filter sa_target (sc_artifacts c)) \<subseteq> set (filter_targets (shard_of axis e) targets)"

lemma covered_keys_shard:
  assumes "shard_context_ok axis targets e c" and "e \<in> set (matrix_targets targets axis)"
    and "set expected = set (matrix_targets targets axis)"
  shows "set (covered_keys (build_matrix targets axis) expected c) = {e}"
proof -
  have "shard_identity_keys (sc_partial_target c) axis expected = [e]"
    using assms by (simp add: shard_context_ok_def shard_subdir shard_identity_keys_def matrix_entry_fixed Let_def)
  moreover have "(\<lambda>t. matrix_key t axis) ` set (List.map_filter sa_target (sc_artifacts c)) \<subseteq> {e}"
    using assms(1) by (auto simp: shard_context_ok_def shard_targets_filter)
  ultimately show ?thesis by (auto simp: covered_keys_def build_matrix_def)
qed

lemma read_all_Inr: "read_all (map Inr ds) = Inr ds"
  by (induction ds) auto

lemma check_completeness_iff:
  "check_split_worker_completeness dist (Some (Inr m)) (map Inr cs) = Inr () \<longleftrightarrow>
   me_target ` set (sm_include m) =
     (\<Union>c \<in> set cs. set (covered_keys m (btree_set (map me_target (sm_include m))) c))"
  by (auto simp: check_split_worker_completeness_def read_all_Inr Let_def filter_empty_conv)

text \<open>
  C14. \<open>--merge\<close> accepts the contexts of the matrix's workers exactly if no worker is missing: any subset of the shards
  that leaves one out is refused, and the whole set passes whatever subset of its targets each worker built.
\<close>

theorem merge_accepts_exactly_all_shards:
  assumes "set present \<subseteq> set (matrix_targets targets axis)"
    and "\<forall>e \<in> set present. shard_context_ok axis targets e (context_of e)"
  shows "check_split_worker_completeness dist (Some (Inr (build_matrix targets axis))) (map (\<lambda>e. Inr (context_of e)) present) = Inr ()
         \<longleftrightarrow> set present = set (matrix_targets targets axis)"
proof -
  let ?m = "build_matrix targets axis"
  let ?exp = "btree_set (map me_target (sm_include ?m))"
  have exp: "me_target ` set (sm_include ?m) = set (matrix_targets targets axis)" by (simp add: matrix_targets_def)
  have "set (covered_keys ?m ?exp (context_of e)) = {e}" if "e \<in> set present" for e
    using assms that by (intro covered_keys_shard) (auto simp: matrix_targets_def)
  then have "(\<Union>c \<in> set (map context_of present). set (covered_keys ?m ?exp c)) = set present" by auto
  moreover have "map (\<lambda>e. Inr (context_of e)) present = map Inr (map context_of present)" by simp
  ultimately show ?thesis unfolding check_completeness_iff exp by (metis check_completeness_iff exp)
qed

subsection \<open>What the loader gives back\<close>

definition bare :: "artifact \<Rightarrow> artifact" where
  "bare a = a\<lparr>art_name := [], art_size := None\<rparr>"

lemma map_filter_strings: "List.map_filter (\<lambda>(k, v). map_option (Pair k) (as_str v)) (map (\<lambda>(k, v). (k, JString v)) m) = m"
  by (induction m) (auto simp: List.map_filter_def as_str_def)

lemma rehydrate_written: "rehydrate (art_kind a) (artifact_to_split a) = bare a"
  by (simp add: rehydrate_def artifact_to_split_def bare_def map_filter_strings)

definition add_all :: "string option \<Rightarrow> artifact list \<Rightarrow> artifact list \<Rightarrow> artifact list" where
  "add_all cwd as reg = foldl (\<lambda>r a. fst (add_artifact cwd a r)) reg as"

lemma written_path [simp]: "sa_path (artifact_to_split a) = art_path a" "sa_kind (artifact_to_split a) = kind_str (art_kind a)"
  by (simp_all add: artifact_to_split_def)

lemma load_written:
  "if distinct (map art_path as) \<and> fst ` set seen \<inter> art_path ` set as = {}
   then \<exists>seen'. load_artifacts cwd f (map artifact_to_split as) seen ctx =
          Inr (seen', ctx\<lparr>mc_artifacts := add_all cwd (map bare as) (mc_artifacts ctx)\<rparr>) \<and>
          fst ` set seen' = fst ` set seen \<union> art_path ` set as
   else \<exists>e. load_artifacts cwd f (map artifact_to_split as) seen ctx = Inl e"
proof (induction as arbitrary: seen ctx)
  case Nil
  then show ?case by (simp add: add_all_def)
next
  case (Cons a as)
  show ?case
  proof (cases "map_of seen (art_path a)")
    case (Some prior)
    then have "art_path a \<in> fst ` set seen" by (force dest: map_of_SomeD)
    with Some show ?thesis by (simp del: kind_str.simps)
  next
    case None
    then have new: "art_path a \<notin> fst ` set seen" by (simp add: map_of_eq_None_iff)
    let ?seen = "(art_path a, (f, sa_crate_name (artifact_to_split a), sa_target (artifact_to_split a))) # seen"
    let ?ctx = "ctx\<lparr>mc_artifacts := fst (add_artifact cwd (bare a) (mc_artifacts ctx))\<rparr>"
    have "load_artifacts cwd f (map artifact_to_split (a # as)) seen ctx = load_artifacts cwd f (map artifact_to_split as) ?seen ?ctx"
      using None by (simp add: Let_def rehydrate_written del: kind_str.simps)
    moreover have "distinct (map art_path (a # as)) \<and> fst ` set seen \<inter> art_path ` set (a # as) = {} \<longleftrightarrow>
        distinct (map art_path as) \<and> fst ` set ?seen \<inter> art_path ` set as = {}"
      using new by auto
    ultimately show ?thesis
      using Cons.IH [of ?seen ?ctx] by (auto simp: add_all_def split: if_splits)
  qed
qed

text \<open>A shard as it was written: the file, the registry of the worker, and the rest of its context.\<close>

definition written_context :: "artifact list \<Rightarrow> split_context \<Rightarrow> split_context" where
  "written_context reg sc = sc\<lparr>sc_artifacts := map artifact_to_split reg\<rparr>"

abbreviation shard_docs :: "(string \<times> artifact list \<times> split_context) list \<Rightarrow> (string \<times> (string, split_context) result) list" where
  "shard_docs shards \<equiv> map (\<lambda>(f, reg, sc). (f, Inr (written_context reg sc))) shards"

lemma load_written_contexts:
  "let as = concat (map (\<lambda>(f, reg, sc). reg) shards)
   in if distinct (map art_path as) \<and> fst ` set seen \<inter> art_path ` set as = {}
      then \<exists>ctx'. load_contexts cwd first (shard_docs shards) seen ctx = Inr ctx' \<and>
             mc_artifacts ctx' = add_all cwd (map bare as) (mc_artifacts ctx) \<and> mc_warnings ctx' = mc_warnings ctx
      else \<exists>e. load_contexts cwd first (shard_docs shards) seen ctx = Inl e"
proof (induction shards arbitrary: first seen ctx)
  case Nil
  then show ?case by (simp add: add_all_def)
next
  case (Cons s shards)
  obtain f reg sc where s: "s = (f, reg, sc)" by (cases s)
  let ?as = "concat (map (\<lambda>(f, reg, sc). reg) shards)"
  let ?ctx = "if first then restore_vars (written_context reg sc) ctx else ctx"
  let ?ctx' = "?ctx\<lparr>mc_artifacts := add_all cwd (map bare reg) (mc_artifacts ?ctx)\<rparr>"
  have same: "mc_artifacts ?ctx = mc_artifacts ctx" "mc_warnings ?ctx = mc_warnings ctx"
    by (simp_all add: restore_vars_def)
  have load: "sc_artifacts (written_context reg sc) = map artifact_to_split reg" by (simp add: written_context_def)
  show ?case
  proof (cases "distinct (map art_path reg) \<and> fst ` set seen \<inter> art_path ` set reg = {}")
    case False
    then obtain e where "load_artifacts cwd f (map artifact_to_split reg) seen ?ctx = Inl e"
      using load_written [of reg seen cwd f ?ctx] unfolding if_not_P [OF False] by blast
    with False show ?thesis by (auto simp: s load Let_def)
  next
    case True
    then obtain seen' where l: "load_artifacts cwd f (map artifact_to_split reg) seen ?ctx = Inr (seen', ?ctx')"
      and seen': "fst ` set seen' = fst ` set seen \<union> art_path ` set reg"
      using load_written [of reg seen cwd f ?ctx] unfolding if_P [OF True] by blast
    have step: "load_contexts cwd first (shard_docs (s # shards)) seen ctx = load_contexts cwd False (shard_docs shards) seen' ?ctx'"
      using l by (simp add: s load)
    have cond: "distinct (map art_path (reg @ as)) \<and> fst ` set seen \<inter> art_path ` set (reg @ as) = {} \<longleftrightarrow>
        distinct (map art_path as) \<and> fst ` set seen' \<inter> art_path ` set as = {}" for as
      unfolding seen' map_append distinct_append set_append image_Un list.set_map using True by blast
    have arts: "mc_artifacts ?ctx' = add_all cwd (map bare reg) (mc_artifacts ctx)" "mc_warnings ?ctx' = mc_warnings ctx"
      using same by auto
    have "add_all cwd (map bare (reg @ ?as)) r = add_all cwd (map bare ?as) (add_all cwd (map bare reg) r)" for r
      by (simp add: add_all_def)
    with Cons.IH [of seen' False ?ctx'] show ?thesis
      unfolding step Let_def arts using cond [of ?as] by (simp add: s del: map_append set_append split: if_splits)
  qed
qed

text \<open>
  C15. Loading the contexts that the workers wrote gives back every artifact of every worker, in order, with its kind,
  path, target, crate and metadata, and without a warning, if all paths differ; if two of them claim the same path the
  merge fails.
\<close>

theorem merge_restores_every_artifact:
  "let as = concat (map (\<lambda>(f, reg, sc). reg) shards)
   in if distinct (map art_path as)
      then \<exists>ctx'. load_contexts cwd True (shard_docs shards) [] ctx = Inr ctx' \<and>
             mc_artifacts ctx' = add_all cwd (map bare as) (mc_artifacts ctx) \<and> mc_warnings ctx' = mc_warnings ctx
      else \<exists>e. load_contexts cwd True (shard_docs shards) [] ctx = Inl e"
  using load_written_contexts [of shards "[]" cwd True ctx] by simp

subsection \<open>Relocation\<close>

definition relocated_path :: "string \<Rightarrow> artifact \<Rightarrow> string" where
  "relocated_path d a =
     d @ ''/'' @ (case art_target a of Some t \<Rightarrow> t | None \<Rightarrow> ''default'') @ ''/'' @
     (case file_name (art_path a) of Some f \<Rightarrow> f | None \<Rightarrow> [])"

lemma relocate_one_frame:
  "relocate_one d fs a = (fs', a') \<Longrightarrow> p \<noteq> relocated_path d a \<Longrightarrow> fs' p = fs p"
  by (auto simp: relocate_one_def relocated_path_def Let_def split: option.splits if_splits)

lemma relocate_one_content:
  "relocate_one d fs a = (fs', a') \<Longrightarrow>
   fs' (art_path a') = fs (art_path a) \<and> (art_path a' = art_path a \<or> art_path a' = relocated_path d a) \<and> a' = a\<lparr>art_path := art_path a'\<rparr>"
  by (auto simp: relocate_one_def relocated_path_def Let_def split: option.splits if_splits)

lemma relocate_all_frame:
  "relocate_all d fs as = (fs', as') \<Longrightarrow> p \<notin> relocated_path d ` set as \<Longrightarrow> fs' p = fs p"
proof (induction as arbitrary: fs fs' as')
  case Nil
  then show ?case by simp
next
  case (Cons a as)
  obtain fs1 a1 where one: "relocate_one d fs a = (fs1, a1)" by (cases "relocate_one d fs a")
  obtain fs2 as2 where rest: "relocate_all d fs1 as = (fs2, as2)" by (cases "relocate_all d fs1 as")
  from Cons.prems(1) one rest have "fs' = fs2" by simp
  with Cons.IH [OF rest] relocate_one_frame [OF one] Cons.prems(2) show ?case by simp
qed

text \<open>The destinations differ, and no artifact lies where another is copied to.\<close>

definition relocation_safe :: "string \<Rightarrow> artifact list \<Rightarrow> bool" where
  "relocation_safe d as \<longleftrightarrow>
     distinct (map (relocated_path d) as) \<and>
     (\<forall>i < length as. \<forall>j < length as. i \<noteq> j \<longrightarrow> art_path (as ! i) \<noteq> relocated_path d (as ! j))"

lemma relocation_safe_Cons:
  assumes "relocation_safe d (a # as)"
  shows "relocation_safe d as" and "relocated_path d a \<notin> relocated_path d ` set as"
    and "art_path a \<notin> relocated_path d ` set as" and "\<forall>b \<in> set as. art_path b \<noteq> relocated_path d a"
proof -
  note safe = assms [unfolded relocation_safe_def]
  show "relocated_path d a \<notin> relocated_path d ` set as" using safe by simp
  have "art_path (as ! i) \<noteq> relocated_path d (as ! j)" if "i < length as" "j < length as" "i \<noteq> j" for i j
    using conjunct2 [OF safe, rule_format, of "Suc i" "Suc j"] that by simp
  then show "relocation_safe d as" using safe by (simp add: relocation_safe_def)
  have "art_path a \<noteq> relocated_path d (as ! j)" if "j < length as" for j
    using conjunct2 [OF safe, rule_format, of 0 "Suc j"] that by simp
  then show "art_path a \<notin> relocated_path d ` set as" by (metis imageE in_set_conv_nth)
  have "art_path (as ! i) \<noteq> relocated_path d a" if "i < length as" for i
    using conjunct2 [OF safe, rule_format, of "Suc i" 0] that by simp
  then show "\<forall>b \<in> set as. art_path b \<noteq> relocated_path d a" by (auto simp: in_set_conv_nth)
qed

text \<open>
  Copying a worker's artifacts below its directory loses nothing: every artifact is kept with all fields but the
  path, and the file at its new path has the content of the file at its old one, provided no two artifacts have the same
  target and file name and none already lies at another's destination.
\<close>

theorem relocation_keeps_contents:
  assumes "relocate_all d fs as = (fs', as')" and "relocation_safe d as"
  shows "list_all2 (\<lambda>a a'. fs' (art_path a') = fs (art_path a) \<and> a' = a\<lparr>art_path := art_path a'\<rparr>) as as'"
  using assms
proof (induction as arbitrary: fs as')
  case Nil
  then show ?case by simp
next
  case (Cons a as)
  obtain fs1 a1 where one: "relocate_one d fs a = (fs1, a1)" by (cases "relocate_one d fs a")
  obtain fs2 as2 where rest: "relocate_all d fs1 as = (fs2, as2)" by (cases "relocate_all d fs1 as")
  from Cons.prems(1) one rest have eqs: "fs' = fs2" "as' = a1 # as2" by simp_all
  note safe = relocation_safe_Cons [OF Cons.prems(2)]
  note a1 = relocate_one_content [OF one]
  have "fs2 (art_path a1) = fs1 (art_path a1)"
    using a1 safe(2,3) by (intro relocate_all_frame [OF rest]) metis
  moreover have "list_all2 (\<lambda>a a'. fs2 (art_path a') = fs1 (art_path a) \<and> a' = a\<lparr>art_path := art_path a'\<rparr>) as as2"
    using Cons.IH [of fs1 as2] rest safe(1) eqs by simp
  then have "list_all2 (\<lambda>a a'. fs2 (art_path a') = fs (art_path a) \<and> a' = a\<lparr>art_path := art_path a'\<rparr>) as as2"
    by (rule list.rel_mono_strong) (use safe(4) relocate_one_frame [OF one] in auto)
  ultimately show ?case using a1 eqs by simp
qed

definition demo_binary :: "string \<Rightarrow> string option \<Rightarrow> artifact" where
  "demo_binary path variant =
     \<lparr>art_kind = Binary, art_path = path, art_name = ''app'', art_target = Some ''x86_64-unknown-linux-gnu'',
      art_crate_name = ''app'', art_metadata = (case variant of Some v \<Rightarrow> [(''amd64_variant'', v)] | None \<Rightarrow> []),
      art_size = None\<rparr>"

theorem relocation_keeps_contents_witness:
  "let fs = [''target/app'' \<mapsto> ''v1'']; as = [demo_binary ''target/app'' None]
   in fst (relocate_all ''dist/linux'' fs as) (art_path (hd (snd (relocate_all ''dist/linux'' fs as)))) = Some ''v1''"
proof -
  have "relocation_safe ''dist/linux'' [demo_binary ''target/app'' None]" by (simp add: relocation_safe_def)
  from relocation_keeps_contents [of "''dist/linux''" "[''target/app'' \<mapsto> ''v1'']" "[demo_binary ''target/app'' None]", OF _ this]
  show ?thesis
    by (cases "relocate_all ''dist/linux'' [''target/app'' \<mapsto> ''v1''] [demo_binary ''target/app'' None]")
      (auto simp: Let_def list_all2_Cons1 demo_binary_def)
qed

text \<open>Two variants of one triple have one destination: the second copy replaces the first.\<close>

lemma variants_overwrite_each_other:
  "let fs = [''v1/app'' \<mapsto> ''baseline'', ''v3/app'' \<mapsto> ''tuned''];
       r = relocate_all ''dist/linux'' fs [demo_binary ''v1/app'' (Some ''v1''), demo_binary ''v3/app'' (Some ''v3'')]
   in map art_path (snd r) = [''dist/linux/x86_64-unknown-linux-gnu/app'', ''dist/linux/x86_64-unknown-linux-gnu/app''] \<and>
      fst r ''dist/linux/x86_64-unknown-linux-gnu/app'' = Some ''tuned''"
  by (simp add: demo_binary_def relocate_one_def file_name_def Let_def)

subsection \<open>Secrets and completeness\<close>

lemma merge_value_origin:
  "map_of (foldl (\<lambda>m (k, v). btree_insert k v m) acc kvs) k = Some v \<Longrightarrow> (k, v) \<in> set kvs \<or> map_of acc k = Some v"
proof (induction kvs arbitrary: acc)
  case Nil
  then show ?case by simp
next
  case (Cons kv kvs)
  obtain k' v' where kv: "kv = (k', v')" by (cases kv)
  from Cons.IH [of "btree_insert k' v' acc"] Cons.prems kv
  have "(k, v) \<in> set kvs \<or> map_of (btree_insert k' v' acc) k = Some v" by simp
  then show ?case using kv by (auto simp: map_of_btree_insert split: if_splits)
qed

text \<open>
  An environment value that a worker writes into \<open>context.json\<close> is the redaction mark or a value that is not a secret.
\<close>

theorem split_context_hides_secrets:
  assumes "run_split rustc_vv config env targets dist pipeline vars config_env = Inr (fs, out)"
    and "map_of (sc_env_vars (so_context out)) k = Some v"
  shows "v = ''[redacted]'' \<or> (k, v) \<in> set config_env \<and> \<not> is_secret_env k v"
proof -
  from assms(1) have "sc_env_vars (so_context out) = btree_collect (redact_secret_env_vars config_env)"
    by (auto simp: run_split_def Let_def split: sum.splits prod.splits)
  with assms(2) have "(k, v) \<in> set (redact_secret_env_vars config_env)"
    using merge_value_origin [of "[]" "redact_secret_env_vars config_env" k v] by (simp add: btree_collect_def)
  then show ?thesis by (auto simp: redact_secret_env_vars_def split: if_splits)
qed

definition empty_context :: "string \<Rightarrow> split_context" where
  "empty_context p = \<lparr>sc_partial_target = p, sc_template_vars = [], sc_env_vars = [], sc_git_tag = None,
     sc_git_commit = None, sc_git_branch = None, sc_artifacts = []\<rparr>"

theorem merge_accepts_exactly_all_shards_witness:
  "let targets = [''x86_64-unknown-linux-gnu'', ''x86_64-apple-darwin'', ''aarch64-apple-darwin''];
       m = Some (Inr (build_matrix targets ''os''))
   in check_split_worker_completeness ''dist'' m [Inr (empty_context ''linux''), Inr (empty_context ''darwin'')] = Inr () \<and>
      check_split_worker_completeness ''dist'' m [Inr (empty_context ''linux'')] \<noteq> Inr ()"
proof -
  let ?ts = "[''x86_64-unknown-linux-gnu'', ''x86_64-apple-darwin'', ''aarch64-apple-darwin'']"
  have m: "matrix_targets ?ts ''os'' = [''linux'', ''darwin'']" by code_simp
  have ok: "shard_context_ok ''os'' ?ts e (empty_context e)" for e
    by (simp add: shard_context_ok_def empty_context_def shard_subdir List.map_filter_def)
  show ?thesis
    using merge_accepts_exactly_all_shards [of "[''linux'', ''darwin'']" ?ts "''os''" empty_context "''dist''"]
      merge_accepts_exactly_all_shards [of "[''linux'']" ?ts "''os''" empty_context "''dist''"]
    by (simp add: m ok Let_def)
qed

text \<open>
  A worker with a narrower filter than its matrix entry stands for the whole entry: here the arm64 Linux target
  is built by nobody and the merge is accepted.
\<close>

lemma narrow_shard_accepted:
  "let targets = [''x86_64-unknown-linux-gnu'', ''aarch64-unknown-linux-gnu'']
   in check_split_worker_completeness ''dist'' (Some (Inr (build_matrix targets ''os''))) [Inr (empty_context ''linux_amd64'')] = Inr () \<and>
      filter_targets (from_dist_subdir ''linux_amd64'') targets = [''x86_64-unknown-linux-gnu'']"
  by code_simp

end
