(* ===== verification/Spec2Isabelle.thy ===== *)
theory Spec2Isabelle
  imports TagRollback RetryHttp NextVersion VersionFiles SplitMerge
begin

text \<open>
  \<^bold>\<open>Anodizer: the release pipeline, verified.\<close>

  Anodizer releases software: it builds artifacts, tags a version, publishes to package registries,
  forges and stores, and can withdraw a release. What makes this hard is that some publishes cannot
  be undone, that a run can stop anywhere and be run again, and that every remote can fail for a
  while. This development models the code that decides about those matters.

  \<^bold>\<open>Parts of the program and their theories\<close> (paths are below \<open>src/crates/\<close>)

  \<^item> \<open>Prelude\<close>: Rust's \<open>Ordering\<close>, strings, sorting, saturating arithmetic and \<open>BTreeMap\<close>; the
    locales \<open>rust_ord\<close>, \<open>rust_ord_eq\<close> (a lawful \<open>Ord\<close>) and \<open>latch\<close> (a condition no step undoes); the
    \<open>for\<close> loop with early exit and guarded event histories.
  \<^item> \<open>SemVer\<close> (\<open>core/src/git/semver.rs\<close>): versions, their order, the parsers, and locating a version in a tag.
  \<^item> \<open>Evidence\<close> (\<open>core/src/publish_evidence*\<close>): what a publisher recorded about the work it committed, and the join of two records.
  \<^item> \<open>PublishReport\<close> (\<open>core/src/publish_report.rs\<close>): groups, outcomes, rows, and the gates computed from them.
  \<^item> \<open>RunContext\<close> (\<open>core/src/context/\<close>, \<open>publisher_kind.rs\<close>, \<open>pipe_skip.rs\<close>): the state of a run that the
    publish pipeline reads and writes, mode predicates, the skip vocabulary and the selection of publishers,
    the single-shot slots, the verify gate and the exit gate.
  \<^item> \<open>Publisher\<close> (\<open>core/src/publisher.rs\<close>): the publisher trait as a record of functions, pre-flight verdicts,
    reconcile states, rollback scopes.
  \<^item> \<open>RunSummary\<close> (\<open>stage-publish/src/run_summary/\<close>, \<open>report.rs\<close>): run ids and directories, building, writing and
    re-reading \<open>summary.json\<close>; the locale \<open>lawful_os\<close> states what is relied on of the file system and of JSON.
  \<^item> \<open>Dispatch\<close> (\<open>stage-publish/src/dispatch.rs\<close>): the loop over the publishers, one definition per arm
    (one-way-door gate, deselection, inactive configuration, nightly, reconcile, verify gate, run), the ledger fast
    path and the digest snapshot.
  \<^item> \<open>Rollback\<close> (\<open>stage-publish/src/rollback.rs\<close>, \<open>report.rs\<close>): withdrawal of a release with its persisted
    state, the preview, and folding an earlier run into a new report.
  \<^item> \<open>Duration\<close> (\<open>core/src/config/string_or_bool.rs\<close>): the duration strings of the configuration.
  \<^item> \<open>Retry\<close> (\<open>core/src/retry/policy.rs\<close>, \<open>driver.rs\<close>, \<open>config/retry.rs\<close>): the retry engine, its delays, its
    accounting and the wall-clock budget of a publisher.
  \<^item> \<open>RetryHttp\<close> (\<open>core/src/retry/error.rs\<close>, \<open>http.rs\<close>): error classification and the HTTP ladders.
  \<^item> \<open>Redact\<close> (\<open>core/src/redact.rs\<close>): which environment values are secrets, masking them in whole texts and in a
    stream of chunks, and stripping credentials from URLs.
  \<^item> \<open>CrateGraph\<close> (\<open>core/src/util.rs\<close>, \<open>stage-publish/src/cargo\<close>): Kahn's algorithm over the crates of a workspace,
    the transitive selection, change propagation and the order in which crates are published.
  \<^item> \<open>Tags\<close> (\<open>core/src/git/\<close>, \<open>release_tag.rs\<close>): tag families, the latest and the previous tag of a release.
  \<^item> \<open>NextVersion\<close> (\<open>cli/src/commands/tag\<close>, \<open>bump\<close>): the next version from commit messages, in both commands.
  \<^item> \<open>VersionFiles\<close> (\<open>core/src/version_files.rs\<close>, \<open>cli/src/commands\<close>): the rewriting of version strings in files,
    and the plan that refuses overlapping edits.
  \<^item> \<open>Targets\<close> (\<open>core/src/target.rs\<close>, \<open>partial.rs\<close>): target triples, the shard a split worker builds, the host filter.
  \<^item> \<open>Artifacts\<close> (\<open>core/src/artifact/\<close>): the artifact registry, its filters, and \<open>artifacts.json\<close>.
  \<^item> \<open>BuildPlan\<close> (\<open>core/src/build_plan.rs\<close>, \<open>cli/src/commands/helpers/workspace.rs\<close>, \<open>stage-build/src/run.rs\<close>, \<open>prebuilt.rs\<close>):
    which targets an entry builds, as the command line reports them and as the build stage plans them.
  \<^item> \<open>SplitMerge\<close> (\<open>cli/src/commands/release/split.rs\<close>): the contexts and the matrix of a split build, and their merge.
  \<^item> \<open>TagShape\<close>, \<open>TagGuard\<close>, \<open>TagRollback\<close> (\<open>cli/src/commands/tag/rollback/\<close>): the command \<open>tag rollback\<close>: the shapes of the tags
    it may touch, the guard over run summaries, registries and forge releases, and the command itself with the
    publisher unwind, the git steps and the deletion of tags and releases.

  \<^bold>\<open>How the parts interact.\<close> The publish stage calls \<open>dispatch\<close> with the registered publishers and
  the run's context; each publisher's \<open>run\<close> may record evidence and an outcome in the context, retries
  its requests through the ladders under the budget of its invocation, and its row is appended to the
  report. The report's gates decide which later publishers run and whether the process fails. Report
  and summary are written below \<open>dist/run-<id>\<close>; a later run reads the summaries back (the ledger) and
  folds the earlier report into its own; \<open>tag rollback\<close> reads the summaries as evidence, has the withdrawal engine undo
  what the reports name, and only then undoes the bump and deletes the tags. A split build runs the build plan's targets in
  shards, whose contexts a merge loads back into the artifact registry before the publish stage.

  \<^bold>\<open>State and effects.\<close> A function that changes the context takes and returns it. Calls to publishers, gates
  and probes, and log lines, are events in a history returned beside the result, so that "is never called" and
  "is called before" are statements about a list. A publisher is any record of functions over the context, including
  its arbitrary \<open>world\<close> field. Files are a finite map inside the context, JSON printing and parsing are parameters.
  Every error return of the code is a left value; the \<open>?\<close> operator over a state and a history is \<open>and_then\<close> in \<open>TagRollback\<close>. The
  repository that git and \<open>gh\<close> act on is a state of an arbitrary type, changed by the commands of \<open>git_op\<close>. The clock of the retry engine is a field of its world; the
  operating system's sleep, the wall clock and the HTTP client are parameters.

  \<^bold>\<open>What is shown.\<close> Dispatch: no one-way door is entered or probed after a required failure; one row per publisher;
  the verify gate is asked at most once and before any Submitter; deselected publishers are not called; the ledger
  skips exactly what it can prove done. Withdrawal and re-runs: the preview is what is withdrawn, a repeated
  withdrawal repeats nothing, a re-run's report takes in the work of earlier runs, up to evidence that cannot join. Retry: every ladder ends within its attempt and time bounds
  and succeeds if the operation recovers in time; the delay is the mathematical one; a client error is sent once; a rate limit
  is waited out; one invocation has one deadline; the accounting adds up. Data: the version parser inverts the printer
  and the order is lawful and refines the SemVer precedence; the duration parser accepts exactly its documented
  language; evidence joins are unions; a summary with results is never replaced by one without, as the strict reader sees it, and run ids stay below \<open>dist\<close>.

  Secrets: no masked value survives, and a redacted stream is the redaction of the whole. Crates: a plan is a
  permutation in which dependencies come first, selections are exact reachable sets. Tags and versions: the families
  partition the tags, the automatic tag lies above every earlier one, a rewrite replaces exactly the planned occurrences.
  Split builds: the shards partition the targets, a merge accepts exactly a complete set and restores every artifact; the
  reported targets are those that are built and those of skipped entries. Artifacts: only sidecars collapse in the registry, derived artifacts share the
  verdict of their subject, the manifest does not depend on the order of registration. Tag rollback: nothing is
  changed without evidence on every layer, tags are deleted last and only after the bump was undone by successful
  commands, a tag is kept when the deletion of its own release failed or its lookup was inconclusive, and a dry run changes nothing and predicts every early stop.

  \<^bold>\<open>Interfaces.\<close> \<open>rust_ord\<close> and \<open>rust_ord_eq\<close> are interpreted on the comparison functions of versions, tags, secrets, edits,
  retry scopes and manifest entries, \<open>latch\<close> on the gates of the report, \<open>ladder_sleep\<close> on both sleeps of the retry engine,
  \<open>lawful_os\<close> on a file system in memory.

  \<^bold>\<open>Bounds and fuel.\<close> Only Kahn's loop uses fuel, the number of items plus the number of dependencies, and
  \<open>topological_sort_correct\<close> shows that it is enough for distinct names. The retry loop terminates by the attempts left, the duration scan by
  the characters left, \<open>error_links\<close> by the size of the chain; all else is structural. The matcher of the tag patterns is
  shown to decide their languages. Machine integers are words where the code's arithmetic can
  reach their width (attempt numbers, backoff milliseconds, jitter); the version numbers are naturals below \<open>2 ^ 64\<close>,
  because they are only parsed and compared. Strings are ASCII.

  \<^bold>\<open>Not modelled.\<close> Git, cargo, docker and signing subprocesses, the Tera templates, the archive and installer formats
  written through third-party libraries, the registry and forge clients behind the publisher trait, and the command
  line: they are calls to code outside the repository or glue around it. The changelog is text assembled through the
  user's regular expressions and templates. Of the registry publishers only the functions the rollback guard calls are modelled.
\<close>

end
